(* ===== verification/Prelude.thy ===== *)
theory Prelude
  imports Main "HOL-Library.Word" "HOL-Library.Monad_Syntax"
begin

text \<open>
  Shared ground of the development: the machine types of the C code, the errno values it
  names, bounds-checked memory copies, the little-endian layout of integers in memory, and the
  way a call that never comes back is written.

  \<^bold>\<open>Calls that do not return.\<close> A C function that may stop the process (a failed
  \<open>assert\<close>, \<open>abort()\<close>, a NULL or dangling pointer that is dereferenced, an access outside
  an array, signed overflow) or that may loop forever is modelled by a function into an
  \<open>option\<close>: \<open>None\<close> says that the call does not return to its caller, \<open>Some\<close>
  carries the value returned and the new state. Error returns (\<open>-1\<close> with \<open>errno\<close>) are
  ordinary values. The state is passed explicitly and the \<open>do\<close> notation sequences the
  calls.
\<close>

section \<open>Machine types\<close>

type_synonym byte = "8 word"
type_synonym bytes = "byte list"
type_synonym u16 = "16 word"
type_synonym u32 = "32 word"

definition INT_MAX :: int where
  "INT_MAX = 2147483647"

definition INT_MIN :: int where
  "INT_MIN = - 2147483648"

text \<open>The values of errno that the sources name, with their numbers on Linux.\<close>

type_synonym errno = int

definition EPERM :: errno where "EPERM = 1"
definition ENOENT :: errno where "ENOENT = 2"
definition EINTR :: errno where "EINTR = 4"
definition EIO :: errno where "EIO = 5"
definition EBADF :: errno where "EBADF = 9"
definition ECHILD :: errno where "ECHILD = 10"
definition EAGAIN :: errno where "EAGAIN = 11"
definition ENOMEM :: errno where "ENOMEM = 12"
definition EBUSY :: errno where "EBUSY = 16"
definition EINVAL :: errno where "EINVAL = 22"
definition EMFILE :: errno where "EMFILE = 24"
definition EPIPE :: errno where "EPIPE = 32"
definition ENOSYS :: errno where "ENOSYS = 38"
definition EBADMSG :: errno where "EBADMSG = 74"
definition EOVERFLOW :: errno where "EOVERFLOW = 75"
definition ECONNRESET :: errno where "ECONNRESET = 104"
definition ENOTCONN :: errno where "ENOTCONN = 107"
definition EALREADY :: errno where "EALREADY = 114"

lemmas errno_defs = EPERM_def ENOENT_def ECONNRESET_def EINTR_def EIO_def EBADF_def ECHILD_def EAGAIN_def ENOMEM_def
  EBUSY_def EINVAL_def EMFILE_def EPIPE_def ENOSYS_def EBADMSG_def EOVERFLOW_def ENOTCONN_def
  EALREADY_def

section \<open>Assertions and checked arithmetic\<close>

definition oassert :: "bool \<Rightarrow> unit option" where
  "oassert b = (if b then Some () else None)"

text \<open>\<open>x++\<close> on a C \<open>int\<close>: overflow is undefined behaviour.\<close>

definition int_incr :: "int \<Rightarrow> int option" where
  "int_incr x = (if x < INT_MAX then Some (x + 1) else None)"

definition int_decr :: "int \<Rightarrow> int option" where
  "int_decr x = (if INT_MIN < x then Some (x - 1) else None)"

section \<open>Memory copies with bounds\<close>

text \<open>
  \<open>memcpy\<close> between an array and a buffer of its own: reading or writing outside the array does
  not return.
\<close>

definition memcpy_from :: "bytes \<Rightarrow> nat \<Rightarrow> nat \<Rightarrow> bytes option" where
  "memcpy_from src off n =
     (if off + n \<le> length src then Some (take n (drop off src)) else None)"

definition memcpy_to :: "bytes \<Rightarrow> nat \<Rightarrow> bytes \<Rightarrow> bytes option" where
  "memcpy_to dst off bs =
     (if off + length bs \<le> length dst
      then Some (take off dst @ bs @ drop (off + length bs) dst) else None)"

section \<open>Integers in memory\<close>

text \<open>
  The protocol sends C structures as they lie in memory. The model fixes the little-endian
  layout of the platforms seatd is built for.
\<close>

primrec le_bytes :: "nat \<Rightarrow> nat \<Rightarrow> bytes" where
  "le_bytes 0 v = []"
| "le_bytes (Suc n) v = of_nat (v mod 256) # le_bytes n (v div 256)"

primrec le_val :: "bytes \<Rightarrow> nat" where
  "le_val [] = 0"
| "le_val (b # bs) = unat b + 256 * le_val bs"

definition u16_bytes :: "u16 \<Rightarrow> bytes" where
  "u16_bytes w = le_bytes 2 (unat w)"

definition bytes_u16 :: "bytes \<Rightarrow> u16" where
  "bytes_u16 bs = of_nat (le_val bs)"

text \<open>A C \<open>int\<close>: 32 bits, two's complement.\<close>

definition int_bytes :: "int \<Rightarrow> bytes" where
  "int_bytes i = le_bytes 4 (nat (i mod 4294967296))"

definition bytes_int :: "bytes \<Rightarrow> int" where
  "bytes_int bs =
     (let v = int (le_val bs) in if v \<le> INT_MAX then v else v - 4294967296)"

text \<open>An array of ints, \<open>int[n]\<close>.\<close>

fun bytes_ints :: "bytes \<Rightarrow> int list" where
  "bytes_ints (a # b # c # d # bs) = bytes_int [a, b, c, d] # bytes_ints bs"
| "bytes_ints _ = []"

definition ints_bytes :: "int list \<Rightarrow> bytes" where
  "ints_bytes is = concat (map int_bytes is)"

text \<open>C strings, without their terminator, and the bytes they are made of.\<close>

definition string_bytes :: "string \<Rightarrow> bytes" where
  "string_bytes s = map (\<lambda>c. of_nat (of_char c)) s"

definition bytes_string :: "bytes \<Rightarrow> string" where
  "bytes_string bs = map (\<lambda>b. char_of (unat b)) bs"

text \<open>\<open>strnlen\<close>: the number of bytes before the first NUL among the first \<open>n\<close>.\<close>

definition strnlen :: "bytes \<Rightarrow> nat \<Rightarrow> nat" where
  "strnlen bs n = length (takeWhile (\<lambda>b. b \<noteq> 0) (take n bs))"

definition is_int :: "int \<Rightarrow> bool" where
  "is_int i \<longleftrightarrow> INT_MIN \<le> i \<and> i \<le> INT_MAX"

section \<open>Lists\<close>

text \<open>Reading a list by position, where running past the end does not return.\<close>

definition nth_opt :: "'a list \<Rightarrow> nat \<Rightarrow> 'a option" where
  "nth_opt xs i = (if i < length xs then Some (xs ! i) else None)"

definition remove_nth :: "nat \<Rightarrow> 'a list \<Rightarrow> 'a list" where
  "remove_nth i xs = take i xs @ drop (Suc i) xs"

text \<open>The first position whose element satisfies a predicate.\<close>

primrec find_index :: "('a \<Rightarrow> bool) \<Rightarrow> 'a list \<Rightarrow> nat option" where
  "find_index P [] = None"
| "find_index P (x # xs) = (if P x then Some 0 else map_option Suc (find_index P xs))"

section \<open>Lemmas\<close>

named_theorems returns \<open>rules for calls that return\<close>

lemma oassert_simps [simp]:
  "oassert True = Some ()" "oassert False = None" "(oassert b = Some u) = b" "(oassert b = None) = (\<not> b)"
  by (auto simp: oassert_def)

lemma bind_None_iff: "(Option.bind m f = None) \<longleftrightarrow> (m = None \<or> (\<exists>x. m = Some x \<and> f x = None))"
  by (cases m) auto

lemma int_incr_eq_Some [simp]: "int_incr x = Some y \<longleftrightarrow> x < INT_MAX \<and> y = x + 1"
  by (auto simp: int_incr_def)

lemma int_incr_None [simp]: "int_incr x = None \<longleftrightarrow> INT_MAX \<le> x"
  by (auto simp: int_incr_def)

lemma int_decr_eq_Some [simp]: "int_decr x = Some y \<longleftrightarrow> INT_MIN < x \<and> y = x - 1"
  by (auto simp: int_decr_def)

lemma memcpy_from_eq_Some [simp]:
  "memcpy_from src off n = Some bs \<longleftrightarrow> off + n \<le> length src \<and> bs = take n (drop off src)"
  by (auto simp: memcpy_from_def)

lemma memcpy_to_eq_Some [simp]:
  "memcpy_to dst off bs = Some dst' \<longleftrightarrow>
     off + length bs \<le> length dst \<and> dst' = take off dst @ bs @ drop (off + length bs) dst"
  by (auto simp: memcpy_to_def)

lemma memcpy_to_length: "memcpy_to dst off bs = Some dst' \<Longrightarrow> length dst' = length dst"
  by auto

lemma unat_u32_less: "unat (w :: u32) < 4294967296"
  using unsigned_less [of w, where ?'a = nat] by simp

lemma unat_of_nat_u32: "n < 4294967296 \<Longrightarrow> unat (of_nat n :: u32) = n"
  by (simp add: unat_of_nat take_bit_eq_mod)

lemma length_le_bytes [simp]: "length (le_bytes n v) = n"
  by (induction n arbitrary: v) auto

lemma le_val_le_bytes: "v < 256 ^ n \<Longrightarrow> le_val (le_bytes n v) = v"
proof (induction n arbitrary: v)
  case 0
  then show ?case by simp
next
  case (Suc n)
  then have "v div 256 < 256 ^ n"
    by (simp add: less_mult_imp_div_less mult.commute)
  then have "le_val (le_bytes n (v div 256)) = v div 256" by (rule Suc.IH)
  then show ?case by (simp add: unat_of_nat take_bit_eq_mod)
qed

lemma le_val_bound: "le_val bs < 256 ^ length bs"
proof (induction bs)
  case (Cons b bs)
  have "unat b < 256" using unsigned_less [of b] by simp
  with Cons show ?case by simp
qed simp

lemma le_bytes_le_val: "le_bytes (length bs) (le_val bs) = bs"
proof (induction bs)
  case (Cons b bs)
  have "unat b < 256" using unsigned_less [of b] by simp
  with Cons show ?case by simp
qed simp

lemma length_u16_bytes [simp]: "length (u16_bytes w) = 2"
  by (simp add: u16_bytes_def)

lemma length_int_bytes [simp]: "length (int_bytes i) = 4"
  by (simp add: int_bytes_def)

lemma bytes_u16_u16_bytes [simp]: "bytes_u16 (u16_bytes w) = w"
proof -
  have "unat w < 256 ^ 2" using unsigned_less [of w] by simp
  then show ?thesis by (simp add: bytes_u16_def u16_bytes_def le_val_le_bytes)
qed

lemma u16_bytes_bytes_u16: "length bs = 2 \<Longrightarrow> u16_bytes (bytes_u16 bs) = bs"
  using le_val_bound [of bs] le_bytes_le_val [of bs] by (simp add: u16_bytes_def bytes_u16_def unat_of_nat)

lemma bytes_int_int_bytes [simp]: "is_int i \<Longrightarrow> bytes_int (int_bytes i) = i"
proof -
  assume i: "is_int i"
  have "nat (i mod 4294967296) < 256 ^ 4" by simp
  then have "le_val (int_bytes i) = nat (i mod 4294967296)"
    unfolding int_bytes_def by (rule le_val_le_bytes)
  moreover have "i mod 4294967296 = (if 0 \<le> i then i else i + 4294967296)"
  proof (cases "0 \<le> i")
    case False
    with i have "(i + 4294967296) mod 4294967296 = i + 4294967296"
      by (intro mod_pos_pos_trivial) (auto simp: is_int_def INT_MIN_def)
    with False show ?thesis by simp
  qed (use i in \<open>simp add: is_int_def INT_MAX_def\<close>)
  ultimately show ?thesis
    using i by (auto simp: bytes_int_def Let_def is_int_def INT_MIN_def INT_MAX_def)
qed

lemma bytes_int_is_int: "length bs = 4 \<Longrightarrow> is_int (bytes_int bs)"
  using le_val_bound [of bs] by (auto simp: bytes_int_def is_int_def INT_MIN_def INT_MAX_def Let_def)

lemma length_string_bytes [simp]: "length (string_bytes s) = length s"
  by (simp add: string_bytes_def)

lemma bytes_string_string_bytes [simp]: "bytes_string (string_bytes s) = s"
proof -
  have "char_of (unat (of_nat (of_char c) :: byte)) = (c :: char)" for c
    by (simp add: unat_of_nat take_bit_eq_mod)
  then show ?thesis by (simp add: bytes_string_def string_bytes_def o_def)
qed

lemma strnlen_le: "strnlen bs n \<le> n" "strnlen bs n \<le> length bs"
  using length_takeWhile_le [of "\<lambda>b. b \<noteq> 0" "take n bs"] by (auto simp: strnlen_def)

text \<open>A string that ends at its last byte: exactly the last byte is NUL.\<close>

lemma strnlen_terminated:
  assumes "length bs = n" and "0 < n" and "strnlen bs n = n - 1"
  shows "last bs = 0" and "0 \<notin> set (butlast bs)"
proof -
  let ?P = "\<lambda>b :: byte. b \<noteq> 0"
  have l: "length (takeWhile ?P bs) = n - 1" using assms by (simp add: strnlen_def)
  with assms have "\<not> ?P (bs ! (n - 1))" using nth_length_takeWhile [of ?P bs] by simp
  with assms show "last bs = 0" by (metis last_conv_nth length_greater_0_conv)
  have "butlast bs = takeWhile ?P bs"
    using l assms by (metis butlast_conv_take takeWhile_eq_take)
  then show "0 \<notin> set (butlast bs)" by (auto dest: set_takeWhileD)
qed

lemma bytes_ints_append:
  "length bs = 4 \<Longrightarrow> bytes_ints (bs @ cs) = bytes_int bs # bytes_ints cs"
  by (auto simp: length_Suc_conv numeral_eq_Suc)

lemma bytes_ints_ints_bytes: "\<forall>i \<in> set is. is_int i \<Longrightarrow> bytes_ints (ints_bytes is) = is"
  by (induction "is") (auto simp: ints_bytes_def bytes_ints_append)

lemma length_bytes_ints: "length (bytes_ints bs) = length bs div 4"
  by (induction bs rule: bytes_ints.induct) auto

lemma nth_opt_eq_Some [simp]: "nth_opt xs i = Some x \<longleftrightarrow> i < length xs \<and> x = xs ! i"
  by (auto simp: nth_opt_def)

lemma nth_opt_Nil [simp]: "nth_opt [] i = None"
  by (simp add: nth_opt_def)

lemma nth_opt_Cons_0 [simp]: "nth_opt (x # xs) 0 = Some x"
  by (simp add: nth_opt_def)

lemma remove_nth_0 [simp]: "remove_nth 0 (x # xs) = xs"
  by (simp add: remove_nth_def)

lemma find_index_Some: "find_index P xs = Some i \<Longrightarrow> i < length xs \<and> P (xs ! i) \<and> (\<forall>j < i. \<not> P (xs ! j))"
proof (induction xs arbitrary: i)
  case (Cons x xs)
  then show ?case by (cases i) (auto split: if_splits simp: less_Suc_eq_0_disj)
qed simp

lemma find_index_None: "find_index P xs = None \<longleftrightarrow> (\<forall>x \<in> set xs. \<not> P x)"
  by (induction xs) auto

lemma set_remove_nth: "set (remove_nth i xs) \<subseteq> set xs"
  by (auto simp: remove_nth_def dest: in_set_takeD in_set_dropD)

lemma distinct_map_remove_nth: "distinct (map f xs) \<Longrightarrow> distinct (map f (remove_nth i xs))"
proof (induction xs arbitrary: i)
  case (Cons x xs)
  then show ?case
    using set_remove_nth [of "i - 1" xs] by (cases i) (auto simp: remove_nth_def)
qed (simp add: remove_nth_def)

end
