(* ===== verification/Linked_List.thy ===== *)
theory Linked_List
  imports Prelude
begin

text \<open>
  The intrusive, circular, doubly linked lists of \<open>common/linked_list.c\<close>, over an explicit
  store: an address is allocated when the store maps it to a node, and a NULL pointer is
  \<open>None\<close>. Every pointer the code dereferences is looked up, so that a dangling or NULL pointer
  does not return.

  \<open>list_at h l xs\<close> says that in the store \<open>h\<close> the list head \<open>l\<close> carries the elements \<open>xs\<close>, in
  the order in which a loop from \<open>l->next\<close> meets them. Each operation is shown to act on \<open>xs\<close> as
  an operation on lists and to leave every node of another list alone. The locale
  \<open>intrusive_list\<close> states this contract for the loops that use the lists.
\<close>

section \<open>Model\<close>

type_synonym addr = nat

record linked_list =
  prev :: "addr option"
  "next" :: "addr option"

type_synonym lheap = "addr \<Rightarrow> linked_list option"

definition set_prev :: "addr \<Rightarrow> addr option \<Rightarrow> lheap \<Rightarrow> lheap option" where
  "set_prev a v h = do { n \<leftarrow> h a; Some (h(a \<mapsto> n\<lparr>prev := v\<rparr>)) }"

definition set_next :: "addr \<Rightarrow> addr option \<Rightarrow> lheap \<Rightarrow> lheap option" where
  "set_next a v h = do { n \<leftarrow> h a; Some (h(a \<mapsto> n\<lparr>next := v\<rparr>)) }"

definition linked_list_init :: "addr \<Rightarrow> lheap \<Rightarrow> lheap option" where
  "linked_list_init l h = do {
     h \<leftarrow> set_next l (Some l) h;
     set_prev l (Some l) h }"

definition linked_list_insert :: "addr \<Rightarrow> addr \<Rightarrow> lheap \<Rightarrow> lheap option" where
  "linked_list_insert l e h = do {
     nl \<leftarrow> h l;
     oassert (prev nl \<noteq> None \<and> next nl \<noteq> None);
     ne \<leftarrow> h e;
     oassert (prev ne = next ne);
     h \<leftarrow> set_prev e (Some l) h;
     nl \<leftarrow> h l;
     h \<leftarrow> set_next e (next nl) h;
     h \<leftarrow> set_next l (Some e) h;
     ne \<leftarrow> h e;
     nx \<leftarrow> next ne;
     set_prev nx (Some e) h }"

definition linked_list_remove :: "addr \<Rightarrow> lheap \<Rightarrow> lheap option" where
  "linked_list_remove e h = do {
     ne \<leftarrow> h e;
     oassert (prev ne \<noteq> None \<and> next ne \<noteq> None);
     pv \<leftarrow> prev ne;
     h \<leftarrow> set_next pv (next ne) h;
     ne \<leftarrow> h e;
     nx \<leftarrow> next ne;
     h \<leftarrow> set_prev nx (prev ne) h;
     h \<leftarrow> set_next e None h;
     set_prev e None h }"

definition linked_list_empty :: "addr \<Rightarrow> lheap \<Rightarrow> bool option" where
  "linked_list_empty l h = do {
     nl \<leftarrow> h l;
     oassert (prev nl \<noteq> None \<and> next nl \<noteq> None);
     Some (next nl = Some l) }"

definition linked_list_take :: "addr \<Rightarrow> addr \<Rightarrow> lheap \<Rightarrow> lheap option" where
  "linked_list_take target source h = do {
     e \<leftarrow> linked_list_empty source h;
     if e then Some h
     else do {
       ns \<leftarrow> h source;
       nx \<leftarrow> next ns;
       h \<leftarrow> set_prev nx (Some target) h;
       ns \<leftarrow> h source;
       pv \<leftarrow> prev ns;
       nt \<leftarrow> h target;
       h \<leftarrow> set_next pv (next nt) h;
       nt \<leftarrow> h target;
       ns \<leftarrow> h source;
       tn \<leftarrow> next nt;
       h \<leftarrow> set_prev tn (prev ns) h;
       ns \<leftarrow> h source;
       h \<leftarrow> set_next target (next ns) h;
       linked_list_init source h } }"

text \<open>The element that \<open>list->next\<close> points to.\<close>

definition linked_list_first :: "addr \<Rightarrow> lheap \<Rightarrow> addr option" where
  "linked_list_first l h = do { nl \<leftarrow> h l; next nl }"

text \<open>
  Two uses of the lists that recur in the sources, over the operations they call: inserting
  elements one after another, and the loop that takes the first element off until the list is
  empty (\<open>seat_destroy\<close>, \<open>server_finish\<close>, \<open>poller_finish\<close>, \<open>execute_events\<close>).
\<close>

primrec insert_all :: "('a \<Rightarrow> 'a \<Rightarrow> 'h \<Rightarrow> 'h option) \<Rightarrow> 'a \<Rightarrow> 'a list \<Rightarrow> 'h \<Rightarrow> 'h option" where
  "insert_all ins l [] h = Some h"
| "insert_all ins l (e # es) h = do { h \<leftarrow> ins l e h; insert_all ins l es h }"

primrec drain :: "('a \<Rightarrow> 'h \<Rightarrow> bool option) \<Rightarrow> ('a \<Rightarrow> 'h \<Rightarrow> 'a option) \<Rightarrow> ('a \<Rightarrow> 'h \<Rightarrow> 'h option) \<Rightarrow>
    nat \<Rightarrow> 'a \<Rightarrow> 'h \<Rightarrow> ('a list \<times> 'h) option" where
  "drain emp first rem 0 l h = None"
| "drain emp first rem (Suc n) l h = do {
     b \<leftarrow> emp l h;
     if b then Some ([], h)
     else do {
       x \<leftarrow> first l h;
       h \<leftarrow> rem x h;
       (xs, h) \<leftarrow> drain emp first rem n l h;
       Some (x # xs, h) } }"

section \<open>What a store represents\<close>

definition nxt :: "lheap \<Rightarrow> addr \<Rightarrow> addr option" where
  "nxt h a = do { n \<leftarrow> h a; next n }"

definition prv :: "lheap \<Rightarrow> addr \<Rightarrow> addr option" where
  "prv h a = do { n \<leftarrow> h a; prev n }"

text \<open>From \<open>a\<close>, the \<open>next\<close> pointers lead through \<open>xs\<close> to \<open>b\<close>, and the \<open>prev\<close> pointers back.\<close>

primrec seg :: "lheap \<Rightarrow> addr \<Rightarrow> addr list \<Rightarrow> addr \<Rightarrow> bool" where
  "seg h a [] b \<longleftrightarrow> nxt h a = Some b \<and> prv h b = Some a"
| "seg h a (x # xs) b \<longleftrightarrow> nxt h a = Some x \<and> prv h x = Some a \<and> seg h x xs b"

definition list_at :: "lheap \<Rightarrow> addr \<Rightarrow> addr list \<Rightarrow> bool" where
  "list_at h l xs \<longleftrightarrow> distinct (l # xs) \<and> seg h l xs l"

text \<open>A node that may be inserted: allocated, and its two pointers agree.\<close>

definition detached :: "lheap \<Rightarrow> addr \<Rightarrow> bool" where
  "detached h e \<longleftrightarrow> (\<exists>n. h e = Some n \<and> prev n = next n)"

definition same_outside :: "addr set \<Rightarrow> lheap \<Rightarrow> lheap \<Rightarrow> bool" where
  "same_outside A h h' \<longleftrightarrow> (\<forall>a. a \<notin> A \<longrightarrow> h' a = h a)"

section \<open>Lemmas\<close>

lemma seg_append: "seg h a (xs @ x # ys) b \<longleftrightarrow> seg h a xs x \<and> seg h x ys b"
  by (induction xs arbitrary: a) auto

lemma seg_cong:
  "(\<And>u. u \<in> set (a # xs) \<Longrightarrow> nxt h' u = nxt h u) \<Longrightarrow>
   (\<And>u. u \<in> set (xs @ [b]) \<Longrightarrow> prv h' u = prv h u) \<Longrightarrow> seg h' a xs b = seg h a xs b"
  by (induction xs arbitrary: a) auto

lemma seg_nxt_ex: "seg h a xs b \<Longrightarrow> \<exists>y. nxt h a = Some y"
  by (cases xs) auto

lemma seg_prv_ex: "seg h a xs b \<Longrightarrow> \<exists>y. prv h b = Some y"
  by (induction xs arbitrary: a) auto

lemma nxt_alloc: "nxt h a = Some y \<Longrightarrow> \<exists>n. h a = Some n \<and> next n = Some y"
  by (cases "h a") (auto simp: nxt_def)

lemma prv_alloc: "prv h a = Some y \<Longrightarrow> \<exists>n. h a = Some n \<and> prev n = Some y"
  by (cases "h a") (auto simp: prv_def)

lemma nxt_upd [simp]: "nxt (h(a \<mapsto> n)) u = (if u = a then next n else nxt h u)"
  by (simp add: nxt_def)

lemma prv_upd [simp]: "prv (h(a \<mapsto> n)) u = (if u = a then prev n else prv h u)"
  by (simp add: prv_def)

lemma list_at_head:
  assumes "list_at h l xs"
  shows "\<exists>n p x. h l = Some n \<and> prev n = Some p \<and> next n = Some x"
proof -
  from assms obtain p x where "nxt h l = Some x" "prv h l = Some p"
    using seg_nxt_ex seg_prv_ex by (fastforce simp: list_at_def)
  then show ?thesis by (auto dest!: nxt_alloc prv_alloc)
qed

lemma list_at_first: "list_at h l (x # xs) \<Longrightarrow> linked_list_first l h = Some x"
  by (auto simp: list_at_def linked_list_first_def nxt_def)

lemma list_at_other:
  assumes "list_at h l xs" and "same_outside A h h'" and "A \<inter> set (l # xs) = {}"
  shows "list_at h' l xs"
proof -
  have "nxt h' u = nxt h u" "prv h' u = prv h u" if "u \<in> set (l # xs)" for u
    using that assms(2,3) by (auto simp: same_outside_def nxt_def prv_def)
  then have "seg h' l xs l = seg h l xs l" by (intro seg_cong) auto
  with assms(1) show ?thesis by (simp add: list_at_def)
qed

text \<open>The last node before \<open>b\<close> on a segment.\<close>

lemma seg_snocE:
  assumes "seg h a xs b"
  shows "prv h b = Some (last (a # xs)) \<and> nxt h (last (a # xs)) = Some b"
  using assms by (induction xs arbitrary: a) auto

lemma seg_last_upd:
  assumes "seg h a xs b" and "distinct (a # xs)" and "b' \<notin> set (a # xs)"
    and "nxt h' (last (a # xs)) = Some b'" and "prv h' b' = Some (last (a # xs))"
    and "\<And>u. u \<in> set (a # xs) \<Longrightarrow> u \<noteq> last (a # xs) \<Longrightarrow> nxt h' u = nxt h u"
    and "\<And>u. u \<in> set xs \<Longrightarrow> prv h' u = prv h u"
  shows "seg h' a xs b'"
  using assms
proof (induction xs arbitrary: a)
  case Nil
  then show ?case by simp
next
  case (Cons x xs)
  have ne: "a \<noteq> last (x # xs)" using Cons.prems(2) by (metis distinct.simps(2) last_in_set list.distinct(1))
  have "seg h' x xs b'"
    by (rule Cons.IH) (use Cons.prems in \<open>auto simp: ne\<close>)
  moreover have "nxt h' a = Some x" using Cons.prems(1,6) ne by simp
  moreover have "prv h' x = Some a" using Cons.prems(1,7) by simp
  ultimately show ?case by simp
qed

section \<open>The operations act on the represented list\<close>

lemma linked_list_init_ok:
  assumes "h l = Some n"
  shows "\<exists>h'. linked_list_init l h = Some h' \<and> list_at h' l [] \<and> same_outside {l} h h'"
  using assms by (auto simp: linked_list_init_def set_next_def set_prev_def list_at_def same_outside_def)

lemma linked_list_empty_ok:
  assumes "list_at h l xs"
  shows "linked_list_empty l h = Some (xs = [])"
proof -
  from list_at_head [OF assms] obtain n p x where n: "h l = Some n" "prev n = Some p" "next n = Some x"
    by blast
  have "x = l \<longleftrightarrow> xs = []"
    using assms n by (cases xs) (auto simp: list_at_def nxt_def)
  with n show ?thesis by (simp add: linked_list_empty_def)
qed

lemma linked_list_insert_ok:
  assumes l: "list_at h l xs" and e: "detached h e" "e \<notin> set (l # xs)"
  shows "\<exists>h'. linked_list_insert l e h = Some h' \<and> list_at h' l (e # xs)
      \<and> same_outside ({l, e} \<union> set xs) h h'"
proof -
  from list_at_head [OF l] obtain n p x where n: "h l = Some n" "prev n = Some p" "next n = Some x"
    by blast
  from e obtain ne where ne: "h e = Some ne" "prev ne = next ne" "e \<noteq> l"
    by (auto simp: detached_def)
  define h1 where "h1 = h(e \<mapsto> ne\<lparr>prev := Some l, next := Some x\<rparr>, l \<mapsto> n\<lparr>next := Some e\<rparr>)"
  have x: "x \<in> set (l # xs)" and xe: "x \<noteq> e"
    using l n e(2) by (cases xs; auto simp: list_at_def nxt_def)+
  have "\<exists>m. h1 x = Some m"
  proof (cases xs)
    case Nil
    with l n have "x = l" by (auto simp: list_at_def nxt_def)
    then show ?thesis by (simp add: h1_def)
  next
    case (Cons y ys)
    with l n have "x = y" "prv h y = Some l" by (auto simp: list_at_def nxt_def)
    with ne Cons l show ?thesis by (auto simp: h1_def list_at_def dest!: prv_alloc)
  qed
  then obtain m where m: "h1 x = Some m" by blast
  define h2 where "h2 = h1(x \<mapsto> m\<lparr>prev := Some e\<rparr>)"
  have call: "linked_list_insert l e h = Some h2"
    using n ne m xe by (auto simp: linked_list_insert_def set_prev_def set_next_def h1_def h2_def)
  have "seg h2 e xs l"
  proof (cases xs)
    case Nil
    with l n have "x = l" by (auto simp: list_at_def nxt_def)
    with Nil m ne show ?thesis by (auto simp: h2_def h1_def nxt_def prv_def)
  next
    case (Cons y ys)
    with l n have xy: "x = y" and tail: "seg h y ys l" and d: "distinct (l # y # ys)"
      by (auto simp: list_at_def nxt_def)
    have "seg h2 y ys l = seg h y ys l"
      using d e(2) Cons xy m n by (intro seg_cong) (auto simp: h2_def h1_def nxt_def prv_def)
    with tail Cons xy ne xe m show ?thesis by (auto simp: h2_def h1_def nxt_def prv_def)
  qed
  moreover have "nxt h2 l = Some e" "prv h2 e = Some l"
    using m ne n xe by (auto simp: h2_def h1_def nxt_def prv_def split: if_splits)
  ultimately have "list_at h2 l (e # xs)"
    using l e(2) by (auto simp: list_at_def)
  moreover have "same_outside ({l, e} \<union> set xs) h h2"
    using x by (auto simp: same_outside_def h1_def h2_def)
  ultimately show ?thesis using call by blast
qed

lemma linked_list_remove_ok:
  assumes l: "list_at h l (ys @ e # zs)"
  shows "\<exists>h'. linked_list_remove e h = Some h' \<and> list_at h' l (ys @ zs) \<and> detached h' e
      \<and> same_outside (set (l # ys @ e # zs)) h h'"
proof -
  from l have d: "distinct (l # ys @ e # zs)" and s1: "seg h l ys e" and s2: "seg h e zs l"
    by (auto simp: list_at_def seg_append)
  define p where "p = last (l # ys)"
  define x where "x = hd (zs @ [l])"
  have p: "prv h e = Some p" "nxt h p = Some e" "p \<in> set (l # ys)"
    using seg_snocE [OF s1] unfolding p_def by (auto intro: last_in_set)
  have x: "nxt h e = Some x" "prv h x = Some e" "x \<in> set (l # zs)"
    using s2 unfolding x_def by (cases zs; auto)+
  have pe: "p \<noteq> e" and xe: "x \<noteq> e" using d p(3) x(3) by auto
  from p x obtain ne np nx where n: "h e = Some ne" "prev ne = Some p" "next ne = Some x"
      "h p = Some np" "h x = Some nx"
    by (auto dest!: nxt_alloc prv_alloc)
  define h1 where "h1 = h(p \<mapsto> np\<lparr>next := Some x\<rparr>)"
  obtain m where m: "h1 x = Some m" using n by (cases "x = p") (auto simp: h1_def)
  define h2 where "h2 = h1(x \<mapsto> m\<lparr>prev := Some p\<rparr>, e \<mapsto> ne\<lparr>next := None, prev := None\<rparr>)"
  have call: "linked_list_remove e h = Some h2"
    using n pe xe m by (auto simp: linked_list_remove_def set_prev_def set_next_def h1_def h2_def)
  have nx2: "nxt h2 u = (if u = e then None else if u = p then Some x else nxt h u)" for u
    using m n xe pe by (auto simp: h2_def h1_def nxt_def split: if_splits)
  have pr2: "prv h2 u = (if u = e then None else if u = x then Some p else prv h u)" for u
    using m n xe pe by (auto simp: h2_def h1_def prv_def split: if_splits)
  have "seg h2 l (ys @ zs) l"
  proof (cases zs)
    case Nil
    then have xl: "x = l" by (simp add: x_def)
    show ?thesis
    proof (cases ys rule: rev_cases)
      case Nil
      with \<open>zs = []\<close> xl show ?thesis using d by (simp add: nx2 pr2 p_def)
    next
      case (snoc ys' y)
      then have "p = y" by (simp add: p_def)
      from snoc s1 have "seg h l ys' y" by (simp add: seg_append)
      moreover have "seg h2 l ys' y = seg h l ys' y"
        using d snoc xl \<open>p = y\<close> by (intro seg_cong) (auto simp: nx2 pr2)
      ultimately show ?thesis
        using snoc xl \<open>p = y\<close> \<open>zs = []\<close> d by (simp add: seg_append nx2 pr2)
    qed
  next
    case (Cons z zs')
    then have xz: "x = z" by (simp add: x_def)
    have "seg h z zs' l" using s2 Cons by simp
    moreover have "seg h2 z zs' l = seg h z zs' l"
      using d Cons xz p(3) by (intro seg_cong) (auto simp: nx2 pr2)
    moreover have "seg h2 l ys z"
      by (rule seg_last_upd [OF s1]) (use d Cons xz p_def in \<open>auto simp: nx2 pr2\<close>)
    ultimately show ?thesis using Cons by (simp add: seg_append)
  qed
  then have "list_at h2 l (ys @ zs)" using d by (auto simp: list_at_def)
  moreover have "detached h2 e" by (simp add: h2_def detached_def)
  moreover have "same_outside (set (l # ys @ e # zs)) h h2"
    using p(3) x(3) by (auto simp: same_outside_def h1_def h2_def)
  ultimately show ?thesis using call by blast
qed

lemma linked_list_take_ok:
  assumes t: "list_at h target xs" and s: "list_at h source ys"
    and disj: "set (target # xs) \<inter> set (source # ys) = {}"
  shows "\<exists>h'. linked_list_take target source h = Some h' \<and> list_at h' target (ys @ xs)
      \<and> list_at h' source [] \<and> same_outside (set (target # xs) \<union> set (source # ys)) h h'"
proof (cases ys)
  case Nil
  then show ?thesis
    using s t linked_list_empty_ok [OF s] by (auto simp: linked_list_take_def same_outside_def)
next
  case (Cons y ys')
  define z where "z = last ys"
  define x where "x = hd (xs @ [target])"
  have ds: "distinct (source # ys)" and ss: "seg h source ys source"
    and dt: "distinct (target # xs)" and st: "seg h target xs target"
    using s t by (auto simp: list_at_def)
  have y: "nxt h source = Some y" "prv h y = Some source" "seg h y ys' source"
    using ss Cons by auto
  have z: "prv h source = Some z" "nxt h z = Some source" "z \<in> set ys"
    using seg_snocE [OF ss] Cons by (auto simp: z_def)
  have x: "nxt h target = Some x" "prv h x = Some target" "x \<in> set (target # xs)"
    using st unfolding x_def by (cases xs; auto)+
  have ne: "y \<noteq> source" "z \<noteq> source" "y \<noteq> target" "z \<noteq> target" "target \<noteq> source" "x \<noteq> source"
      "x \<noteq> y" "x \<noteq> z"
    using ds disj Cons z(3) x(3) by auto
  from y x z obtain ns nt ny nz nx where n: "h source = Some ns" "next ns = Some y" "prev ns = Some z"
      "h target = Some nt" "next nt = Some x" "h y = Some ny" "h z = Some nz" "h x = Some nx"
    by (auto dest!: nxt_alloc prv_alloc)
  define h1 where "h1 = h(y \<mapsto> ny\<lparr>prev := Some target\<rparr>)"
  obtain mz where mz: "h1 z = Some mz" using n by (cases "z = y") (auto simp: h1_def)
  define h2 where "h2 = h1(z \<mapsto> mz\<lparr>next := Some x\<rparr>)"
  have h2x: "h2 x = Some nx" using n ne by (simp add: h2_def h1_def)
  define h3 where "h3 = h2(x \<mapsto> nx\<lparr>prev := Some z\<rparr>)"
  obtain mt where mt: "h3 target = Some mt" using n ne by (cases "target = x") (auto simp: h3_def h2_def h1_def)
  define h4 where "h4 = h3(target \<mapsto> mt\<lparr>next := Some y\<rparr>)"
  have h4s: "h4 source = Some ns" using n ne by (simp add: h4_def h3_def h2_def h1_def)
  define h5 where "h5 = h4(source \<mapsto> ns\<lparr>next := Some source, prev := Some source\<rparr>)"
  have call: "linked_list_take target source h = Some h5"
    using linked_list_empty_ok [OF s] Cons n ne mz h2x mt h4s
    by (auto simp: linked_list_take_def linked_list_init_def set_prev_def set_next_def
        h1_def [symmetric] h2_def [symmetric] h3_def [symmetric] h4_def [symmetric] h5_def)
      (auto simp: h1_def h2_def h3_def h4_def h5_def split: if_splits)
  have nx5: "nxt h5 u = (if u = source then Some source else if u = target then Some y
      else if u = z then Some x else nxt h u)" for u
    using n ne mz mt by (auto simp: h5_def h4_def h3_def h2_def h1_def nxt_def split: if_splits)
  have pr5: "prv h5 u = (if u = source then Some source else if u = y then Some target
      else if u = x then Some z else prv h u)" for u
    using n ne mz mt by (auto simp: h5_def h4_def h3_def h2_def h1_def prv_def split: if_splits)
  have tail: "seg h5 z xs target"
  proof (cases xs)
    case Nil
    then show ?thesis using ne by (simp add: nx5 pr5 x_def)
  next
    case (Cons w ws)
    then have "x = w" by (simp add: x_def)
    moreover have "seg h5 w ws target = seg h w ws target"
      using dt disj \<open>x = w\<close> Cons z(3) \<open>ys = y # ys'\<close> by (intro seg_cong) (auto simp: nx5 pr5)
    ultimately show ?thesis using st Cons ne by (simp add: nx5 pr5)
  qed
  have "seg h5 target (ys @ xs) target"
  proof (cases ys rule: rev_cases)
    case (snoc vs v)
    then have zv: "z = v" by (simp add: z_def)
    have "seg h5 target vs v"
    proof (cases vs)
      case Nil
      then show ?thesis using snoc zv Cons ne by (auto simp: nx5 pr5)
    next
      case (Cons w ws)
      with snoc \<open>ys = y # ys'\<close> have wy: "w = y" "ys' = ws @ [v]" by auto
      have "seg h y ws v" using y(3) wy by (simp add: seg_append)
      moreover have "seg h5 y ws v = seg h y ws v"
        using ds disj wy zv \<open>ys = y # ys'\<close> x(3) by (intro seg_cong) (auto simp: nx5 pr5)
      ultimately show ?thesis using Cons wy ne by (simp add: nx5 pr5)
    qed
    with tail zv snoc show ?thesis by (simp add: seg_append)
  qed (use Cons in simp)
  then have "list_at h5 target (ys @ xs)" using ds dt disj by (auto simp: list_at_def)
  moreover have "list_at h5 source []" by (simp add: list_at_def h5_def)
  moreover have "same_outside (set (target # xs) \<union> set (source # ys)) h h5"
    using x(3) z(3) Cons by (auto simp: same_outside_def h1_def h2_def h3_def h4_def h5_def)
  ultimately show ?thesis using call by blast
qed

section \<open>The contract of the lists\<close>

text \<open>
  What the users of the lists rely on: the head carries a list, insertion puts an element in
  front of it, the first element can be taken off again, and the test for emptiness is exact.
\<close>

locale intrusive_list =
  fixes rep :: "'h \<Rightarrow> 'a \<Rightarrow> 'a list \<Rightarrow> bool"
    and loose :: "'h \<Rightarrow> 'a \<Rightarrow> bool"
    and ins :: "'a \<Rightarrow> 'a \<Rightarrow> 'h \<Rightarrow> 'h option"
    and rem :: "'a \<Rightarrow> 'h \<Rightarrow> 'h option"
    and emp :: "'a \<Rightarrow> 'h \<Rightarrow> bool option"
    and first :: "'a \<Rightarrow> 'h \<Rightarrow> 'a option"
  assumes ins_law: "rep h l xs \<Longrightarrow> loose h e \<Longrightarrow> e \<notin> set (l # xs) \<Longrightarrow>
      \<exists>h'. ins l e h = Some h' \<and> rep h' l (e # xs)
        \<and> (\<forall>d. d \<notin> set (l # e # xs) \<longrightarrow> loose h d \<longrightarrow> loose h' d)"
    and rem_law: "rep h l (x # xs) \<Longrightarrow> \<exists>h'. rem x h = Some h' \<and> rep h' l xs"
    and emp_law: "rep h l xs \<Longrightarrow> emp l h = Some (xs = [])"
    and first_law: "rep h l (x # xs) \<Longrightarrow> first l h = Some x"
begin

lemma insert_all_rep:
  assumes "rep h l xs" and "\<forall>e \<in> set es. loose h e" and "distinct es" and "set es \<inter> set (l # xs) = {}"
  shows "\<exists>h'. insert_all ins l es h = Some h' \<and> rep h' l (rev es @ xs)"
  using assms
proof (induction es arbitrary: h xs)
  case Nil
  then show ?case by simp
next
  case (Cons e es)
  then obtain h1 where h1: "ins l e h = Some h1" "rep h1 l (e # xs)"
      "\<forall>d. d \<notin> set (l # e # xs) \<longrightarrow> loose h d \<longrightarrow> loose h1 d"
    using ins_law [of h l xs e] by auto
  have "\<exists>h'. insert_all ins l es h1 = Some h' \<and> rep h' l (rev es @ e # xs)"
    by (rule Cons.IH) (use Cons.prems h1 in auto)
  with h1 show ?case by auto
qed

lemma drain_rep:
  assumes "rep h l xs" and "length xs < n"
  shows "\<exists>h'. drain emp first rem n l h = Some (xs, h') \<and> rep h' l []"
  using assms
proof (induction n arbitrary: h xs)
  case (Suc n)
  show ?case
  proof (cases xs)
    case Nil
    then show ?thesis using Suc.prems emp_law by auto
  next
    case (Cons x ys)
    then obtain h1 where h1: "rem x h = Some h1" "rep h1 l ys"
      using Suc.prems rem_law by blast
    then obtain h' where "drain emp first rem n l h1 = Some (ys, h')" "rep h' l []"
      using Suc.IH [of h1 ys] Suc.prems Cons by auto
    with h1 Cons Suc.prems show ?thesis
      by (auto simp: emp_law [of h l xs] first_law [of h l x ys])
  qed
qed simp

text \<open>Elements come off in the reverse of the order in which they were put on.\<close>

lemma insert_all_drain:
  assumes "rep h l []" and "\<forall>e \<in> set es. loose h e" and "distinct es" and "l \<notin> set es"
    and "length es < n"
  shows "\<exists>h1 h2. insert_all ins l es h = Some h1 \<and> drain emp first rem n l h1 = Some (rev es, h2)
    \<and> rep h2 l []"
proof -
  obtain h1 where "insert_all ins l es h = Some h1" "rep h1 l (rev es)"
    using insert_all_rep [OF assms(1,2,3)] assms(4) by auto
  with drain_rep [of h1 l "rev es" n] assms(5) show ?thesis by auto
qed

end

interpretation ll: intrusive_list list_at detached linked_list_insert linked_list_remove
  linked_list_empty linked_list_first
proof unfold_locales
  fix h l xs e
  assume l: "list_at h l xs" and e: "detached h e" "e \<notin> set (l # xs)"
  then obtain h' where h': "linked_list_insert l e h = Some h'" "list_at h' l (e # xs)"
      "same_outside ({l, e} \<union> set xs) h h'"
    using linked_list_insert_ok by blast
  then have "\<forall>d. d \<notin> set (l # e # xs) \<longrightarrow> detached h d \<longrightarrow> detached h' d"
    by (auto simp: same_outside_def detached_def)
  with h' show "\<exists>h'. linked_list_insert l e h = Some h' \<and> list_at h' l (e # xs)
      \<and> (\<forall>d. d \<notin> set (l # e # xs) \<longrightarrow> detached h d \<longrightarrow> detached h' d)"
    by blast
next
  fix h l x xs
  assume "list_at h l (x # xs)"
  then show "\<exists>h'. linked_list_remove x h = Some h' \<and> list_at h' l xs"
    using linked_list_remove_ok [of h l "[]" x xs] by auto
qed (auto intro: linked_list_empty_ok list_at_first)

section \<open>Properties\<close>

text \<open>C39: inserting elements one after another into an empty list and then taking the first
  element off until the list is empty, as the shutdown code does, gives back every element once,
  the last one inserted first, leaves the list empty, and ends.\<close>

theorem insert_then_drain:
  assumes "list_at h l []" and "\<forall>e \<in> set es. detached h e" and "distinct es" and "l \<notin> set es" and "length es < n"
  shows "\<exists>h1 h2. insert_all linked_list_insert l es h = Some h1
    \<and> drain linked_list_empty linked_list_first linked_list_remove n l h1 = Some (rev es, h2) \<and> list_at h2 l []"
  using ll.insert_all_drain [OF assms] .

definition sample_lheap :: lheap where
  "sample_lheap = [0 \<mapsto> \<lparr>prev = Some 0, next = Some 0\<rparr>, 1 \<mapsto> \<lparr>prev = None, next = None\<rparr>, 2 \<mapsto> \<lparr>prev = None, next = None\<rparr>,
     3 \<mapsto> \<lparr>prev = Some 4, next = Some 4\<rparr>, 4 \<mapsto> \<lparr>prev = Some 3, next = Some 3\<rparr>]"

theorem insert_then_drain_witness:
  "\<exists>h1 h2. insert_all linked_list_insert 0 [1, 2] sample_lheap = Some h1
    \<and> drain linked_list_empty linked_list_first linked_list_remove 3 0 h1 = Some ([2, 1], h2) \<and> list_at h2 0 []"
  using insert_then_drain [of sample_lheap 0 "[1, 2]" 3]
  by (simp add: sample_lheap_def list_at_def nxt_def prv_def detached_def)

text \<open>\<open>linked_list_take\<close> puts all elements of the source list in front of those of the target
  in their order, leaves the source empty, and touches no other node.\<close>

lemma take_moves_all:
  assumes "list_at h target xs" and "list_at h source ys" and "set (target # xs) \<inter> set (source # ys) = {}"
  shows "\<exists>h'. linked_list_take target source h = Some h' \<and> list_at h' target (ys @ xs) \<and> list_at h' source []
      \<and> same_outside (set (target # xs) \<union> set (source # ys)) h h'"
  using linked_list_take_ok [OF assms] .

end
