(* ===== verification/Kernel.thy ===== *)
theory Kernel
  imports Prelude
begin

text \<open>
  The boundary between the program and the operating system. The kernel and the C library are
  not part of the sources, so every system call is answered by a function of the record \<open>env\<close>,
  a parameter of all definitions that make calls; the answer may depend on the whole history of
  calls. The same record holds what the build decides (platform, \<open>HIDIOCREVOKE\<close>, \<open>LIBSEAT\<close>, whether
  FreeBSD's \<open>xucred\<close> has a pid)
  and the process environment.

  The record \<open>os\<close> is the part of the program state that system calls touch: \<open>errno\<close> and the
  history of calls, newest first. The states of the components extend it, and every system call
  leaves the extension alone (\<open>os_frame\<close>).
\<close>

section \<open>Calls and their history\<close>

datatype platform = Linux | FreeBSD | NetBSD

datatype oflag = O_RDWR | O_NOCTTY | O_NOFOLLOW | O_CLOEXEC | O_NONBLOCK

datatype kbmode = K_UNICODE | K_OFF | K_XLATE | K_RAW

datatype kdmode = KD_GRAPHICS | KD_TEXT

record vt_mode =
  process_mode :: bool \<comment> \<open>\<open>VT_PROCESS\<close> rather than \<open>VT_AUTO\<close>\<close>
  waitv :: int
  relsig :: int
  acqsig :: int
  frsig :: int

datatype ioctl_req = VT_GETSTATE | VT_GETACTIVE | VT_SETMODE vt_mode | VT_ACTIVATE int
  | VT_RELDISP int | KDSKBMODE kbmode | KDSETMODE kdmode
  | DRM_IOCTL_SET_MASTER | DRM_IOCTL_DROP_MASTER | EVIOCREVOKE | HIDIOCREVOKE
  | TCGETATTR | TCSETATTR bool \<comment> \<open>sane rather than raw\<close>

datatype fcntl_op = F_GETFD | F_SETFD int | F_GETFL | F_SETFL int | F_DUPFD_CLOEXEC int

text \<open>
  A control message as \<open>recvmsg\<close> delivers it: whether it is \<open>SOL_SOCKET\<close>/\<open>SCM_RIGHTS\<close>, and its
  payload.
\<close>

record cmsg =
  cmsg_rights :: bool
  cmsg_data :: bytes

text \<open>
  Peer credentials: \<open>struct ucred\<close>, \<open>struct unpcbid\<close> or \<open>struct xucred\<close>; only the last has a
  number of groups, with \<open>cred_gid\<close> the first of them.
\<close>

record peer_cred =
  cred_pid :: int
  cred_uid :: int
  cred_gid :: int
  cred_ngroups :: int

text \<open>The room for a path in the address of a local socket.\<close>

definition sun_path_len :: "platform \<Rightarrow> nat" where
  "sun_path_len p = (if p = Linux then 108 else 104)"

definition POLLIN :: int where "POLLIN = 0x1"

definition POLLOUT :: int where "POLLOUT = 0x4"

definition POLLERR :: int where "POLLERR = 0x8"

definition POLLHUP :: int where "POLLHUP = 0x10"

text \<open>
  Calls whose result is a number or a failure: sockets and the files they leave behind, \<open>poll\<close> for input on
  one descriptor with a timeout, which gives the \<open>revents\<close>, the databases of users and groups, and processes.
  \<open>lstat\<close> gives 1 for a socket and 0 for another file; \<open>stat\<close> and \<open>fstat\<close> give \<open>st_rdev\<close>. An \<open>exec\<close> call that does not fail does not return.
\<close>

datatype call = C_socket | C_connect int string | C_bind int string | C_listen int int
  | C_chmod string int | C_chown string int int | C_unlink string | C_lstat string
  | C_stat string | C_fstat int
  | C_poll int int | C_getpwnam string | C_getgrnam string
  | C_fork | C_kill int int | C_setuid int | C_setgid int | C_isatty int
  | C_setenv string string | C_execve string "string list" "string list" | C_execvp string "string list"

text \<open>The status that \<open>waitpid\<close> reports.\<close>

datatype wait_status = Exited int | Signaled int | Other_status

datatype event =
    E_open string "oflag list" "errno + int"
  | E_close int "errno + unit"
  | E_ioctl int ioctl_req "errno + int"
  | E_realpath string "errno + string"
  | E_dup int "errno + int"
  | E_alloc bool
  | E_fcntl int fcntl_op "errno + int"
  | E_getpeer int "errno + peer_cred"
  | E_accept int "errno + int"
  | E_shutdown int "errno + unit"
  | E_sendmsg int bytes bytes "errno + nat"
  | E_recvmsg int nat "errno + bytes \<times> cmsg list"
  | E_pipe "errno + int \<times> int"
  | E_read int nat "errno + bytes"
  | E_write int bytes "errno + nat"
  | E_poll "(int \<times> int) list" "errno + int list"
  | E_call call "errno + int"
  | E_socketpair "errno + int \<times> int"
  | E_wait int bool "errno + int \<times> wait_status"
  | E_clock "int \<times> int"
  | E_sigaction int bool \<comment> \<open>handler installed rather than \<open>SIG_DFL\<close>\<close>

type_synonym trace = "event list"

record env =
  platform :: platform
  have_hidiocrevoke :: bool
  libseat_build :: bool
  have_cr_pid :: bool
  self_ids :: "int \<times> int \<times> int" \<comment> \<open>\<open>getpid\<close>, \<open>getuid\<close>, \<open>getgid\<close>\<close>
  env_var :: "string \<Rightarrow> string option"
  k_open :: "trace \<Rightarrow> string \<Rightarrow> oflag list \<Rightarrow> errno + int"
  k_close :: "trace \<Rightarrow> int \<Rightarrow> errno + unit"
  k_ioctl :: "trace \<Rightarrow> int \<Rightarrow> ioctl_req \<Rightarrow> errno + int"
  k_realpath :: "trace \<Rightarrow> string \<Rightarrow> errno + string"
  k_dup :: "trace \<Rightarrow> int \<Rightarrow> errno + int"
  k_alloc :: "trace \<Rightarrow> bool"
  k_fcntl :: "trace \<Rightarrow> int \<Rightarrow> fcntl_op \<Rightarrow> errno + int"
  k_getpeer :: "trace \<Rightarrow> int \<Rightarrow> errno + peer_cred"
  k_accept :: "trace \<Rightarrow> int \<Rightarrow> errno + int"
  k_shutdown :: "trace \<Rightarrow> int \<Rightarrow> errno + unit"
  k_sendmsg :: "trace \<Rightarrow> int \<Rightarrow> bytes \<Rightarrow> bytes \<Rightarrow> errno + nat"
  k_recvmsg :: "trace \<Rightarrow> int \<Rightarrow> nat \<Rightarrow> errno + bytes \<times> cmsg list"
  k_pipe :: "trace \<Rightarrow> errno + int \<times> int"
  k_read :: "trace \<Rightarrow> int \<Rightarrow> nat \<Rightarrow> errno + bytes"
  k_write :: "trace \<Rightarrow> int \<Rightarrow> bytes \<Rightarrow> errno + nat"
  k_poll :: "trace \<Rightarrow> (int \<times> int) list \<Rightarrow> errno + int list"
  k_call :: "trace \<Rightarrow> call \<Rightarrow> errno + int"
  k_socketpair :: "trace \<Rightarrow> errno + int \<times> int"
  k_wait :: "trace \<Rightarrow> int \<Rightarrow> bool \<Rightarrow> errno + int \<times> wait_status"
  k_clock :: "trace \<Rightarrow> int \<times> int"

record os =
  errno :: errno
  trace :: trace

section \<open>The calls\<close>

definition note_result :: "errno + 'b \<Rightarrow> event \<Rightarrow> 'a os_scheme \<Rightarrow> 'a os_scheme" where
  "note_result r ev s = (case r of
     Inl e \<Rightarrow> s\<lparr>errno := e, trace := ev # trace s\<rparr>
   | Inr _ \<Rightarrow> s\<lparr>trace := ev # trace s\<rparr>)"

text \<open>The C value of a call that returns \<open>-1\<close> on failure.\<close>

definition c_int :: "errno + int \<Rightarrow> int" where
  "c_int r = (case r of Inl _ \<Rightarrow> - 1 | Inr v \<Rightarrow> v)"

definition sys_open :: "env \<Rightarrow> string \<Rightarrow> oflag list \<Rightarrow> 'a os_scheme \<Rightarrow> int \<times> 'a os_scheme" where
  "sys_open E path flags s =
     (let r = k_open E (trace s) path flags in (c_int r, note_result r (E_open path flags r) s))"

definition sys_close :: "env \<Rightarrow> int \<Rightarrow> 'a os_scheme \<Rightarrow> 'a os_scheme" where
  "sys_close E fd s = (let r = k_close E (trace s) fd in note_result r (E_close fd r) s)"

definition sys_ioctl :: "env \<Rightarrow> int \<Rightarrow> ioctl_req \<Rightarrow> 'a os_scheme \<Rightarrow> (errno + int) \<times> 'a os_scheme" where
  "sys_ioctl E fd req s =
     (let r = k_ioctl E (trace s) fd req in (r, note_result r (E_ioctl fd req r) s))"

definition sys_realpath :: "env \<Rightarrow> string \<Rightarrow> 'a os_scheme \<Rightarrow> (errno + string) \<times> 'a os_scheme" where
  "sys_realpath E p s =
     (let r = k_realpath E (trace s) p in (r, note_result r (E_realpath p r) s))"

definition sys_dup :: "env \<Rightarrow> int \<Rightarrow> 'a os_scheme \<Rightarrow> int \<times> 'a os_scheme" where
  "sys_dup E fd s = (let r = k_dup E (trace s) fd in (c_int r, note_result r (E_dup fd r) s))"

text \<open>\<open>calloc\<close> and \<open>strdup\<close>: whether memory was available; \<open>errno\<close> is \<open>ENOMEM\<close> otherwise.\<close>

definition sys_alloc :: "env \<Rightarrow> 'a os_scheme \<Rightarrow> bool \<times> 'a os_scheme" where
  "sys_alloc E s =
     (if k_alloc E (trace s) then (True, s\<lparr>trace := E_alloc True # trace s\<rparr>)
      else (False, s\<lparr>errno := ENOMEM, trace := E_alloc False # trace s\<rparr>))"

definition sys_fcntl :: "env \<Rightarrow> int \<Rightarrow> fcntl_op \<Rightarrow> 'a os_scheme \<Rightarrow> int \<times> 'a os_scheme" where
  "sys_fcntl E fd c s =
     (let r = k_fcntl E (trace s) fd c in (c_int r, note_result r (E_fcntl fd c r) s))"

definition sys_getpeer :: "env \<Rightarrow> int \<Rightarrow> 'a os_scheme \<Rightarrow> (errno + peer_cred) \<times> 'a os_scheme" where
  "sys_getpeer E fd s = (let r = k_getpeer E (trace s) fd in (r, note_result r (E_getpeer fd r) s))"

definition sys_accept :: "env \<Rightarrow> int \<Rightarrow> 'a os_scheme \<Rightarrow> int \<times> 'a os_scheme" where
  "sys_accept E fd s = (let r = k_accept E (trace s) fd in (c_int r, note_result r (E_accept fd r) s))"

definition sys_shutdown :: "env \<Rightarrow> int \<Rightarrow> 'a os_scheme \<Rightarrow> 'a os_scheme" where
  "sys_shutdown E fd s = (let r = k_shutdown E (trace s) fd in note_result r (E_shutdown fd r) s)"

text \<open>\<open>sendmsg\<close> with the bytes of the I/O vector in order and the \<open>SCM_RIGHTS\<close> payload.\<close>

definition sys_sendmsg :: "env \<Rightarrow> int \<Rightarrow> bytes \<Rightarrow> bytes \<Rightarrow> 'a os_scheme \<Rightarrow> (errno + nat) \<times> 'a os_scheme" where
  "sys_sendmsg E fd bs fds s =
     (let r = k_sendmsg E (trace s) fd bs fds in (r, note_result r (E_sendmsg fd bs fds r) s))"

text \<open>\<open>recvmsg\<close> into an I/O vector with \<open>n\<close> bytes of room.\<close>

definition sys_recvmsg ::
    "env \<Rightarrow> int \<Rightarrow> nat \<Rightarrow> 'a os_scheme \<Rightarrow> (errno + bytes \<times> cmsg list) \<times> 'a os_scheme" where
  "sys_recvmsg E fd n s =
     (let r = k_recvmsg E (trace s) fd n in (r, note_result r (E_recvmsg fd n r) s))"

definition sys_pipe :: "env \<Rightarrow> 'a os_scheme \<Rightarrow> (errno + int \<times> int) \<times> 'a os_scheme" where
  "sys_pipe E s = (let r = k_pipe E (trace s) in (r, note_result r (E_pipe r) s))"

definition sys_read :: "env \<Rightarrow> int \<Rightarrow> nat \<Rightarrow> 'a os_scheme \<Rightarrow> (errno + bytes) \<times> 'a os_scheme" where
  "sys_read E fd n s = (let r = k_read E (trace s) fd n in (r, note_result r (E_read fd n r) s))"

definition sys_write :: "env \<Rightarrow> int \<Rightarrow> bytes \<Rightarrow> 'a os_scheme \<Rightarrow> (errno + nat) \<times> 'a os_scheme" where
  "sys_write E fd bs s = (let r = k_write E (trace s) fd bs in (r, note_result r (E_write fd bs r) s))"

text \<open>\<open>poll\<close> without a timeout, on descriptors and requested events; the \<open>revents\<close> of each.\<close>

definition sys_poll :: "env \<Rightarrow> (int \<times> int) list \<Rightarrow> 'a os_scheme \<Rightarrow> (errno + int list) \<times> 'a os_scheme" where
  "sys_poll E fds s = (let r = k_poll E (trace s) fds in (r, note_result r (E_poll fds r) s))"

definition sys_call :: "env \<Rightarrow> call \<Rightarrow> 'a os_scheme \<Rightarrow> (errno + int) \<times> 'a os_scheme" where
  "sys_call E c s = (let r = k_call E (trace s) c in (r, note_result r (E_call c r) s))"

definition sys_socketpair :: "env \<Rightarrow> 'a os_scheme \<Rightarrow> (errno + int \<times> int) \<times> 'a os_scheme" where
  "sys_socketpair E s = (let r = k_socketpair E (trace s) in (r, note_result r (E_socketpair r) s))"

text \<open>\<open>waitpid\<close> on a process, with or without \<open>WNOHANG\<close>: the process identifier, 0 if it is still running, and the status.\<close>

definition sys_wait :: "env \<Rightarrow> int \<Rightarrow> bool \<Rightarrow> 'a os_scheme \<Rightarrow> (errno + int \<times> wait_status) \<times> 'a os_scheme" where
  "sys_wait E pid nohang s = (let r = k_wait E (trace s) pid nohang in (r, note_result r (E_wait pid nohang r) s))"

text \<open>\<open>clock_gettime\<close> of the monotonic clock: seconds and nanoseconds.\<close>

definition sys_clock :: "env \<Rightarrow> 'a os_scheme \<Rightarrow> (int \<times> int) \<times> 'a os_scheme" where
  "sys_clock E s = (let r = k_clock E (trace s) in (r, s\<lparr>trace := E_clock r # trace s\<rparr>))"

definition sys_sigaction :: "int \<Rightarrow> bool \<Rightarrow> 'a os_scheme \<Rightarrow> 'a os_scheme" where
  "sys_sigaction sig install s = s\<lparr>trace := E_sigaction sig install # trace s\<rparr>"

text \<open>A loop \<open>for (i = 0; i < n; i++) close(fds[i])\<close>.\<close>

primrec close_all :: "env \<Rightarrow> int list \<Rightarrow> 'a os_scheme \<Rightarrow> 'a os_scheme" where
  "close_all E [] s = s"
| "close_all E (fd # fds) s = close_all E fds (sys_close E fd s)"

section \<open>Documented behaviour of the kernel\<close>

text \<open>
  What the program relies on, as predicates on \<open>env\<close> that theorems name where they need them:
  \<open>recvmsg\<close> delivers at most the bytes there is room for; a successful \<open>sendmsg\<close> of a nonempty
  message sends at least one and at most all of its bytes; a call is not interrupted forever;
  descriptors are not negative.
\<close>

definition recv_bounded :: "env \<Rightarrow> bool" where
  "recv_bounded E \<longleftrightarrow> (\<forall>tr fd n bs cs. k_recvmsg E tr fd n = Inr (bs, cs) \<longrightarrow> length bs \<le> n)"

definition send_progress :: "env \<Rightarrow> bool" where
  "send_progress E \<longleftrightarrow> (\<forall>tr fd bs fds n. k_sendmsg E tr fd bs fds = Inr n \<longrightarrow> bs \<noteq> [] \<longrightarrow>
     0 < n \<and> n \<le> length bs)"

definition send_not_interrupted_forever :: "env \<Rightarrow> bool" where
  "send_not_interrupted_forever E \<longleftrightarrow> (\<forall>tr fd bs fds.
     \<exists>n. k_sendmsg E (replicate n (E_sendmsg fd bs fds (Inl EINTR)) @ tr) fd bs fds \<noteq> Inl EINTR)"

definition recv_not_interrupted_forever :: "env \<Rightarrow> bool" where
  "recv_not_interrupted_forever E \<longleftrightarrow> (\<forall>tr fd m.
     \<exists>n. k_recvmsg E (replicate n (E_recvmsg fd m (Inl EINTR)) @ tr) fd m \<noteq> Inl EINTR)"

definition fds_nonneg :: "env \<Rightarrow> bool" where
  "fds_nonneg E \<longleftrightarrow>
     (\<forall>tr p fl fd. k_open E tr p fl = Inr fd \<longrightarrow> 0 \<le> fd) \<and>
     (\<forall>tr f fd. k_dup E tr f = Inr fd \<longrightarrow> 0 \<le> fd)"

text \<open>All of it together, and that the number of a terminal is not negative.\<close>

definition kernel_ok :: "env \<Rightarrow> bool" where
  "kernel_ok E \<longleftrightarrow> send_progress E \<and> send_not_interrupted_forever E \<and> recv_bounded E \<and> recv_not_interrupted_forever E
     \<and> (\<forall>tr fd r v. k_ioctl E tr fd r = Inr v \<longrightarrow> 0 \<le> v)"

lemma kernel_okD: "kernel_ok E \<Longrightarrow> send_progress E" "kernel_ok E \<Longrightarrow> send_not_interrupted_forever E"
  "kernel_ok E \<Longrightarrow> recv_bounded E" "kernel_ok E \<Longrightarrow> recv_not_interrupted_forever E"
  by (simp_all add: kernel_ok_def)

section \<open>Frame\<close>

text \<open>What a call may change of a larger state: \<open>errno\<close> and the history, nothing else.\<close>

definition os_frame :: "'a os_scheme \<Rightarrow> 'a os_scheme \<Rightarrow> bool" where
  "os_frame s s' \<longleftrightarrow> os.more s' = os.more s \<and> (\<exists>tr. trace s' = tr @ trace s)"

named_theorems frame \<open>calls that leave the extension of the state alone\<close>

lemma os_frame_refl [simp, frame]: "os_frame s s"
  by (simp add: os_frame_def)

lemma os_frame_trans [trans]: "os_frame s t \<Longrightarrow> os_frame t u \<Longrightarrow> os_frame s u"
  by (auto simp: os_frame_def)

lemma os_frame_errno [frame]: "os_frame s (s\<lparr>errno := e\<rparr>)"
  by (simp add: os_frame_def)

lemma os_frame_errno_iff [simp]: "os_frame s (t\<lparr>errno := e\<rparr>) = os_frame s t"
  by (simp add: os_frame_def)

lemma os_frame_note_result [frame]: "os_frame s (note_result r ev s)"
  by (cases r) (simp_all add: note_result_def os_frame_def)

lemma sys_frames [frame]:
  "os_frame s (snd (sys_open E p fl s))"
  "os_frame s (sys_close E fd s)"
  "os_frame s (snd (sys_ioctl E fd rq s))"
  "os_frame s (snd (sys_realpath E p s))"
  "os_frame s (snd (sys_dup E fd s))"
  "os_frame s (snd (sys_fcntl E fd c s))"
  "os_frame s (snd (sys_getpeer E fd s))"
  "os_frame s (snd (sys_accept E fd s))"
  "os_frame s (sys_shutdown E fd s)"
  "os_frame s (snd (sys_sendmsg E fd bs fds s))"
  "os_frame s (snd (sys_recvmsg E fd n s))"
  "os_frame s (snd (sys_pipe E s))"
  "os_frame s (snd (sys_read E fd n s))"
  "os_frame s (snd (sys_write E fd bs s))"
  "os_frame s (snd (sys_poll E ps s))"
  by (simp_all add: sys_open_def sys_close_def sys_ioctl_def sys_realpath_def sys_dup_def
      sys_fcntl_def sys_getpeer_def sys_accept_def sys_shutdown_def sys_sendmsg_def sys_recvmsg_def
      sys_pipe_def sys_read_def sys_write_def sys_poll_def Let_def os_frame_note_result)

lemma sys_call_frames [frame]:
  "os_frame s (snd (sys_call E c s))" "os_frame s (snd (sys_socketpair E s))" "os_frame s (snd (sys_wait E pid b s))"
  by (simp_all add: sys_call_def sys_socketpair_def sys_wait_def Let_def os_frame_note_result)

lemma sys_clock_frame [frame]: "os_frame s (snd (sys_clock E s))"
  by (simp add: sys_clock_def Let_def os_frame_def)

lemma sys_alloc_frame [frame]: "os_frame s (snd (sys_alloc E s))"
  by (simp add: sys_alloc_def os_frame_def)

lemma sys_sigaction_frame [frame]: "os_frame s (sys_sigaction sig i s)"
  by (simp add: sys_sigaction_def os_frame_def)

lemma os_frame_of_pair: "f s = (r, s') \<Longrightarrow> os_frame s (snd (f s)) \<Longrightarrow> os_frame s s'"
  by simp

lemma close_all_frame [frame]: "os_frame s (close_all E fds s)"
  by (induction fds arbitrary: s) (auto intro: os_frame_trans sys_frames(2))

text \<open>The descriptors closed by a piece of history, newest first.\<close>

fun closed_fds :: "trace \<Rightarrow> int list" where
  "closed_fds (E_close fd r # tr) = fd # closed_fds tr"
| "closed_fds (ev # tr) = closed_fds tr"
| "closed_fds [] = []"

lemma closed_fds_append: "closed_fds (tr @ tr') = closed_fds tr @ closed_fds tr'"
  by (induction tr rule: closed_fds.induct) auto

lemma trace_note_result [simp]: "trace (note_result r ev s) = ev # trace s"
  by (cases r) (simp_all add: note_result_def)

lemma closed_fds_close_all: "closed_fds (trace (close_all E fds s)) = rev fds @ closed_fds (trace s)"
  by (induction fds arbitrary: s) (auto simp: sys_close_def Let_def)

section \<open>A kernel\<close>

text \<open>
  A kernel in which every call succeeds: \<open>sendmsg\<close> takes every byte, \<open>recvmsg\<close> and \<open>poll\<close> have
  nothing to report. It meets all of the assumptions above.
\<close>

definition sample_env :: env where
  "sample_env = \<lparr>platform = Linux, have_hidiocrevoke = True, libseat_build = False, have_cr_pid = True,
     self_ids = (1, 0, 0), env_var = (\<lambda>_. None), k_open = (\<lambda>_ _ _. Inr 9), k_close = (\<lambda>_ _. Inr ()),
     k_ioctl = (\<lambda>_ _ _. Inr 1), k_realpath = (\<lambda>_ p. Inr p), k_dup = (\<lambda>_ _. Inr 10), k_alloc = (\<lambda>_. True),
     k_fcntl = (\<lambda>_ _ _. Inr 0), k_getpeer = (\<lambda>_ _. Inr \<lparr>cred_pid = 100, cred_uid = 1000, cred_gid = 1000, cred_ngroups = 1\<rparr>),
     k_accept = (\<lambda>_ _. Inr 7), k_shutdown = (\<lambda>_ _. Inr ()), k_sendmsg = (\<lambda>_ _ bs _. Inr (length bs)),
     k_recvmsg = (\<lambda>_ _ _. Inr ([], [])), k_pipe = (\<lambda>_. Inr (3, 4)), k_read = (\<lambda>_ _ _. Inl EAGAIN),
     k_write = (\<lambda>_ _ bs. Inr (length bs)), k_poll = (\<lambda>_ fds. Inr (map (\<lambda>_. 0) fds)),
     k_call = (\<lambda>_ c. case c of C_lstat _ \<Rightarrow> Inl ENOENT | C_poll _ _ \<Rightarrow> Inr 0 | C_socket \<Rightarrow> Inr 8 | C_fork \<Rightarrow> Inr 50 | _ \<Rightarrow> Inr 0),
     k_socketpair = (\<lambda>_. Inr (8, 9)), k_wait = (\<lambda>_ pid _. Inr (pid, Exited 0)), k_clock = (\<lambda>_. (100, 0))\<rparr>"

lemma sample_env_kernel [simp]:
  "send_progress (sample_env\<lparr>env_var := v\<rparr>)" "recv_bounded (sample_env\<lparr>env_var := v\<rparr>)"
  "send_not_interrupted_forever (sample_env\<lparr>env_var := v\<rparr>)" "recv_not_interrupted_forever (sample_env\<lparr>env_var := v\<rparr>)"
  "fds_nonneg (sample_env\<lparr>env_var := v\<rparr>)"
  by (simp_all add: sample_env_def send_progress_def recv_bounded_def send_not_interrupted_forever_def
      recv_not_interrupted_forever_def fds_nonneg_def)

lemma sample_env_meets [simp]:
  "send_progress sample_env" "recv_bounded sample_env" "send_not_interrupted_forever sample_env"
  "recv_not_interrupted_forever sample_env" "fds_nonneg sample_env"
  using sample_env_kernel [of "env_var sample_env"] by simp_all

text \<open>The kernel calls as equations, for evaluating a run.\<close>

lemmas call_defs = sys_open_def sys_close_def sys_ioctl_def sys_realpath_def sys_dup_def sys_alloc_def sys_fcntl_def
  sys_getpeer_def sys_accept_def sys_pipe_def sys_sigaction_def sys_call_def sys_socketpair_def
  sys_wait_def sys_clock_def note_result_def c_int_def Let_def

end
