(* ===== verification/Terminal.thy ===== *)
theory Terminal
  imports Kernel
begin

text \<open>
  The virtual terminals of \<open>common/terminal.c\<close>: the path of a terminal's device on each
  platform, and the ioctls that switch, acknowledge and configure a VT. The paths are built in an
  array of 16 bytes; the FreeBSD branch, which encodes the number itself and reverses the digits in
  place, is shown to write the base 32 numeral and to stay inside the array. A negative number
  trips the assertion of \<open>get_tty_path\<close>.
\<close>

section \<open>Model\<close>

definition TTYPATHLEN :: nat where
  "TTYPATHLEN = 16"

definition SIGUSR1 :: int where "SIGUSR1 = 10"
definition SIGUSR2 :: int where "SIGUSR2 = 12"
definition SIGINT :: int where "SIGINT = 2"
definition SIGTERM :: int where "SIGTERM = 15"
definition SIGIO :: int where "SIGIO = 23"

text \<open>The platform macros \<open>K_ENABLE\<close>, \<open>K_DISABLE\<close> and \<open>FRSIG\<close>.\<close>

definition K_ENABLE :: "platform \<Rightarrow> kbmode" where
  "K_ENABLE p = (case p of Linux \<Rightarrow> K_UNICODE | FreeBSD \<Rightarrow> K_XLATE | NetBSD \<Rightarrow> K_XLATE)"

definition K_DISABLE :: "platform \<Rightarrow> kbmode" where
  "K_DISABLE p = (case p of Linux \<Rightarrow> K_OFF | FreeBSD \<Rightarrow> K_RAW | NetBSD \<Rightarrow> K_RAW)"

definition FRSIG :: "platform \<Rightarrow> int" where
  "FRSIG p = (case p of Linux \<Rightarrow> 0 | FreeBSD \<Rightarrow> SIGIO | NetBSD \<Rightarrow> 0)"

text \<open>The conversion \<open>%d\<close> of a number that is not negative.\<close>

definition digit_char :: "nat \<Rightarrow> char" where
  "digit_char n = char_of (48 + n)"

fun dec_string :: "nat \<Rightarrow> string" where
  "dec_string n = (if n < 10 then [digit_char n] else dec_string (n div 10) @ [digit_char (n mod 10)])"

definition base32_char :: "nat \<Rightarrow> char" where
  "base32_char value = (if value \<ge> 10 then char_of (97 + value - 10) else char_of (48 + value))"

text \<open>The loop that appends the digits of \<open>remaining\<close>, least significant first.\<close>

fun tty_digits :: "nat \<Rightarrow> string \<Rightarrow> errno + string" where
  "tty_digits remaining path =
     (if remaining = 0 then Inr path
      else if length path + 1 \<ge> TTYPATHLEN then Inl ENOMEM
      else tty_digits (remaining div 32) (path @ [base32_char (remaining mod 32)]))"

text \<open>The loop that swaps the \<open>i\<close>-th digit with the \<open>i\<close>-th last one, for \<open>i\<close> below half their number.\<close>

fun reverse_digits :: "nat \<Rightarrow> nat \<Rightarrow> nat \<Rightarrow> string \<Rightarrow> string" where
  "reverse_digits prefix_len 0 i path = path"
| "reverse_digits prefix_len (Suc k) i path =
     (let p1 = prefix_len + i; p2 = length path - 1 - i; tmp = path ! p1 in
      reverse_digits prefix_len k (Suc i) ((path[p1 := path ! p2])[p2 := tmp]))"

definition freebsd_tty_path :: "nat \<Rightarrow> (errno + string) option" where
  "freebsd_tty_path vt =
     (let prefix = ''/dev/ttyv'';
          tty = (if vt > 0 then vt - 1 else vt) in
      if tty = 0 then Some (Inr (prefix @ ''0''))
      else case tty_digits tty prefix of
        Inl e \<Rightarrow> Some (Inl e)
      | Inr path \<Rightarrow> do {
          let num_len = length path - length prefix;
          let path = reverse_digits (length prefix) (num_len div 2) 0 path;
          oassert (length path < TTYPATHLEN);
          Some (Inr path) })"

definition get_tty_path :: "env \<Rightarrow> int \<Rightarrow> 'a os_scheme \<Rightarrow> (string option \<times> 'a os_scheme) option" where
  "get_tty_path E tty s = do {
     oassert (tty \<ge> 0);
     (case platform E of
        FreeBSD \<Rightarrow> do {
          r \<leftarrow> freebsd_tty_path (nat tty);
          (case r of Inl e \<Rightarrow> Some (None, s\<lparr>errno := e\<rparr>) | Inr path \<Rightarrow> Some (Some path, s)) }
      | Linux \<Rightarrow> Some (Some (take (TTYPATHLEN - 1) (''/dev/tty'' @ dec_string (nat tty))), s)
      | NetBSD \<Rightarrow> Some (Some (take (TTYPATHLEN - 1) (''/dev/ttyE'' @ dec_string (nat tty))), s)) }"

definition terminal_open :: "env \<Rightarrow> int \<Rightarrow> 'a os_scheme \<Rightarrow> (int \<times> 'a os_scheme) option" where
  "terminal_open E vt s = do {
     (path, s) \<leftarrow> get_tty_path E vt s;
     (case path of None \<Rightarrow> Some (- 1, s)
      | Some path \<Rightarrow>
          let (fd, s) = sys_open E path [O_RDWR, O_NOCTTY] s in
          if fd = - 1 then Some (- 1, s) else Some (fd, s)) }"

definition terminal_current_vt :: "env \<Rightarrow> int \<Rightarrow> 'a os_scheme \<Rightarrow> int \<times> 'a os_scheme" where
  "terminal_current_vt E fd s =
     (if platform E = FreeBSD then
        (let (r, s) = sys_ioctl E fd VT_GETACTIVE s in
         case r of Inl _ \<Rightarrow> (- 1, s) | Inr vt \<Rightarrow> if vt = - 1 then (- 1, s) else (vt, s))
      else
        (let (r, s) = sys_ioctl E fd VT_GETSTATE s in
         case r of Inl _ \<Rightarrow> (- 1, s) | Inr vt \<Rightarrow> (vt, s)))"

text \<open>An ioctl whose only result is whether it worked.\<close>

definition ioctl_status :: "env \<Rightarrow> int \<Rightarrow> ioctl_req \<Rightarrow> 'a os_scheme \<Rightarrow> int \<times> 'a os_scheme" where
  "ioctl_status E fd req s =
     (let (r, s) = sys_ioctl E fd req s in case r of Inl _ \<Rightarrow> (- 1, s) | Inr _ \<Rightarrow> (0, s))"

definition terminal_set_process_switching :: "env \<Rightarrow> int \<Rightarrow> bool \<Rightarrow> 'a os_scheme \<Rightarrow> int \<times> 'a os_scheme" where
  "terminal_set_process_switching E fd enable s =
     ioctl_status E fd (VT_SETMODE \<lparr>process_mode = enable, waitv = 0,
       relsig = (if enable then SIGUSR1 else 0), acqsig = (if enable then SIGUSR2 else 0),
       frsig = FRSIG (platform E)\<rparr>) s"

definition terminal_switch_vt :: "env \<Rightarrow> int \<Rightarrow> int \<Rightarrow> 'a os_scheme \<Rightarrow> int \<times> 'a os_scheme" where
  "terminal_switch_vt E fd vt s = ioctl_status E fd (VT_ACTIVATE vt) s"

definition terminal_ack_release :: "env \<Rightarrow> int \<Rightarrow> 'a os_scheme \<Rightarrow> int \<times> 'a os_scheme" where
  "terminal_ack_release E fd s = ioctl_status E fd (VT_RELDISP 1) s"

definition VT_ACKACQ :: int where "VT_ACKACQ = 2"

definition terminal_ack_acquire :: "env \<Rightarrow> int \<Rightarrow> 'a os_scheme \<Rightarrow> int \<times> 'a os_scheme" where
  "terminal_ack_acquire E fd s = ioctl_status E fd (VT_RELDISP VT_ACKACQ) s"

definition terminal_set_keyboard :: "env \<Rightarrow> int \<Rightarrow> bool \<Rightarrow> 'a os_scheme \<Rightarrow> int \<times> 'a os_scheme" where
  "terminal_set_keyboard E fd enable s =
     (let (r, s) = ioctl_status E fd
        (KDSKBMODE (if enable then K_ENABLE (platform E) else K_DISABLE (platform E))) s in
      if r = - 1 then (- 1, s)
      else if platform E = FreeBSD then
        (let (r, s) = ioctl_status E fd TCGETATTR s in
         if r = - 1 then (- 1, s) else ioctl_status E fd (TCSETATTR enable) s)
      else (0, s))"

definition terminal_set_graphics :: "env \<Rightarrow> int \<Rightarrow> bool \<Rightarrow> 'a os_scheme \<Rightarrow> int \<times> 'a os_scheme" where
  "terminal_set_graphics E fd enable s =
     ioctl_status E fd (KDSETMODE (if enable then KD_GRAPHICS else KD_TEXT)) s"

section \<open>Paths\<close>

declare dec_string.simps [simp del]
declare tty_digits.simps [simp del]

text \<open>The base 32 numeral, most significant digit first, as the FreeBSD kernel prints it.\<close>

fun base32_string :: "nat \<Rightarrow> string" where
  "base32_string n = (if n < 32 then [base32_char n] else base32_string (n div 32) @ [base32_char (n mod 32)])"

declare base32_string.simps [simp del]

lemma tty_digits_ok:
  "0 < n \<Longrightarrow> length path + length (base32_string n) < TTYPATHLEN \<Longrightarrow>
   tty_digits n path = Inr (path @ rev (base32_string n))"
proof (induction n path rule: tty_digits.induct)
  case (1 n path)
  show ?case
  proof (cases "n < 32")
    case True
    then show ?thesis
      using 1 by (simp add: tty_digits.simps [of n] tty_digits.simps [of 0] base32_string.simps [of n])
  next
    case False
    then have "tty_digits (n div 32) (path @ [base32_char (n mod 32)])
        = Inr ((path @ [base32_char (n mod 32)]) @ rev (base32_string (n div 32)))"
      using 1 by (intro "1.IH") (auto simp: base32_string.simps [of n] Let_def)
    with False 1 show ?thesis
      by (simp add: tty_digits.simps [of n] base32_string.simps [of n])
  qed
qed

lemma tty_digits_too_long:
  "0 < n \<Longrightarrow> length path < TTYPATHLEN \<Longrightarrow> TTYPATHLEN \<le> length path + length (base32_string n) \<Longrightarrow>
   tty_digits n path = Inl ENOMEM"
proof (induction n path rule: tty_digits.induct)
  case (1 n path)
  show ?case
  proof (cases "length path + 1 \<ge> TTYPATHLEN")
    case True
    with 1 show ?thesis by (simp add: tty_digits.simps [of n])
  next
    case False
    then have "\<not> n < 32" using 1 by (auto simp: base32_string.simps [of n])
    then have "tty_digits (n div 32) (path @ [base32_char (n mod 32)]) = Inl ENOMEM"
      using False 1 by (intro "1.IH") (auto simp: base32_string.simps [of n])
    with False 1 show ?thesis by (simp add: tty_digits.simps [of n])
  qed
qed

lemma length_base32_string: "length (base32_string n) \<le> Suc k \<longleftrightarrow> n < 32 ^ Suc k"
proof (induction k arbitrary: n)
  case 0
  then show ?case
    by (subst base32_string.simps) (auto simp: base32_string.simps [of "n div 32"] Suc_le_eq)
next
  case (Suc k)
  show ?case
  proof (cases "n < 32")
    case True
    then have "n < 32 ^ Suc (Suc k)" by (rule less_le_trans) simp
    with True show ?thesis by (subst base32_string.simps) simp
  next
    case False
    then have "length (base32_string n) \<le> Suc (Suc k) \<longleftrightarrow> length (base32_string (n div 32)) \<le> Suc k"
      by (subst base32_string.simps) simp
    also have "\<dots> \<longleftrightarrow> n div 32 < 32 ^ Suc k" by (rule Suc)
    also have "\<dots> \<longleftrightarrow> n < 32 ^ Suc (Suc k)" by (simp add: div_less_iff_less_mult mult.commute)
    finally show ?thesis .
  qed
qed

text \<open>The swaps reverse the digits.\<close>

lemma reverse_digits_step:
  assumes "length xs = i" "length ys = i" "k = length zs div 2"
  shows "reverse_digits (length p) k i (p @ xs @ zs @ ys) = p @ xs @ rev zs @ ys"
  using assms
proof (induction k arbitrary: i xs ys zs)
  case 0
  then have "length zs \<le> 1" by simp
  then have "rev zs = zs" by (cases zs) auto
  then show ?case by simp
next
  case (Suc k)
  then obtain a ms b where zs: "zs = a # ms @ [b]"
    by (metis One_nat_def Suc_1 div_less length_0_conv length_Cons lessI list.exhaust nat.simps(3)
        rev_exhaust zero_less_Suc list.size(3))
  let ?path = "p @ xs @ zs @ ys"
  have 1: "?path ! (length p + i) = a" using Suc.prems zs by (simp add: nth_append)
  have p2: "length ?path - 1 - i = length p + i + Suc (length ms)" using Suc.prems zs by simp
  have 2: "?path ! (length p + i + Suc (length ms)) = b"
    using Suc.prems zs by (simp add: nth_append)
  have upd: "(?path[length p + i := b])[length p + i + Suc (length ms) := a] = p @ (xs @ [b]) @ ms @ (a # ys)"
    using Suc.prems zs by (simp add: list_update_append)
  have "reverse_digits (length p) k (Suc i) (p @ (xs @ [b]) @ ms @ (a # ys)) = p @ (xs @ [b]) @ rev ms @ (a # ys)"
    using Suc.prems zs by (intro Suc.IH) auto
  then show ?case
    using 1 2 p2 upd zs by (simp add: Let_def)
qed

lemma reverse_digits_rev: "reverse_digits (length p) (length zs div 2) 0 (p @ zs) = p @ rev zs"
  using reverse_digits_step [of "[]" 0 "[]" "length zs div 2" zs p] by simp

text \<open>
  The FreeBSD branch writes the numeral and never leaves its array: a number of at most six
  digits gives the path, a longer one is refused with \<open>ENOMEM\<close>.
\<close>

lemma freebsd_tty_path_eq:
  "freebsd_tty_path vt = Some (if vt - 1 < 32 ^ 6 then Inr (''/dev/ttyv'' @ base32_string (vt - 1)) else Inl ENOMEM)"
proof (cases "vt - 1 = 0")
  case True
  moreover have "base32_string 0 = ''0''" by code_simp
  ultimately show ?thesis by (auto simp: freebsd_tty_path_def Let_def)
next
  case False
  let ?p = "''/dev/ttyv''"
  have tty: "(if vt > 0 then vt - 1 else vt) = vt - 1" by simp
  show ?thesis
  proof (cases "vt - 1 < 32 ^ 6")
    case True
    then have len: "length (base32_string (vt - 1)) \<le> 6"
      using length_base32_string [of "vt - 1" 5] by simp
    then have "tty_digits (vt - 1) ?p = Inr (?p @ rev (base32_string (vt - 1)))"
      using False by (intro tty_digits_ok) (auto simp: TTYPATHLEN_def)
    moreover have "reverse_digits (length ?p) (length (base32_string (vt - 1)) div 2) 0 (?p @ rev (base32_string (vt - 1)))
        = ?p @ base32_string (vt - 1)"
      using reverse_digits_rev [of ?p "rev (base32_string (vt - 1))"] by simp
    ultimately show ?thesis
      using False True len by (simp add: freebsd_tty_path_def tty Let_def TTYPATHLEN_def)
  next
    case big: False
    then have "\<not> length (base32_string (vt - 1)) \<le> 6"
      using length_base32_string [of "vt - 1" 5] by simp
    then have "tty_digits (vt - 1) ?p = Inl ENOMEM"
      using False by (intro tty_digits_too_long) (auto simp: TTYPATHLEN_def)
    with False big show ?thesis by (simp add: freebsd_tty_path_def tty Let_def)
  qed
qed

lemma terminal_open_returns: "0 \<le> vt \<Longrightarrow> \<exists>fd s'. terminal_open E vt s = Some (fd, s')"
  by (cases "platform E")
    (auto simp: terminal_open_def get_tty_path_def freebsd_tty_path_eq Let_def split: prod.splits)

section \<open>Frames\<close>

lemma ioctl_status_frame [frame]: "os_frame s (snd (ioctl_status E fd r s))"
  using sys_frames(3) [of s E fd r] by (auto simp: ioctl_status_def split: prod.splits sum.splits)

lemma terminal_ioctl_frames [frame]:
  "os_frame s (snd (terminal_set_process_switching E fd b s))"
  "os_frame s (snd (terminal_switch_vt E fd vt s))"
  "os_frame s (snd (terminal_ack_release E fd s))"
  "os_frame s (snd (terminal_ack_acquire E fd s))"
  "os_frame s (snd (terminal_set_graphics E fd b s))"
  by (simp_all add: terminal_set_process_switching_def terminal_switch_vt_def terminal_ack_release_def
      terminal_ack_acquire_def terminal_set_graphics_def ioctl_status_frame)

lemma terminal_set_keyboard_frame [frame]: "os_frame s (snd (terminal_set_keyboard E fd b s))"
proof -
  obtain r1 s1 where 1: "ioctl_status E fd
      (KDSKBMODE (if b then K_ENABLE (platform E) else K_DISABLE (platform E))) s = (r1, s1)" by force
  then have f1: "os_frame s s1" by (metis ioctl_status_frame snd_conv)
  obtain r2 s2 where 2: "ioctl_status E fd TCGETATTR s1 = (r2, s2)" by force
  then have f2: "os_frame s1 s2" by (metis ioctl_status_frame snd_conv)
  have "os_frame s2 (snd (ioctl_status E fd (TCSETATTR b) s2))" by (rule ioctl_status_frame)
  with 1 2 f1 f2 show ?thesis
    by (auto simp: terminal_set_keyboard_def Let_def intro: os_frame_trans)
qed

lemma terminal_current_vt_frame [frame]: "os_frame s (snd (terminal_current_vt E fd s))"
  using sys_frames(3) [of s E fd VT_GETACTIVE] sys_frames(3) [of s E fd VT_GETSTATE]
  by (auto simp: terminal_current_vt_def split: prod.splits sum.splits)

lemma get_tty_path_frame: "get_tty_path E vt s = Some (p, s') \<Longrightarrow> os_frame s s'"
  by (cases "freebsd_tty_path (nat vt)"; cases "the (freebsd_tty_path (nat vt))")
    (auto simp: get_tty_path_def bind_eq_Some_conv split: platform.splits)

lemma terminal_open_frame: "terminal_open E vt s = Some (fd, s') \<Longrightarrow> os_frame s s'"
proof -
  assume "terminal_open E vt s = Some (fd, s')"
  then obtain p s1 where p: "get_tty_path E vt s = Some (p, s1)"
    and rest: "(case p of None \<Rightarrow> Some (- 1, s1) | Some path \<Rightarrow>
        let (fd, s) = sys_open E path [O_RDWR, O_NOCTTY] s1 in
        if fd = - 1 then Some (- 1, s) else Some (fd, s)) = Some (fd, s')"
    by (auto simp: terminal_open_def bind_eq_Some_conv)
  have "os_frame s1 s'"
    using rest sys_frames(1) [where s = s1 and E = E and fl = "[O_RDWR, O_NOCTTY]"]
    by (auto split: option.splits prod.splits if_splits) (metis snd_conv)+
  with get_tty_path_frame [OF p] show ?thesis by (rule os_frame_trans)
qed

lemma terminal_open_negative: "vt < 0 \<Longrightarrow> terminal_open E vt s = None"
  by (simp add: terminal_open_def get_tty_path_def)

section \<open>Properties\<close>

text \<open>C40: on FreeBSD the routine that writes the digits of a terminal number into a fixed array and
  reverses them in place produces the base 32 numeral of the number less one, never writes
  outside the array, and refuses exactly the numbers whose path does not fit.\<close>

theorem freebsd_tty_path_is_numeral:
  "freebsd_tty_path vt = Some (if vt - 1 < 32 ^ 6 then Inr (''/dev/ttyv'' @ base32_string (vt - 1)) else Inl ENOMEM)"
  by (rule freebsd_tty_path_eq)

end
