(* ===== verification/Device.thy ===== *)
theory Device
  imports Terminal
begin

text \<open>
  The device classes of \<open>common/evdev.c\<close>, \<open>common/drm.c\<close>, \<open>common/hidraw.c\<close> and
  \<open>common/wscons.c\<close>: which path belongs to which class on which platform, and the ioctls that
  take access to a device away or give it back. \<open>strncmp\<close> on strings without a NUL byte is
  modelled by comparing the strings with their terminator, cut at the length given.
\<close>

section \<open>Model\<close>

definition strncmp_eq :: "string \<Rightarrow> string \<Rightarrow> nat \<Rightarrow> bool" where
  "strncmp_eq a b n \<longleftrightarrow> take n (a @ [CHR 0x00]) = take n (b @ [CHR 0x00])"

definition str_has_prefix :: "string \<Rightarrow> string \<Rightarrow> bool" where
  "str_has_prefix prefix s = strncmp_eq prefix s (length prefix)"

definition drm_set_master :: "env \<Rightarrow> int \<Rightarrow> 'a os_scheme \<Rightarrow> int \<times> 'a os_scheme" where
  "drm_set_master E fd s = (let (r, s) = sys_ioctl E fd DRM_IOCTL_SET_MASTER s in (c_int r, s))"

definition drm_drop_master :: "env \<Rightarrow> int \<Rightarrow> 'a os_scheme \<Rightarrow> int \<times> 'a os_scheme" where
  "drm_drop_master E fd s = (let (r, s) = sys_ioctl E fd DRM_IOCTL_DROP_MASTER s in (c_int r, s))"

definition path_is_drm :: "env \<Rightarrow> string \<Rightarrow> bool" where
  "path_is_drm E path =
     (if str_has_prefix ''/dev/dri/'' path then True
      else platform E = FreeBSD \<and> str_has_prefix ''/dev/drm/'' path)"

definition path_is_evdev :: "env \<Rightarrow> string \<Rightarrow> bool" where
  "path_is_evdev E path =
     (if platform E = Linux \<or> platform E = FreeBSD then str_has_prefix ''/dev/input/event'' path
      else False)"

definition evdev_revoke :: "env \<Rightarrow> int \<Rightarrow> 'a os_scheme \<Rightarrow> int \<times> 'a os_scheme" where
  "evdev_revoke E fd s =
     (if platform E = Linux \<or> platform E = FreeBSD
      then (let (r, s) = sys_ioctl E fd EVIOCREVOKE s in (c_int r, s)) else (0, s))"

definition path_is_hidraw :: "env \<Rightarrow> string \<Rightarrow> bool" where
  "path_is_hidraw E path =
     (if platform E = Linux \<and> have_hidiocrevoke E then str_has_prefix ''/dev/hidraw'' path
      else False)"

definition hidraw_revoke :: "env \<Rightarrow> int \<Rightarrow> 'a os_scheme \<Rightarrow> int \<times> 'a os_scheme" where
  "hidraw_revoke E fd s =
     (if platform E = Linux \<and> have_hidiocrevoke E
      then (let (r, s) = sys_ioctl E fd HIDIOCREVOKE s in (c_int r, s)) else (0, s))"

definition path_is_wscons :: "env \<Rightarrow> string \<Rightarrow> bool" where
  "path_is_wscons E path =
     (if platform E = NetBSD then
        strncmp_eq path ''/dev/wskbd'' (length ''/dev/wskbd'') \<or>
        strncmp_eq path ''/dev/wsmouse'' (length ''/dev/wsmouse'') \<or>
        strncmp_eq path ''/dev/wsmux'' (length ''/dev/wsmouse'')
      else False)"

section \<open>Lemmas\<close>

lemma strncmp_eq_prefix:
  "length p = n \<Longrightarrow> strncmp_eq p s n \<Longrightarrow> CHR 0x00 \<notin> set p \<Longrightarrow> take n s = p"
proof -
  assume n: "length p = n" and eq: "strncmp_eq p s n" and z: "CHR 0x00 \<notin> set p"
  from eq n have t: "p = take n (s @ [CHR 0x00])" by (simp add: strncmp_eq_def)
  show "take n s = p"
  proof (cases "n \<le> length s")
    case True
    with t show ?thesis by simp
  next
    case False
    with t have "CHR 0x00 \<in> set p" by (cases "n - length s") auto
    with z show ?thesis by simp
  qed
qed

lemma str_has_prefix_iff: "CHR 0x00 \<notin> set p \<Longrightarrow> str_has_prefix p s \<longleftrightarrow> (\<exists>t. s = p @ t)"
proof
  assume z: "CHR 0x00 \<notin> set p" and "str_has_prefix p s"
  then have "take (length p) s = p" using strncmp_eq_prefix by (simp add: str_has_prefix_def)
  then have "s = p @ drop (length p) s" by (metis append_take_drop_id)
  then show "\<exists>t. s = p @ t" by blast
qed (auto simp: str_has_prefix_def strncmp_eq_def)

text \<open>The classes that \<open>seat_open_device\<close> tries in turn do not overlap on a platform.\<close>

lemma path_classes_disjoint:
  "\<not> (path_is_evdev E p \<and> path_is_drm E p)" "\<not> (path_is_evdev E p \<and> path_is_hidraw E p)"
  "\<not> (path_is_drm E p \<and> path_is_hidraw E p)"
  by (auto simp: path_is_evdev_def path_is_drm_def path_is_hidraw_def str_has_prefix_iff split: if_splits)

lemma device_frames [frame]:
  "os_frame s (snd (drm_set_master E fd s))"
  "os_frame s (snd (drm_drop_master E fd s))"
  "os_frame s (snd (evdev_revoke E fd s))"
  "os_frame s (snd (hidraw_revoke E fd s))"
  using sys_frames(3) [of s E fd DRM_IOCTL_SET_MASTER] sys_frames(3) [of s E fd DRM_IOCTL_DROP_MASTER]
    sys_frames(3) [of s E fd EVIOCREVOKE] sys_frames(3) [of s E fd HIDIOCREVOKE]
  by (auto simp: drm_set_master_def drm_drop_master_def evdev_revoke_def hidraw_revoke_def
      split: prod.splits)

section \<open>Properties\<close>

text \<open>The kinds of device that the server tells apart by path do not overlap, so the order in
  which it tries them does not matter; and each test accepts exactly the paths that begin with
  its prefix.\<close>

lemma device_kinds_disjoint:
  "\<not> (path_is_evdev E p \<and> path_is_drm E p) \<and> \<not> (path_is_evdev E p \<and> path_is_hidraw E p)
    \<and> \<not> (path_is_drm E p \<and> path_is_hidraw E p)
    \<and> path_is_evdev E p = (platform E \<in> {Linux, FreeBSD} \<and> (\<exists>t. p = ''/dev/input/event'' @ t))"
  using path_classes_disjoint [of E p] by (auto simp: path_is_evdev_def str_has_prefix_iff)

text \<open>The multiplexer of NetBSD's console input is not recognised by its name: the comparison runs
  over the length of another prefix, so of the paths that begin with it none but the bare prefix
  is accepted.\<close>

lemma wsmux_not_recognised:
  assumes "platform E = NetBSD" and "CHR 0x00 \<notin> set t"
  shows "path_is_wscons E (''/dev/wsmux'' @ t) \<longleftrightarrow> t = []"
  using assms by (cases t; cases "tl t") (auto simp: path_is_wscons_def strncmp_eq_def take_Cons' split: if_splits)

end
