(* ===== verification/Connection.thy ===== *)
theory Connection
  imports Kernel
begin

unbundle bit_operations_syntax

text \<open>
  The buffered connection of \<open>common/connection.c\<close>: four ring buffers of 256 bytes with free
  running 32-bit indices, \<open>recvmsg\<close> and \<open>sendmsg\<close> with I/O vectors into them, and descriptors
  that travel beside the bytes.

  \<open>contents\<close> is the byte string a buffer holds and \<open>cb_ok\<close> its well-formedness. The buffer
  operations are shown to be those of a bounded queue of bytes (locale \<open>byte_fifo\<close>), for any
  position of the indices, wrap-around of the 32-bit counters included. The connection
  operations are then described by the bytes that entered and left: what \<open>connection_flush\<close>
  passed to the kernel followed by what it kept is what was there before.
\<close>

section \<open>Ring buffers\<close>

definition CONNECTION_BUFFER_SIZE :: nat where
  "CONNECTION_BUFFER_SIZE = 256"

definition MAX_FDS :: nat where
  "MAX_FDS = CONNECTION_BUFFER_SIZE div 4"

record connection_buffer =
  head :: u32
  tail :: u32
  data :: bytes

record connection =
  conn_in :: connection_buffer
  conn_out :: connection_buffer
  fds_in :: connection_buffer
  fds_out :: connection_buffer
  conn_fd :: int
  want_flush :: bool

definition connection_buffer_mask :: "u32 \<Rightarrow> u32" where
  "connection_buffer_mask idx = idx AND (of_nat CONNECTION_BUFFER_SIZE - 1)"

definition connection_buffer_size :: "connection_buffer \<Rightarrow> u32" where
  "connection_buffer_size b = head b - tail b"

definition connection_buffer_consume :: "connection_buffer \<Rightarrow> nat \<Rightarrow> connection_buffer" where
  "connection_buffer_consume b n = b\<lparr>tail := tail b + of_nat n\<rparr>"

definition connection_buffer_restore :: "connection_buffer \<Rightarrow> nat \<Rightarrow> connection_buffer" where
  "connection_buffer_restore b n = b\<lparr>tail := tail b - of_nat n\<rparr>"

text \<open>An I/O vector: offset into the buffer's array and length of each part.\<close>

type_synonym iov = "(nat \<times> nat) list"

definition connection_buffer_get_iov :: "connection_buffer \<Rightarrow> iov" where
  "connection_buffer_get_iov b =
     (let h = unat (connection_buffer_mask (head b)); t = unat (connection_buffer_mask (tail b)) in
      if t < h then [(t, h - t)]
      else if h = 0 then [(t, CONNECTION_BUFFER_SIZE - t)]
      else [(t, CONNECTION_BUFFER_SIZE - t), (0, h)])"

definition connection_buffer_put_iov :: "connection_buffer \<Rightarrow> iov" where
  "connection_buffer_put_iov b =
     (let h = unat (connection_buffer_mask (head b)); t = unat (connection_buffer_mask (tail b)) in
      if h < t then [(h, t - h)]
      else if t = 0 then [(h, CONNECTION_BUFFER_SIZE - h)]
      else [(h, CONNECTION_BUFFER_SIZE - h), (0, t)])"

definition connection_buffer_copy :: "connection_buffer \<Rightarrow> nat \<Rightarrow> bytes option" where
  "connection_buffer_copy b count =
     (let t = unat (connection_buffer_mask (tail b)) in
      if t + count \<le> CONNECTION_BUFFER_SIZE then memcpy_from (data b) t count
      else do {
        let size = CONNECTION_BUFFER_SIZE - t;
        xs \<leftarrow> memcpy_from (data b) t size;
        ys \<leftarrow> memcpy_from (data b) 0 (count - size);
        Some (xs @ ys) })"

definition connection_buffer_put ::
    "connection_buffer \<Rightarrow> bytes \<Rightarrow> 'a os_scheme \<Rightarrow> (int \<times> connection_buffer \<times> 'a os_scheme) option" where
  "connection_buffer_put b bs s =
     (if length bs > CONNECTION_BUFFER_SIZE then Some (- 1, b, s\<lparr>errno := EOVERFLOW\<rparr>)
      else do {
        let h = unat (connection_buffer_mask (head b));
        d \<leftarrow> (if h + length bs \<le> CONNECTION_BUFFER_SIZE then memcpy_to (data b) h bs
              else do {
                let size = CONNECTION_BUFFER_SIZE - h;
                d \<leftarrow> memcpy_to (data b) h (take size bs);
                memcpy_to d 0 (drop size bs) });
        Some (0, b\<lparr>data := d, head := head b + of_nat (length bs)\<rparr>, s) })"

text \<open>
  The local array \<open>int fds[256 / sizeof(int)]\<close> that receives the copy holds 256 bytes.
\<close>

definition connection_buffer_close_fds ::
    "env \<Rightarrow> connection_buffer \<Rightarrow> 'a os_scheme \<Rightarrow> (connection_buffer \<times> 'a os_scheme) option" where
  "connection_buffer_close_fds E b s =
     (let size = unat (connection_buffer_size b) in
      if size = 0 then Some (b, s)
      else do {
        oassert (size \<le> CONNECTION_BUFFER_SIZE);
        bs \<leftarrow> connection_buffer_copy b size;
        let count = size div 4;
        let s = close_all E (take count (bytes_ints bs)) s;
        Some (connection_buffer_consume b (count * 4), s) })"

section \<open>Control messages\<close>

text \<open>The payload of the \<open>SCM_RIGHTS\<close> message built from a buffer of descriptors.\<close>

definition build_cmsg :: "connection_buffer \<Rightarrow> bytes option" where
  "build_cmsg b =
     (let size = min (unat (connection_buffer_size b)) (MAX_FDS * 4) in
      if size = 0 then Some [] else connection_buffer_copy b size)"

fun decode_cmsg_loop ::
    "env \<Rightarrow> connection_buffer \<Rightarrow> bool \<Rightarrow> cmsg list \<Rightarrow> 'a os_scheme \<Rightarrow> (int \<times> connection_buffer \<times> 'a os_scheme) option" where
  "decode_cmsg_loop E b overflow [] s =
     (if overflow then Some (- 1, b, s\<lparr>errno := EOVERFLOW\<rparr>) else Some (0, b, s))"
| "decode_cmsg_loop E b overflow (m # ms) s =
     (if \<not> cmsg_rights m then decode_cmsg_loop E b overflow ms s
      else let size = length (cmsg_data m);
               room = int CONNECTION_BUFFER_SIZE - int (unat (connection_buffer_size b)) in
        if int size > room mod 2 ^ 64 \<or> overflow then
          decode_cmsg_loop E b True ms (close_all E (take (size div 4) (bytes_ints (cmsg_data m))) s)
        else do {
          (r, b, s) \<leftarrow> connection_buffer_put b (cmsg_data m) s;
          if r < 0 then Some (- 1, b, s) else decode_cmsg_loop E b False ms s })"

definition decode_cmsg ::
    "env \<Rightarrow> connection_buffer \<Rightarrow> cmsg list \<Rightarrow> 'a os_scheme \<Rightarrow> (int \<times> connection_buffer \<times> 'a os_scheme) option" where
  "decode_cmsg E b ms s = decode_cmsg_loop E b False ms s"

section \<open>Reading and flushing\<close>

text \<open>What the kernel does with an I/O vector: fill its parts in order, or read them in order.\<close>

fun scatter :: "iov \<Rightarrow> bytes \<Rightarrow> bytes \<Rightarrow> bytes option" where
  "scatter [] bs d = Some d"
| "scatter ((off, n) # iov) bs d = do {
     d \<leftarrow> memcpy_to d off (take n bs);
     scatter iov (drop n bs) d }"

fun gather :: "iov \<Rightarrow> bytes \<Rightarrow> bytes option" where
  "gather [] d = Some []"
| "gather ((off, n) # iov) d = do {
     xs \<leftarrow> memcpy_from d off n;
     ys \<leftarrow> gather iov d;
     Some (xs @ ys) }"

definition iov_len :: "iov \<Rightarrow> nat" where
  "iov_len iov = sum_list (map snd iov)"

partial_function (option) recvmsg_retry ::
    "env \<Rightarrow> int \<Rightarrow> nat \<Rightarrow> 'a os_scheme \<Rightarrow> ((errno + bytes \<times> cmsg list) \<times> 'a os_scheme) option" where
  [code]: "recvmsg_retry E fd n s =
     (case sys_recvmsg E fd n s of (r, s') \<Rightarrow>
        if r = Inl EINTR then recvmsg_retry E fd n s' else Some (r, s'))"

partial_function (option) sendmsg_retry ::
    "env \<Rightarrow> int \<Rightarrow> bytes \<Rightarrow> bytes \<Rightarrow> 'a os_scheme \<Rightarrow> ((errno + nat) \<times> 'a os_scheme) option" where
  [code]: "sendmsg_retry E fd bs fds s =
     (case sys_sendmsg E fd bs fds s of (r, s') \<Rightarrow>
        if r = Inl EINTR then sendmsg_retry E fd bs fds s' else Some (r, s'))"

definition connection_read :: "env \<Rightarrow> connection \<Rightarrow> 'a os_scheme \<Rightarrow> (int \<times> connection \<times> 'a os_scheme) option" where
  "connection_read E c s =
     (if unat (connection_buffer_size (conn_in c)) \<ge> CONNECTION_BUFFER_SIZE
      then Some (- 1, c, s\<lparr>errno := EOVERFLOW\<rparr>)
      else do {
        let iov = connection_buffer_put_iov (conn_in c);
        (r, s) \<leftarrow> recvmsg_retry E (conn_fd c) (iov_len iov) s;
        case r of Inl _ \<Rightarrow> Some (- 1, c, s)
        | Inr (bs, cmsgs) \<Rightarrow> do {
            d \<leftarrow> scatter iov bs (data (conn_in c));
            let c = c\<lparr>conn_in := (conn_in c)\<lparr>data := d\<rparr>\<rparr>;
            (r, b, s) \<leftarrow> decode_cmsg E (fds_in c) cmsgs s;
            let c = c\<lparr>fds_in := b\<rparr>;
            if r \<noteq> 0 then Some (- 1, c, s)
            else do {
              let c = c\<lparr>conn_in := (conn_in c)\<lparr>head := head (conn_in c) + of_nat (length bs)\<rparr>\<rparr>;
              Some (sint (connection_buffer_size (conn_in c)), c, s) } } })"

partial_function (option) flush_loop ::
    "env \<Rightarrow> connection \<Rightarrow> 'a os_scheme \<Rightarrow> (int \<times> connection \<times> 'a os_scheme) option" where
  [code]: "flush_loop E c s =
     (if head (conn_out c) - tail (conn_out c) \<noteq> 0 then do {
        bs \<leftarrow> gather (connection_buffer_get_iov (conn_out c)) (data (conn_out c));
        fds \<leftarrow> build_cmsg (fds_out c);
        (r, s) \<leftarrow> sendmsg_retry E (conn_fd c) bs fds s;
        (case r of Inl _ \<Rightarrow> Some (- 1, c, s)
         | Inr len \<Rightarrow> do {
             (b, s) \<leftarrow> connection_buffer_close_fds E (fds_out c) s;
             flush_loop E (c\<lparr>fds_out := b,
               conn_out := (conn_out c)\<lparr>tail := tail (conn_out c) + of_nat len\<rparr>\<rparr>) s }) }
      else Some (0, c, s))"

definition connection_flush :: "env \<Rightarrow> connection \<Rightarrow> 'a os_scheme \<Rightarrow> (int \<times> connection \<times> 'a os_scheme) option" where
  "connection_flush E c s =
     (if \<not> want_flush c then Some (0, c, s)
      else do {
        let t = tail (conn_out c);
        (r, c, s) \<leftarrow> flush_loop E c s;
        if r = - 1 then Some (- 1, c, s)
        else Some (sint (head (conn_out c) - t), c\<lparr>want_flush := False\<rparr>, s) })"

section \<open>Putting and getting\<close>

definition connection_put ::
    "env \<Rightarrow> connection \<Rightarrow> bytes \<Rightarrow> 'a os_scheme \<Rightarrow> (int \<times> connection \<times> 'a os_scheme) option" where
  "connection_put E c bs s = do {
     (r, c, s) \<leftarrow>
       (if unat (connection_buffer_size (conn_out c)) + length bs > CONNECTION_BUFFER_SIZE
        then connection_flush E (c\<lparr>want_flush := True\<rparr>) s else Some (0, c, s));
     if r = - 1 then Some (- 1, c, s)
     else do {
       (r, b, s) \<leftarrow> connection_buffer_put (conn_out c) bs s;
       if r = - 1 then Some (- 1, c\<lparr>conn_out := b\<rparr>, s)
       else Some (0, c\<lparr>conn_out := b, want_flush := True\<rparr>, s) } }"

definition connection_put_fd ::
    "connection \<Rightarrow> int \<Rightarrow> 'a os_scheme \<Rightarrow> (int \<times> connection \<times> 'a os_scheme) option" where
  "connection_put_fd c fd s =
     (if unat (connection_buffer_size (fds_out c)) \<ge> MAX_FDS * 4
      then Some (- 1, c, s\<lparr>errno := EOVERFLOW\<rparr>)
      else do {
        (r, b, s) \<leftarrow> connection_buffer_put (fds_out c) (int_bytes fd) s;
        Some (r, c\<lparr>fds_out := b\<rparr>, s) })"

definition connection_get ::
    "connection \<Rightarrow> nat \<Rightarrow> 'a os_scheme \<Rightarrow> (bytes option \<times> connection \<times> 'a os_scheme) option" where
  "connection_get c count s =
     (if count > unat (connection_buffer_size (conn_in c)) then Some (None, c, s\<lparr>errno := EAGAIN\<rparr>)
      else do {
        bs \<leftarrow> connection_buffer_copy (conn_in c) count;
        Some (Some bs, c\<lparr>conn_in := connection_buffer_consume (conn_in c) count\<rparr>, s) })"

definition connection_get_fd ::
    "connection \<Rightarrow> 'a os_scheme \<Rightarrow> (int option \<times> connection \<times> 'a os_scheme) option" where
  "connection_get_fd c s =
     (if 4 > unat (connection_buffer_size (fds_in c)) then Some (None, c, s\<lparr>errno := EAGAIN\<rparr>)
      else do {
        bs \<leftarrow> connection_buffer_copy (fds_in c) 4;
        Some (Some (bytes_int bs), c\<lparr>fds_in := connection_buffer_consume (fds_in c) 4\<rparr>, s) })"

definition connection_close_fds :: "env \<Rightarrow> connection \<Rightarrow> 'a os_scheme \<Rightarrow> (connection \<times> 'a os_scheme) option" where
  "connection_close_fds E c s = do {
     (b, s) \<leftarrow> connection_buffer_close_fds E (fds_in c) s;
     let c = c\<lparr>fds_in := b\<rparr>;
     (b, s) \<leftarrow> connection_buffer_close_fds E (fds_out c) s;
     Some (c\<lparr>fds_out := b\<rparr>, s) }"

definition connection_pending :: "connection \<Rightarrow> nat" where
  "connection_pending c = unat (connection_buffer_size (conn_in c))"

definition connection_restore :: "connection \<Rightarrow> nat \<Rightarrow> connection" where
  "connection_restore c count = c\<lparr>conn_in := connection_buffer_restore (conn_in c) count\<rparr>"

section \<open>The bytes of a ring buffer\<close>

text \<open>\<open>n\<close> bytes of a ring of 256 from position \<open>t\<close> on.\<close>

definition ring_read :: "bytes \<Rightarrow> nat \<Rightarrow> nat \<Rightarrow> bytes" where
  "ring_read d t n = map (\<lambda>i. d ! ((t + i) mod CONNECTION_BUFFER_SIZE)) [0..<n]"

definition contents :: "connection_buffer \<Rightarrow> bytes" where
  "contents b = ring_read (data b) (unat (tail b)) (unat (connection_buffer_size b))"

definition cb_ok :: "connection_buffer \<Rightarrow> bool" where
  "cb_ok b \<longleftrightarrow> length (data b) = CONNECTION_BUFFER_SIZE
     \<and> unat (connection_buffer_size b) \<le> CONNECTION_BUFFER_SIZE"

lemma buffer_size_eq [simp]: "CONNECTION_BUFFER_SIZE = 256"
  by (simp add: CONNECTION_BUFFER_SIZE_def)

lemma unat_mask: "unat (connection_buffer_mask w) = unat w mod 256"
proof -
  have "connection_buffer_mask w = take_bit 8 w"
    by (simp add: connection_buffer_mask_def take_bit_eq_mask mask_eq_exp_minus_1)
  then have "unat (connection_buffer_mask w) = take_bit 8 (unat w)"
    by (simp add: unsigned_take_bit_eq)
  then show ?thesis by (simp add: take_bit_eq_mod)
qed

lemma unat_add_mod: "unat ((w :: u32) + of_nat i) mod 256 = (unat w + i) mod 256"
proof -
  have "unat (w + of_nat i) = (unat w + i) mod 4294967296"
    by (simp add: unat_word_ariths unat_of_nat take_bit_eq_mod mod_simps)
  moreover have "(256 :: nat) dvd 4294967296" by simp
  ultimately show ?thesis by (simp add: mod_mod_cancel)
qed

lemma length_ring_read [simp]: "length (ring_read d t n) = n"
  by (simp add: ring_read_def)

lemma ring_read_mod: "ring_read d (t mod 256) n = ring_read d t n"
  by (simp add: ring_read_def mod_simps)

lemma ring_read_add: "ring_read d t (m + n) = ring_read d t m @ ring_read d (t + m) n"
  by (rule nth_equalityI) (auto simp: ring_read_def nth_append add.assoc)

lemma ring_read_take: "m \<le> n \<Longrightarrow> take m (ring_read d t n) = ring_read d t m"
  by (simp add: ring_read_def take_map)

lemma ring_read_drop: "m \<le> n \<Longrightarrow> drop m (ring_read d t n) = ring_read d (t + m) (n - m)"
  using ring_read_add [of d t m "n - m"] by simp

lemma ring_read_linear:
  "length d = 256 \<Longrightarrow> t < 256 \<Longrightarrow> t + n \<le> 256 \<Longrightarrow> ring_read d t n = take n (drop t d)"
  by (rule nth_equalityI) (auto simp: ring_read_def)

lemma ring_read_wrap:
  assumes "length d = 256" "t < 256" "n \<le> 256" "256 < t + n"
  shows "ring_read d t n = drop t d @ take (n - (256 - t)) d"
proof -
  have "ring_read d t n = ring_read d t (256 - t) @ ring_read d 256 (n - (256 - t))"
    using ring_read_add [of d t "256 - t" "n - (256 - t)"] assms by simp
  also have "ring_read d 256 (n - (256 - t)) = ring_read d 0 (n - (256 - t))"
    using ring_read_mod [of d 256 "n - (256 - t)"] by simp
  finally show ?thesis using assms by (simp add: ring_read_linear)
qed

lemma ring_read_cong:
  assumes "\<And>i. i < n \<Longrightarrow> d' ! ((t + i) mod 256) = d ! ((t + i) mod 256)"
  shows "ring_read d' t n = ring_read d t n"
  using assms by (simp add: ring_read_def)

lemma length_contents [simp]: "length (contents b) = unat (connection_buffer_size b)"
  by (simp add: contents_def)

section \<open>Buffer operations\<close>

lemma connection_buffer_copy_ok:
  assumes "cb_ok b" and "n \<le> unat (connection_buffer_size b)"
  shows "connection_buffer_copy b n = Some (take n (contents b))"
proof -
  let ?t = "unat (tail b) mod 256"
  have n: "n \<le> 256" and d: "length (data b) = 256" using assms by (auto simp: cb_ok_def)
  have "take n (contents b) = ring_read (data b) ?t n"
    using assms(2) by (simp add: contents_def ring_read_take ring_read_mod)
  moreover have "connection_buffer_copy b n = Some (ring_read (data b) ?t n)"
    using n d by (auto simp: connection_buffer_copy_def unat_mask Let_def ring_read_linear ring_read_wrap
        memcpy_from_def)
  ultimately show ?thesis by simp
qed

lemma size_consume:
  assumes "n \<le> unat (connection_buffer_size b)"
  shows "unat (connection_buffer_size (connection_buffer_consume b n)) = unat (connection_buffer_size b) - n"
proof -
  have n: "unat (of_nat n :: u32) = n"
    using assms unat_u32_less [of "connection_buffer_size b"] by (intro unat_of_nat_u32) simp
  then have "of_nat n \<le> connection_buffer_size b"
    using assms by (simp add: word_le_nat_alt)
  moreover have "connection_buffer_size (connection_buffer_consume b n) = connection_buffer_size b - of_nat n"
    by (simp add: connection_buffer_size_def connection_buffer_consume_def)
  ultimately show ?thesis using n by (simp add: unat_sub)
qed

lemma connection_buffer_consume_ok:
  assumes "cb_ok b" and "n \<le> unat (connection_buffer_size b)"
  shows "cb_ok (connection_buffer_consume b n)"
    and "contents (connection_buffer_consume b n) = drop n (contents b)"
proof -
  show "cb_ok (connection_buffer_consume b n)"
    using assms size_consume [OF assms(2)] by (auto simp: cb_ok_def connection_buffer_consume_def)
  have "contents (connection_buffer_consume b n)
      = ring_read (data b) (unat (tail b + of_nat n)) (unat (connection_buffer_size b) - n)"
    using size_consume [OF assms(2)] by (simp add: contents_def connection_buffer_consume_def)
  also have "\<dots> = ring_read (data b) (unat (tail b) + n) (unat (connection_buffer_size b) - n)"
    by (metis ring_read_mod unat_add_mod)
  also have "\<dots> = drop n (contents b)"
    using assms(2) by (simp add: contents_def ring_read_drop)
  finally show "contents (connection_buffer_consume b n) = drop n (contents b)" .
qed

lemma connection_buffer_restore_consume [simp]:
  "connection_buffer_restore (connection_buffer_consume b n) n = b"
  by (simp add: connection_buffer_restore_def connection_buffer_consume_def)

text \<open>Overwriting the free part of the ring, with at most one wrap.\<close>

definition ring_write :: "bytes \<Rightarrow> nat \<Rightarrow> bytes \<Rightarrow> bytes" where
  "ring_write d h bs =
     (if h + length bs \<le> 256 then take h d @ bs @ drop (h + length bs) d
      else drop (256 - h) bs @ drop (length bs - (256 - h)) (take h d) @ take (256 - h) bs)"

lemma length_ring_write:
  "length d = 256 \<Longrightarrow> h < 256 \<Longrightarrow> length bs \<le> 256 \<Longrightarrow> length (ring_write d h bs) = 256"
  by (auto simp: ring_write_def)

lemma ring_write_nth:
  assumes "length d = 256" "h < 256" "length bs \<le> 256" "i < 256"
  shows "ring_write d h bs ! ((h + i) mod 256) = (if i < length bs then bs ! i else d ! ((h + i) mod 256))"
proof (cases "h + i < 256")
  case True
  then have m: "(h + i) mod 256 = h + i" by simp
  show ?thesis
  proof (cases "h + length bs \<le> 256")
    case True
    then show ?thesis using assms m by (auto simp: ring_write_def nth_append)
  next
    case False
    then have "i < length bs" using \<open>h + i < 256\<close> by simp
    with False show ?thesis using assms m \<open>h + i < 256\<close> by (auto simp: ring_write_def nth_append)
  qed
next
  case False
  then have m: "(h + i) mod 256 = h + i - 256" using assms by (simp add: mod_if)
  show ?thesis
  proof (cases "h + length bs \<le> 256")
    case True
    then show ?thesis using assms m False by (auto simp: ring_write_def nth_append)
  next
    case f2: False
    then show ?thesis using assms m False by (auto simp: ring_write_def nth_append)
  qed
qed

lemma ring_read_write:
  assumes "length d = 256" "n + length bs \<le> 256" "h = (t + n) mod 256"
  shows "ring_read (ring_write d h bs) t (n + length bs) = ring_read d t n @ bs"
proof (rule nth_equalityI)
  fix i assume i: "i < length (ring_read (ring_write d h bs) t (n + length bs))"
  have h: "h < 256" using assms by simp
  show "ring_read (ring_write d h bs) t (n + length bs) ! i = (ring_read d t n @ bs) ! i"
  proof (cases "i < n")
    case True
    define j where "j = 256 + i - n"
    have "(h + j) mod 256 = (t + n + j) mod 256"
      by (simp add: assms(3) mod_add_left_eq)
    moreover have "t + n + j = t + i + 256" using True assms by (simp add: j_def)
    ultimately have "(h + j) mod 256 = (t + i) mod 256" by simp
    moreover have "j < 256" "\<not> j < length bs" using True assms by (auto simp: j_def)
    ultimately have "ring_write d h bs ! ((t + i) mod 256) = d ! ((t + i) mod 256)"
      using ring_write_nth [of d h bs j] assms h by simp
    with True i show ?thesis by (simp add: ring_read_def nth_append)
  next
    case False
    define j where "j = i - n"
    have "(h + j) mod 256 = (t + n + j) mod 256"
      by (simp add: assms(3) mod_add_left_eq)
    moreover have "t + n + j = t + i" using False by (simp add: j_def)
    ultimately have j: "j < length bs" "(h + j) mod 256 = (t + i) mod 256"
      using False i by (auto simp: j_def)
    then have "ring_write d h bs ! ((t + i) mod 256) = bs ! j"
      using ring_write_nth [of d h bs j] assms h by simp
    with False i j_def show ?thesis by (simp add: ring_read_def nth_append)
  qed
qed (use assms in simp)

lemma size_put:
  assumes "unat (connection_buffer_size b) + n \<le> 256"
  shows "unat (connection_buffer_size (b\<lparr>data := d, head := head b + of_nat n\<rparr>))
    = unat (connection_buffer_size b) + n"
proof -
  have "connection_buffer_size (b\<lparr>data := d, head := head b + of_nat n\<rparr>) = connection_buffer_size b + of_nat n"
    by (simp add: connection_buffer_size_def)
  moreover have "unat (of_nat n :: u32) = n" using assms by (intro unat_of_nat_u32) simp
  ultimately show ?thesis
    using assms by (simp add: unat_word_ariths)
qed

lemma head_pos: "unat (head b) mod 256 = (unat (tail b) + unat (connection_buffer_size b)) mod 256"
proof -
  have "head b = tail b + of_nat (unat (connection_buffer_size b))"
    by (simp add: connection_buffer_size_def)
  then show ?thesis by (metis unat_add_mod)
qed

text \<open>Writing \<open>bs\<close> into the free part and moving the head appends \<open>bs\<close> to the contents.\<close>

lemma contents_ring_write:
  assumes "cb_ok b" and "unat (connection_buffer_size b) + length bs \<le> 256"
  defines "b' \<equiv> b\<lparr>data := ring_write (data b) (unat (head b) mod 256) bs,
      head := head b + of_nat (length bs)\<rparr>"
  shows "cb_ok b'" and "contents b' = contents b @ bs"
proof -
  have d: "length (data b) = 256" using assms by (simp add: cb_ok_def)
  have sz: "unat (connection_buffer_size b') = unat (connection_buffer_size b) + length bs"
    unfolding b'_def by (rule size_put) (rule assms)
  have len: "length (data b') = 256"
    using assms(2) d by (simp add: b'_def length_ring_write)
  with sz assms(2) show "cb_ok b'" by (simp add: cb_ok_def)
  have "contents b' = ring_read (data b') (unat (tail b)) (unat (connection_buffer_size b) + length bs)"
    using sz by (simp add: contents_def b'_def)
  then show "contents b' = contents b @ bs"
    using ring_read_write [OF d assms(2), of "unat (head b) mod 256" "unat (tail b)"] head_pos [of b]
    by (simp add: b'_def contents_def)
qed

lemma connection_buffer_put_ok:
  assumes "cb_ok b" and "unat (connection_buffer_size b) + length bs \<le> 256"
  shows "\<exists>b'. connection_buffer_put b bs s = Some (0, b', s) \<and> cb_ok b' \<and> contents b' = contents b @ bs"
proof -
  define h where "h = unat (head b) mod 256"
  have d: "length (data b) = 256" and h: "h < 256" using assms by (auto simp: cb_ok_def h_def)
  have "connection_buffer_put b bs s
      = Some (0, b\<lparr>data := ring_write (data b) h bs, head := head b + of_nat (length bs)\<rparr>, s)"
    using assms(2) d h
    by (auto simp: connection_buffer_put_def unat_mask h_def [symmetric] memcpy_to_def ring_write_def
        drop_take Let_def)
  with contents_ring_write [OF assms] show ?thesis by (auto simp: h_def)
qed

lemma connection_buffer_put_too_long:
  "256 < length bs \<Longrightarrow> connection_buffer_put b bs s = Some (- 1, b, s\<lparr>errno := EOVERFLOW\<rparr>)"
  by (simp add: connection_buffer_put_def)

lemma contents_Nil_iff: "contents b = [] \<longleftrightarrow> unat (connection_buffer_size b) = 0"
  by (metis length_0_conv length_contents)

section \<open>I/O vectors\<close>

lemma get_iov_cases:
  fixes t n h :: nat
  assumes "h = (t + n) mod 256" "t < 256" "0 < n" "n \<le> 256"
  shows "t < h \<and> n = h - t \<or> \<not> t < h \<and> h = 0 \<and> n = 256 - t \<or> \<not> t < h \<and> h \<noteq> 0 \<and> n = 256 - t + h"
  using assms by (cases "t + n < 256"; cases "t + n < 512") (auto simp: mod_if)

lemma put_iov_cases:
  fixes t n h :: nat
  assumes "h = (t + n) mod 256" "t < 256" "n < 256"
  shows "h < t \<and> n = 256 - (t - h) \<or> \<not> h < t \<and> t = 0 \<and> n = h \<or> \<not> h < t \<and> t \<noteq> 0 \<and> n = h - t"
  using assms by (cases "t + n < 256") (auto simp: mod_if)

lemma gather_get_iov:
  assumes "cb_ok b" and "unat (connection_buffer_size b) \<noteq> 0"
  shows "gather (connection_buffer_get_iov b) (data b) = Some (contents b)"
    and "iov_len (connection_buffer_get_iov b) = unat (connection_buffer_size b)"
proof -
  define t n h where "t = unat (tail b) mod 256" and "n = unat (connection_buffer_size b)"
    and "h = unat (head b) mod 256"
  have d: "length (data b) = 256" and n: "0 < n" "n \<le> 256" using assms by (auto simp: cb_ok_def n_def)
  have h: "h = (t + n) mod 256" "t < 256" "h < 256" using head_pos [of b] by (auto simp: h_def t_def n_def mod_simps)
  have c: "contents b = ring_read (data b) t n" by (simp add: contents_def t_def n_def ring_read_mod)
  from get_iov_cases [OF h(1,2) n]
  show "gather (connection_buffer_get_iov b) (data b) = Some (contents b)"
    using d h(2,3) n by (auto simp: connection_buffer_get_iov_def Let_def unat_mask c t_def [symmetric]
        h_def [symmetric] ring_read_linear ring_read_wrap memcpy_from_def)
  from get_iov_cases [OF h(1,2) n]
  show "iov_len (connection_buffer_get_iov b) = unat (connection_buffer_size b)"
    using d h n by (auto simp: connection_buffer_get_iov_def Let_def unat_mask t_def [symmetric]
        h_def [symmetric] n_def [symmetric] iov_len_def)
qed

lemma scatter_put_iov:
  assumes "cb_ok b" and "unat (connection_buffer_size b) < 256"
  shows "iov_len (connection_buffer_put_iov b) = 256 - unat (connection_buffer_size b)"
    and "length bs \<le> 256 - unat (connection_buffer_size b) \<Longrightarrow>
      scatter (connection_buffer_put_iov b) bs (data b) = Some (ring_write (data b) (unat (head b) mod 256) bs)"
proof -
  define t n h where "t = unat (tail b) mod 256" and "n = unat (connection_buffer_size b)"
    and "h = unat (head b) mod 256"
  have d: "length (data b) = 256" and n: "n < 256" using assms by (auto simp: cb_ok_def n_def)
  have h: "h = (t + n) mod 256" "t < 256" "h < 256"
    using head_pos [of b] by (auto simp: h_def t_def n_def mod_simps)
  from put_iov_cases [OF h(1,2) n]
  show "iov_len (connection_buffer_put_iov b) = 256 - unat (connection_buffer_size b)"
    using h n by (auto simp: connection_buffer_put_iov_def Let_def unat_mask t_def [symmetric]
        h_def [symmetric] n_def [symmetric] iov_len_def)
  assume bs: "length bs \<le> 256 - unat (connection_buffer_size b)"
  have iov: "connection_buffer_put_iov b = (if h < t then [(h, t - h)]
      else if t = 0 then [(h, 256 - h)] else [(h, 256 - h), (0, t)])"
    by (simp add: connection_buffer_put_iov_def Let_def unat_mask t_def h_def)
  have two: "scatter [(h, 256 - h), (0, t)] bs (data b) = Some (ring_write (data b) h bs)"
    if "t \<le> h" "length bs \<le> 256 - h + t"
  proof (cases "h + length bs \<le> 256")
    case True
    then show ?thesis using d h(3) by (simp add: memcpy_to_def ring_write_def)
  next
    case False
    then show ?thesis using that d h(3) by (auto simp: memcpy_to_def ring_write_def drop_take min_def)
  qed
  have one: "scatter [(h, m)] bs (data b) = Some (ring_write (data b) h bs)"
    if "length bs \<le> m" "h + m \<le> 256" for m
    using that d by (simp add: memcpy_to_def ring_write_def)
  from put_iov_cases [OF h(1,2) n]
  have "scatter (connection_buffer_put_iov b) bs (data b) = Some (ring_write (data b) h bs)"
    using bs h(2,3) n one two unfolding iov n_def [symmetric] by auto
  then show "scatter (connection_buffer_put_iov b) bs (data b)
      = Some (ring_write (data b) (unat (head b) mod 256) bs)"
    by (simp add: h_def)
qed

section \<open>Descriptors\<close>

lemma connection_buffer_close_fds_ok:
  assumes "cb_ok b"
  shows "\<exists>b' s'. connection_buffer_close_fds E b s = Some (b', s') \<and> cb_ok b'
    \<and> contents b' = drop (4 * (length (contents b) div 4)) (contents b)
    \<and> s' = close_all E (bytes_ints (contents b)) s"
proof (cases "unat (connection_buffer_size b) = 0")
  case True
  then show ?thesis using assms contents_Nil_iff [of b] by (simp add: connection_buffer_close_fds_def)
next
  case False
  let ?n = "unat (connection_buffer_size b)"
  have "?n \<le> 256" using assms by (simp add: cb_ok_def)
  moreover have "take (?n div 4) (bytes_ints (contents b)) = bytes_ints (contents b)"
    by (rule take_all) (simp add: length_bytes_ints)
  ultimately show ?thesis
    using False connection_buffer_copy_ok [OF assms order_refl] connection_buffer_consume_ok [OF assms, of "?n div 4 * 4"]
    by (auto simp: connection_buffer_close_fds_def Let_def mult.commute)
qed

lemma connection_buffer_close_fds_frame:
  "connection_buffer_close_fds E b s = Some (b', s') \<Longrightarrow> os_frame s s'"
  by (auto simp: connection_buffer_close_fds_def Let_def bind_eq_Some_conv split: if_splits intro: close_all_frame)

lemma build_cmsg_ok: "cb_ok b \<Longrightarrow> build_cmsg b = Some (contents b)"
  by (auto simp: build_cmsg_def Let_def MAX_FDS_def cb_ok_def connection_buffer_copy_ok min_absorb1)
    (metis contents_Nil_iff)

text \<open>The bytes that a history received from the kernel on a descriptor.\<close>

fun received_on :: "int \<Rightarrow> trace \<Rightarrow> bytes" where
  "received_on fd [] = []"
| "received_on fd (E_recvmsg f n (Inr (bs, cs)) # tr) = received_on fd tr @ (if f = fd then bs else [])"
| "received_on fd (ev # tr) = received_on fd tr"

lemma received_on_close_all [simp]: "received_on fd (trace (close_all E fds s)) = received_on fd (trace s)"
  by (induction fds arbitrary: s) (auto simp: sys_close_def Let_def)

lemma received_on_replicate_EINTR [simp]:
  "received_on fd (replicate k (E_recvmsg f n (Inl e)) @ tr) = received_on fd tr"
  by (induction k) auto

lemma decode_cmsg_loop_ok:
  assumes "cb_ok b"
  shows "\<exists>r b' s'. decode_cmsg_loop E b ov ms s = Some (r, b', s') \<and> cb_ok b' \<and> os_frame s s'
    \<and> (\<exists>xs. contents b' = contents b @ xs) \<and> (r = 0 \<or> r = - 1) \<and> (ov \<longrightarrow> r = - 1)
    \<and> (\<forall>fd. received_on fd (trace s') = received_on fd (trace s))"
  using assms
proof (induction ms arbitrary: b ov s)
  case Nil
  then show ?case by auto
next
  case (Cons m ms)
  let ?n = "unat (connection_buffer_size b)"
  have n: "?n \<le> 256" using Cons.prems by (simp add: cb_ok_def)
  have "(256 - int k) mod 2 ^ 64 = 256 - int k" if "k \<le> 256" for k using that by simp
  from this [OF n] have room: "(256 - int ?n) mod 2 ^ 64 = 256 - int ?n" .
  show ?case
  proof (cases "\<not> cmsg_rights m")
    case True
    with Cons show ?thesis by simp
  next
    case rights: False
    show ?thesis
    proof (cases "int (length (cmsg_data m)) > 256 - int ?n \<or> ov")
      case True
      let ?s = "close_all E (take (length (cmsg_data m) div 4) (bytes_ints (cmsg_data m))) s"
      have "decode_cmsg_loop E b ov (m # ms) s = decode_cmsg_loop E b True ms ?s"
        using True rights room by (simp add: Let_def)
      with Cons.IH [OF Cons.prems, of True ?s] show ?thesis
        by (auto intro: os_frame_trans [OF close_all_frame])
    next
      case False
      then have "?n + length (cmsg_data m) \<le> 256" by linarith
      then obtain b1 where b1: "connection_buffer_put b (cmsg_data m) s = Some (0, b1, s)" "cb_ok b1"
          "contents b1 = contents b @ cmsg_data m"
        using connection_buffer_put_ok [OF Cons.prems] by blast
      then have "decode_cmsg_loop E b ov (m # ms) s = decode_cmsg_loop E b1 False ms s"
        using False rights room by (simp add: Let_def)
      with Cons.IH [OF b1(2), of False s] b1(3) show ?thesis using False by auto
    qed
  qed
qed

section \<open>Retried calls\<close>

lemma sendmsg_retry_result:
  assumes "sendmsg_retry E fd bs fds s = Some (r, s')"
  shows "r \<noteq> Inl EINTR \<and> os_frame s s' \<and> (\<exists>k tr. r = k_sendmsg E tr fd bs fds \<and>
    trace s' = E_sendmsg fd bs fds r # replicate k (E_sendmsg fd bs fds (Inl EINTR)) @ trace s)"
proof -
  let ?P = "\<lambda>E fd bs fds s (r, s'). r \<noteq> Inl EINTR \<and> os_frame s s' \<and> (\<exists>k tr. r = k_sendmsg E tr fd bs fds \<and>
    trace s' = E_sendmsg fd bs fds r # replicate k (E_sendmsg fd bs fds (Inl EINTR)) @ trace s)"
  have "?P E fd bs fds s (r, s')"
  proof (rule sendmsg_retry.raw_induct [where P = ?P, OF _ assms])
    fix f E fd bs fds s y
    assume IH: "\<And>E fd bs fds s y. f E fd bs fds s = Some y \<Longrightarrow> ?P E fd bs fds s y"
      and eq: "(case sys_sendmsg E fd bs fds s of (r, s') \<Rightarrow>
        if r = Inl EINTR then f E fd bs fds s' else Some (r, s')) = Some y"
    define q where "q = k_sendmsg E (trace s) fd bs fds"
    define t where "t = note_result q (E_sendmsg fd bs fds q) s"
    have call: "sys_sendmsg E fd bs fds s = (q, t)" by (simp add: sys_sendmsg_def Let_def q_def t_def)
    have fr: "os_frame s t" by (simp add: t_def os_frame_note_result)
    obtain ry sy where y: "y = (ry, sy)" by force
    show "?P E fd bs fds s y"
    proof (cases "q = Inl EINTR")
      case True
      with eq call have "f E fd bs fds t = Some (ry, sy)" by (simp add: y)
      from IH [OF this] obtain k tr where "ry \<noteq> Inl EINTR" "os_frame t sy" "ry = k_sendmsg E tr fd bs fds"
          "trace sy = E_sendmsg fd bs fds ry # replicate k (E_sendmsg fd bs fds (Inl EINTR)) @ trace t"
        by auto
      moreover have "replicate k (E_sendmsg fd bs fds (Inl EINTR)) @ trace t
          = replicate (Suc k) (E_sendmsg fd bs fds (Inl EINTR)) @ trace s"
        using True by (simp add: t_def replicate_app_Cons_same)
      ultimately show ?thesis using y os_frame_trans [OF fr] by (auto intro!: exI [of _ "Suc k"])
    next
      case False
      with eq call have "y = (q, t)" by simp
      with False fr show ?thesis by (auto simp: t_def q_def intro!: exI [of _ 0])
    qed
  qed
  then show ?thesis by simp
qed

lemma recvmsg_retry_result:
  assumes "recvmsg_retry E fd n s = Some (r, s')"
  shows "r \<noteq> Inl EINTR \<and> os_frame s s' \<and> (\<exists>k tr. r = k_recvmsg E tr fd n \<and>
    trace s' = E_recvmsg fd n r # replicate k (E_recvmsg fd n (Inl EINTR)) @ trace s)"
proof -
  let ?P = "\<lambda>E fd n s (r, s'). r \<noteq> Inl EINTR \<and> os_frame s s' \<and> (\<exists>k tr. r = k_recvmsg E tr fd n \<and>
    trace s' = E_recvmsg fd n r # replicate k (E_recvmsg fd n (Inl EINTR)) @ trace s)"
  have "?P E fd n s (r, s')"
  proof (rule recvmsg_retry.raw_induct [where P = ?P, OF _ assms])
    fix f E fd n s y
    assume IH: "\<And>E fd n s y. f E fd n s = Some y \<Longrightarrow> ?P E fd n s y"
      and eq: "(case sys_recvmsg E fd n s of (r, s') \<Rightarrow>
        if r = Inl EINTR then f E fd n s' else Some (r, s')) = Some y"
    define q where "q = k_recvmsg E (trace s) fd n"
    define t where "t = note_result q (E_recvmsg fd n q) s"
    have call: "sys_recvmsg E fd n s = (q, t)" by (simp add: sys_recvmsg_def Let_def q_def t_def)
    have fr: "os_frame s t" by (simp add: t_def os_frame_note_result)
    obtain ry sy where y: "y = (ry, sy)" by force
    show "?P E fd n s y"
    proof (cases "q = Inl EINTR")
      case True
      with eq call have "f E fd n t = Some (ry, sy)" by (simp add: y)
      from IH [OF this] obtain k tr where "ry \<noteq> Inl EINTR" "os_frame t sy" "ry = k_recvmsg E tr fd n"
          "trace sy = E_recvmsg fd n ry # replicate k (E_recvmsg fd n (Inl EINTR)) @ trace t"
        by auto
      moreover have "replicate k (E_recvmsg fd n (Inl EINTR)) @ trace t
          = replicate (Suc k) (E_recvmsg fd n (Inl EINTR)) @ trace s"
        using True by (simp add: t_def replicate_app_Cons_same)
      ultimately show ?thesis using y os_frame_trans [OF fr] by (auto intro!: exI [of _ "Suc k"])
    next
      case False
      with eq call have "y = (q, t)" by simp
      with False fr show ?thesis by (auto simp: t_def q_def intro!: exI [of _ 0])
    qed
  qed
  then show ?thesis by simp
qed

lemma sendmsg_retry_returns:
  assumes "send_not_interrupted_forever E"
  shows "\<exists>r s'. sendmsg_retry E fd bs fds s = Some (r, s')"
proof -
  let ?ev = "E_sendmsg fd bs fds (Inl EINTR)"
  from assms obtain n where "k_sendmsg E (replicate n ?ev @ trace s) fd bs fds \<noteq> Inl EINTR"
    unfolding send_not_interrupted_forever_def by blast
  then show ?thesis
  proof (induction n arbitrary: s)
    case 0
    then show ?case by (subst sendmsg_retry.simps) (simp add: sys_sendmsg_def Let_def)
  next
    case (Suc n)
    define q where "q = k_sendmsg E (trace s) fd bs fds"
    define t where "t = note_result q (E_sendmsg fd bs fds q) s"
    have call: "sys_sendmsg E fd bs fds s = (q, t)" by (simp add: sys_sendmsg_def Let_def q_def t_def)
    show ?case
    proof (cases "q = Inl EINTR")
      case True
      have "k_sendmsg E (replicate n ?ev @ trace t) fd bs fds \<noteq> Inl EINTR"
        using Suc.prems True by (simp add: t_def replicate_app_Cons_same)
      from Suc.IH [OF this] show ?thesis
        by (subst sendmsg_retry.simps) (simp add: call True)
    qed (subst sendmsg_retry.simps, simp add: call)
  qed
qed

lemma recvmsg_retry_returns:
  assumes "recv_not_interrupted_forever E"
  shows "\<exists>r s'. recvmsg_retry E fd m s = Some (r, s')"
proof -
  let ?ev = "E_recvmsg fd m (Inl EINTR)"
  from assms obtain n where "k_recvmsg E (replicate n ?ev @ trace s) fd m \<noteq> Inl EINTR"
    unfolding recv_not_interrupted_forever_def by blast
  then show ?thesis
  proof (induction n arbitrary: s)
    case 0
    then show ?case by (subst recvmsg_retry.simps) (simp add: sys_recvmsg_def Let_def)
  next
    case (Suc n)
    define q where "q = k_recvmsg E (trace s) fd m"
    define t where "t = note_result q (E_recvmsg fd m q) s"
    have call: "sys_recvmsg E fd m s = (q, t)" by (simp add: sys_recvmsg_def Let_def q_def t_def)
    show ?case
    proof (cases "q = Inl EINTR")
      case True
      have "k_recvmsg E (replicate n ?ev @ trace t) fd m \<noteq> Inl EINTR"
        using Suc.prems True by (simp add: t_def replicate_app_Cons_same)
      from Suc.IH [OF this] show ?thesis
        by (subst recvmsg_retry.simps) (simp add: call True)
    qed (subst recvmsg_retry.simps, simp add: call)
  qed
qed

section \<open>Flushing\<close>

text \<open>The bytes that a history passed to the kernel on a descriptor.\<close>

fun sent_on :: "int \<Rightarrow> trace \<Rightarrow> bytes" where
  "sent_on fd [] = []"
| "sent_on fd (E_sendmsg f bs fds (Inr n) # tr) = sent_on fd tr @ (if f = fd then take n bs else [])"
| "sent_on fd (ev # tr) = sent_on fd tr"

definition conn_ok :: "connection \<Rightarrow> bool" where
  "conn_ok c \<longleftrightarrow> cb_ok (conn_in c) \<and> cb_ok (conn_out c) \<and> cb_ok (fds_in c) \<and> cb_ok (fds_out c)
     \<and> 4 dvd length (contents (fds_out c))"

lemma sent_on_replicate_EINTR [simp]:
  "sent_on fd (replicate k (E_sendmsg f bs fds (Inl e)) @ tr) = sent_on fd tr"
  by (induction k) auto

lemma sent_on_close_all [simp]: "sent_on fd (trace (close_all E fds s)) = sent_on fd (trace s)"
  by (induction fds arbitrary: s) (auto simp: sys_close_def Let_def)

text \<open>One round of the loop.\<close>

definition flush_round :: "env \<Rightarrow> connection \<Rightarrow> 'a os_scheme \<Rightarrow> (bool \<times> connection \<times> 'a os_scheme) option" where
  "flush_round E c s = do {
     bs \<leftarrow> gather (connection_buffer_get_iov (conn_out c)) (data (conn_out c));
     fds \<leftarrow> build_cmsg (fds_out c);
     (r, s) \<leftarrow> sendmsg_retry E (conn_fd c) bs fds s;
     (case r of Inl _ \<Rightarrow> Some (False, c, s)
      | Inr len \<Rightarrow> do {
          (b, s) \<leftarrow> connection_buffer_close_fds E (fds_out c) s;
          Some (True, c\<lparr>fds_out := b,
               conn_out := (conn_out c)\<lparr>tail := tail (conn_out c) + of_nat len\<rparr>\<rparr>, s) }) }"

lemma flush_loop_round:
  "flush_loop E c s = (if head (conn_out c) - tail (conn_out c) \<noteq> 0 then do {
       (go, c, s) \<leftarrow> flush_round E c s;
       if go then flush_loop E c s else Some (- 1, c, s) }
     else Some (0, c, s))"
  by (subst flush_loop.simps)
    (auto simp: flush_round_def split: sum.splits intro!: Option.bind_cong)

lemma flush_round_ok:
  assumes c: "conn_ok c" and E: "send_progress E" and ne: "contents (conn_out c) \<noteq> []"
    and call: "flush_round E c s = Some (go, c', s')"
  shows "conn_ok c' \<and> os_frame s s' \<and> conn_fd c' = conn_fd c \<and> conn_in c' = conn_in c
      \<and> fds_in c' = fds_in c \<and> want_flush c' = want_flush c
      \<and> head (conn_out c') = head (conn_out c)
      \<and> sent_on (conn_fd c) (trace s') @ contents (conn_out c') = sent_on (conn_fd c) (trace s) @ contents (conn_out c)"
    and "go \<Longrightarrow> length (contents (conn_out c')) < length (contents (conn_out c)) \<and> contents (fds_out c') = []"
    and "\<not> go \<Longrightarrow> c' = c"
proof -
  have ok: "cb_ok (conn_out c)" "cb_ok (fds_out c)" using c by (auto simp: conn_ok_def)
  let ?bs = "contents (conn_out c)" and ?fds = "contents (fds_out c)"
  from call obtain r s1 where r: "sendmsg_retry E (conn_fd c) ?bs ?fds s = Some (r, s1)"
    and rest: "(case r of Inl _ \<Rightarrow> Some (False, c, s1)
      | Inr len \<Rightarrow> do { (b, s) \<leftarrow> connection_buffer_close_fds E (fds_out c) s1;
          Some (True, c\<lparr>fds_out := b, conn_out := (conn_out c)\<lparr>tail := tail (conn_out c) + of_nat len\<rparr>\<rparr>, s) })
      = Some (go, c', s')"
    using gather_get_iov(1) [OF ok(1)] build_cmsg_ok [OF ok(2)] ne
    by (auto simp: flush_round_def contents_Nil_iff bind_eq_Some_conv)
  from sendmsg_retry_result [OF r] obtain k tr where fr: "os_frame s s1" and kr: "r = k_sendmsg E tr (conn_fd c) ?bs ?fds"
    and tr: "trace s1 = E_sendmsg (conn_fd c) ?bs ?fds r # replicate k (E_sendmsg (conn_fd c) ?bs ?fds (Inl EINTR)) @ trace s"
    by blast
  have *: "(conn_ok c' \<and> os_frame s s' \<and> conn_fd c' = conn_fd c \<and> conn_in c' = conn_in c
      \<and> fds_in c' = fds_in c \<and> want_flush c' = want_flush c \<and> head (conn_out c') = head (conn_out c)
      \<and> sent_on (conn_fd c) (trace s') @ contents (conn_out c') = sent_on (conn_fd c) (trace s) @ contents (conn_out c))
      \<and> (go \<longrightarrow> length (contents (conn_out c')) < length (contents (conn_out c)) \<and> contents (fds_out c') = [])
      \<and> (\<not> go \<longrightarrow> c' = c)"
  proof (cases r)
    case (Inl e)
    with rest c fr tr show ?thesis by auto
  next
    case (Inr len)
    with E kr ne have len: "0 < len" "len \<le> length ?bs"
      unfolding send_progress_def by (metis, metis)
    obtain b s2 where b: "connection_buffer_close_fds E (fds_out c) s1 = Some (b, s2)" "cb_ok b"
        "contents b = drop (4 * (length ?fds div 4)) ?fds" "s2 = close_all E (bytes_ints ?fds) s1"
      using connection_buffer_close_fds_ok [OF ok(2)] by blast
    have bNil: "contents b = []" using b(3) c by (auto simp: conn_ok_def)
    let ?o = "connection_buffer_consume (conn_out c) len"
    have o: "cb_ok ?o" "contents ?o = drop len ?bs" "head ?o = head (conn_out c)"
      using connection_buffer_consume_ok [OF ok(1), of len] len(2) by (auto simp: connection_buffer_consume_def)
    from rest Inr b(1) have res: "go" "c' = c\<lparr>fds_out := b, conn_out := ?o\<rparr>" "s' = s2"
      by (auto simp: connection_buffer_consume_def)
    have "os_frame s s2" using b(4) os_frame_trans [OF fr close_all_frame] by simp
    moreover have "sent_on (conn_fd c) (trace s2) = sent_on (conn_fd c) (trace s) @ take len ?bs"
      using b(4) tr Inr by simp
    ultimately show ?thesis using res o c b(2) bNil len by (simp add: conn_ok_def)
  qed
  from * show "conn_ok c' \<and> os_frame s s' \<and> conn_fd c' = conn_fd c \<and> conn_in c' = conn_in c
      \<and> fds_in c' = fds_in c \<and> want_flush c' = want_flush c \<and> head (conn_out c') = head (conn_out c)
      \<and> sent_on (conn_fd c) (trace s') @ contents (conn_out c') = sent_on (conn_fd c) (trace s) @ contents (conn_out c)"
    by blast
  from * show "go \<Longrightarrow> length (contents (conn_out c')) < length (contents (conn_out c)) \<and> contents (fds_out c') = []"
    and "\<not> go \<Longrightarrow> c' = c" by blast+
qed


text \<open>What a flush leaves behind, finished or not.\<close>

definition flushed :: "connection \<Rightarrow> 'a os_scheme \<Rightarrow> connection \<Rightarrow> 'a os_scheme \<Rightarrow> bool" where
  "flushed c s c' s' \<longleftrightarrow> conn_ok c' \<and> os_frame s s' \<and> conn_fd c' = conn_fd c \<and> conn_in c' = conn_in c
     \<and> fds_in c' = fds_in c \<and> head (conn_out c') = head (conn_out c)
     \<and> sent_on (conn_fd c) (trace s') @ contents (conn_out c')
       = sent_on (conn_fd c) (trace s) @ contents (conn_out c)"

lemma flushed_refl: "conn_ok c \<Longrightarrow> flushed c s c s"
  by (simp add: flushed_def)

lemma flushed_trans: "flushed c s c1 s1 \<Longrightarrow> flushed c1 s1 c' s' \<Longrightarrow> flushed c s c' s'"
  by (auto simp: flushed_def intro: os_frame_trans)

lemma nonempty_iff: "head b = tail b \<longleftrightarrow> contents b = []"
  by (simp add: contents_Nil_iff connection_buffer_size_def unat_eq_0)

lemma flush_loop_ok:
  assumes "conn_ok c" and "send_progress E" and "flush_loop E c s = Some (r, c', s')"
  shows "flushed c s c' s' \<and> want_flush c' = want_flush c
    \<and> (r = 0 \<and> contents (conn_out c') = [] \<or> r = - 1 \<and> contents (conn_out c') \<noteq> [])"
  using assms
proof (induction "length (contents (conn_out c))" arbitrary: c s rule: less_induct)
  case less
  show ?case
  proof (cases "contents (conn_out c) = []")
    case True
    with less.prems show ?thesis by (simp add: flush_loop_round [of E c s] nonempty_iff flushed_refl)
  next
    case False
    then obtain go c1 s1 where rnd: "flush_round E c s = Some (go, c1, s1)"
      and rest: "(if go then flush_loop E c1 s1 else Some (- 1, c1, s1)) = Some (r, c', s')"
      using less.prems(3) by (auto simp: flush_loop_round [of E c s] nonempty_iff bind_eq_Some_conv)
    note ok = flush_round_ok [OF less.prems(1,2) False rnd]
    from ok(1) have f1: "flushed c s c1 s1" "want_flush c1 = want_flush c" "conn_ok c1"
      by (auto simp: flushed_def)
    show ?thesis
    proof (cases go)
      case True
      with less.hyps [of c1 s1] ok(2) less.prems(2) rest f1 show ?thesis
        using flushed_trans [OF f1(1)] by auto
    next
      case False
      with rest ok(3) f1 \<open>contents (conn_out c) \<noteq> []\<close> show ?thesis by auto
    qed
  qed
qed

lemma flush_loop_returns:
  assumes "conn_ok c" and "send_progress E" and "send_not_interrupted_forever E"
  shows "\<exists>r c' s'. flush_loop E c s = Some (r, c', s')"
  using assms(1)
proof (induction "length (contents (conn_out c))" arbitrary: c s rule: less_induct)
  case less
  show ?case
  proof (cases "contents (conn_out c) = []")
    case True
    then show ?thesis by (simp add: flush_loop_round [of E c s] nonempty_iff)
  next
    case False
    have ok: "cb_ok (conn_out c)" "cb_ok (fds_out c)" using less.prems by (auto simp: conn_ok_def)
    obtain r s1 where "sendmsg_retry E (conn_fd c) (contents (conn_out c)) (contents (fds_out c)) s = Some (r, s1)"
      using sendmsg_retry_returns [OF assms(3)] by blast
    moreover obtain b s2 where "connection_buffer_close_fds E (fds_out c) s1 = Some (b, s2)"
      using connection_buffer_close_fds_ok [OF ok(2), of E s1] by blast
    ultimately have "flush_round E c s \<noteq> None"
      using gather_get_iov(1) [OF ok(1)] build_cmsg_ok [OF ok(2)] False
      by (cases r) (simp_all add: flush_round_def contents_Nil_iff)
    then obtain go c1 s2 where rnd: "flush_round E c s = Some (go, c1, s2)" by auto
    note ok = flush_round_ok [OF less.prems assms(2) False rnd]
    have "\<exists>r c' s'. (if go then flush_loop E c1 s2 else Some (- 1, c1, s2)) = Some (r, c', s')"
      using ok less.hyps [of c1 s2] by auto
    with False rnd show ?thesis
      by (auto simp: flush_loop_round [of E c s] nonempty_iff)
  qed
qed

lemma sint_small: "unat (w :: u32) \<le> 256 \<Longrightarrow> sint w = int (unat w)"
proof -
  assume w: "unat w \<le> 256"
  have u: "int (unat w) = uint w" by simp
  then have "uint w \<le> 256" using w by linarith
  then have "uint w < 2 ^ 31" by simp
  moreover have "- (2 ^ 31) \<le> uint w" by (rule order_trans [of _ 0]) simp_all
  ultimately have "signed_take_bit 31 (uint w) = uint w" by (intro signed_take_bit_int_eq_self)
  moreover have "sint w = signed_take_bit 31 (uint w)" by (simp add: sint_uint)
  ultimately show ?thesis using u by (simp only:)
qed

lemma connection_flush_ok:
  assumes "conn_ok c" and "send_progress E" and "connection_flush E c s = Some (r, c', s')"
  shows "flushed c s c' s'
    \<and> (r = - 1 \<and> want_flush c' \<and> contents (conn_out c') \<noteq> []
      \<or> r = (if want_flush c then int (length (contents (conn_out c))) else 0)
        \<and> \<not> want_flush c' \<and> (want_flush c \<longrightarrow> contents (conn_out c') = []))"
proof (cases "want_flush c")
  case False
  with assms show ?thesis by (simp add: connection_flush_def flushed_refl)
next
  case True
  with assms(3) obtain r1 c1 s1 where loop: "flush_loop E c s = Some (r1, c1, s1)"
    and res: "(r, c', s') = (if r1 = - 1 then (- 1, c1, s1)
        else (sint (head (conn_out c1) - tail (conn_out c)), c1\<lparr>want_flush := False\<rparr>, s1))"
    by (auto simp: connection_flush_def Let_def bind_eq_Some_conv split: if_splits)
  note ok = flush_loop_ok [OF assms(1,2) loop]
  then have "head (conn_out c1) - tail (conn_out c) = connection_buffer_size (conn_out c)"
    by (simp add: flushed_def connection_buffer_size_def)
  moreover have "unat (connection_buffer_size (conn_out c)) \<le> 256"
    using assms(1) by (simp add: conn_ok_def cb_ok_def)
  ultimately show ?thesis
    using ok res True by (auto simp: sint_small flushed_def conn_ok_def split: if_splits)
qed

lemma connection_flush_returns:
  assumes "conn_ok c" and "send_progress E" and "send_not_interrupted_forever E"
  shows "\<exists>r c' s'. connection_flush E c s = Some (r, c', s')"
  using flush_loop_returns [OF assms, of s] by (auto simp: connection_flush_def Let_def)

section \<open>Putting, getting, reading\<close>

lemma connection_put_ok:
  assumes c: "conn_ok c" and E: "send_progress E" and call: "connection_put E c bs s = Some (r, c', s')"
  shows "conn_ok c' \<and> os_frame s s' \<and> conn_fd c' = conn_fd c \<and> conn_in c' = conn_in c \<and> fds_in c' = fds_in c
    \<and> (r = 0 \<and> length bs \<le> 256 \<and> want_flush c'
         \<and> sent_on (conn_fd c) (trace s') @ contents (conn_out c')
           = sent_on (conn_fd c) (trace s) @ contents (conn_out c) @ bs
       \<or> r = - 1 \<and> sent_on (conn_fd c) (trace s') @ contents (conn_out c')
           = sent_on (conn_fd c) (trace s) @ contents (conn_out c))"
proof -
  let ?big = "unat (connection_buffer_size (conn_out c)) + length bs > 256"
  have ok': "conn_ok (c\<lparr>want_flush := True\<rparr>)" using c by (simp add: conn_ok_def)
  from call obtain r1 c1 s1 where
      f: "(if ?big then connection_flush E (c\<lparr>want_flush := True\<rparr>) s else Some (0, c, s)) = Some (r1, c1, s1)"
    and rest: "(if r1 = - 1 then Some (- 1, c1, s1) else do {
       (r, b, s) \<leftarrow> connection_buffer_put (conn_out c1) bs s1;
       if r = - 1 then Some (- 1, c1\<lparr>conn_out := b\<rparr>, s)
       else Some (0, c1\<lparr>conn_out := b, want_flush := True\<rparr>, s) }) = Some (r, c', s')"
    by (auto simp: connection_put_def bind_eq_Some_conv)
  have fl: "flushed c s c1 s1 \<and> (r1 \<noteq> - 1 \<longrightarrow> \<not> ?big \<and> conn_out c1 = conn_out c \<or> contents (conn_out c1) = [])"
  proof (cases ?big)
    case True
    with f connection_flush_ok [OF ok' E] have "flushed (c\<lparr>want_flush := True\<rparr>) s c1 s1"
        "r1 \<noteq> - 1 \<longrightarrow> contents (conn_out c1) = []" by fastforce+
    then show ?thesis by (simp add: flushed_def)
  next
    case False
    with f c show ?thesis by (auto simp: flushed_refl)
  qed
  then have c1: "conn_ok c1" "cb_ok (conn_out c1)" by (auto simp: flushed_def conn_ok_def)
  show ?thesis
  proof (cases "r1 = - 1")
    case True
    with rest fl show ?thesis by (auto simp: flushed_def)
  next
    case False
    show ?thesis
    proof (cases "length bs \<le> 256")
      case True
      have "unat (connection_buffer_size (conn_out c1)) + length bs \<le> 256"
        using fl False True by (auto simp: contents_Nil_iff)
      from connection_buffer_put_ok [OF c1(2) this, of s1] obtain b where
          b: "connection_buffer_put (conn_out c1) bs s1 = Some (0, b, s1)" "cb_ok b" "contents b = contents (conn_out c1) @ bs"
        by blast
      with rest False have "r = 0" "c' = c1\<lparr>conn_out := b, want_flush := True\<rparr>" "s' = s1" by auto
      with b fl True c1 show ?thesis by (auto simp: flushed_def conn_ok_def)
    next
      case long: False
      with rest False connection_buffer_put_too_long [of bs "conn_out c1" s1]
      have "r = - 1" "c' = c1" "s' = s1\<lparr>errno := EOVERFLOW\<rparr>" by auto
      with fl show ?thesis by (auto simp: flushed_def)
    qed
  qed
qed

lemma connection_put_returns:
  assumes "conn_ok c" and "send_progress E" and "send_not_interrupted_forever E"
  shows "\<exists>r c' s'. connection_put E c bs s = Some (r, c', s')"
proof -
  have ok': "conn_ok (c\<lparr>want_flush := True\<rparr>)" using assms(1) by (simp add: conn_ok_def)
  let ?big = "unat (connection_buffer_size (conn_out c)) + length bs > 256"
  obtain r1 c1 s1 where f: "(if ?big then connection_flush E (c\<lparr>want_flush := True\<rparr>) s else Some (0, c, s)) = Some (r1, c1, s1)"
    using connection_flush_returns [OF ok' assms(2,3), of s] by (cases ?big) auto
  then have c1: "cb_ok (conn_out c1)" "r1 \<noteq> - 1 \<longrightarrow> \<not> ?big \<and> conn_out c1 = conn_out c \<or> contents (conn_out c1) = []"
    using connection_flush_ok [OF ok' assms(2)] assms(1) by (fastforce simp: flushed_def conn_ok_def split: if_splits)+
  have "connection_buffer_put (conn_out c1) bs s1 \<noteq> None" if "r1 \<noteq> - 1"
  proof (cases "length bs \<le> 256")
    case True
    with c1 that have "unat (connection_buffer_size (conn_out c1)) + length bs \<le> 256"
      by (auto simp: contents_Nil_iff)
    from connection_buffer_put_ok [OF c1(1) this, of s1] show ?thesis by auto
  qed (simp add: connection_buffer_put_too_long)
  with f show ?thesis by (auto simp: connection_put_def)
qed

lemma connection_put_fd_ok:
  assumes "conn_ok c"
  shows "\<exists>r c' s'. connection_put_fd c fd s = Some (r, c', s') \<and> conn_ok c' \<and> os_frame s s' \<and> trace s' = trace s
    \<and> conn_fd c' = conn_fd c \<and> conn_in c' = conn_in c \<and> fds_in c' = fds_in c \<and> conn_out c' = conn_out c
    \<and> (r = 0 \<and> contents (fds_out c') = contents (fds_out c) @ int_bytes fd \<or> r = - 1 \<and> c' = c
       \<and> length (contents (fds_out c)) = 256)"
proof (cases "unat (connection_buffer_size (fds_out c)) \<ge> 256")
  case True
  with assms show ?thesis by (auto simp: connection_put_fd_def MAX_FDS_def conn_ok_def cb_ok_def)
next
  case False
  have ok: "cb_ok (fds_out c)" "4 dvd unat (connection_buffer_size (fds_out c))"
    using assms by (auto simp: conn_ok_def)
  have "unat (connection_buffer_size (fds_out c)) + length (int_bytes fd) \<le> 256"
    using ok(2) False by (auto elim!: dvdE)
  from connection_buffer_put_ok [OF ok(1) this, of s] obtain b where
      "connection_buffer_put (fds_out c) (int_bytes fd) s = Some (0, b, s)" "cb_ok b"
      "contents b = contents (fds_out c) @ int_bytes fd"
    by blast
  with False assms show ?thesis
    by (auto simp: connection_put_fd_def MAX_FDS_def conn_ok_def simp del: length_contents)
qed

lemma connection_get_ok:
  assumes "conn_ok c"
  shows "connection_get c n s = (if n \<le> length (contents (conn_in c))
      then Some (Some (take n (contents (conn_in c))), c\<lparr>conn_in := connection_buffer_consume (conn_in c) n\<rparr>, s)
      else Some (None, c, s\<lparr>errno := EAGAIN\<rparr>))"
  using assms connection_buffer_copy_ok [of "conn_in c" n] by (simp add: connection_get_def conn_ok_def)

lemma connection_get_conn_ok:
  assumes "conn_ok c" and "connection_get c n s = Some (r, c', s')"
  shows "conn_ok c' \<and> conn_fd c' = conn_fd c \<and> conn_out c' = conn_out c \<and> fds_in c' = fds_in c
    \<and> fds_out c' = fds_out c \<and> want_flush c' = want_flush c \<and> os_frame s s' \<and> trace s' = trace s
    \<and> (case r of None \<Rightarrow> c' = c \<and> length (contents (conn_in c)) < n
       | Some bs \<Rightarrow> contents (conn_in c) = bs @ contents (conn_in c') \<and> length bs = n \<and> s' = s)"
  using assms connection_buffer_consume_ok [of "conn_in c" n]
  by (auto simp: connection_get_ok conn_ok_def split: if_splits)

lemma connection_get_fd_ok:
  assumes "conn_ok c"
  shows "connection_get_fd c s = (if 4 \<le> length (contents (fds_in c))
      then Some (Some (bytes_int (take 4 (contents (fds_in c)))),
        c\<lparr>fds_in := connection_buffer_consume (fds_in c) 4\<rparr>, s)
      else Some (None, c, s\<lparr>errno := EAGAIN\<rparr>))"
  using assms connection_buffer_copy_ok [of "fds_in c" 4] by (simp add: connection_get_fd_def conn_ok_def)

lemma connection_get_fd_conn_ok:
  assumes "conn_ok c" and "connection_get_fd c s = Some (r, c', s')"
  shows "conn_ok c' \<and> os_frame s s' \<and> conn_fd c' = conn_fd c"
  using assms connection_buffer_consume_ok [of "fds_in c" 4]
  by (auto simp: connection_get_fd_ok conn_ok_def split: if_splits)

text \<open>Getting and putting back.\<close>

lemma connection_restore_get:
  assumes "conn_ok c" and "connection_get c n s = Some (Some bs, c', s')"
  shows "connection_restore c' n = c"
  using assms by (auto simp: connection_get_ok connection_restore_def split: if_splits)

lemma connection_close_fds_ok:
  assumes "conn_ok c"
  shows "\<exists>c' s'. connection_close_fds E c s = Some (c', s') \<and> conn_ok c' \<and> os_frame s s'
    \<and> conn_fd c' = conn_fd c \<and> conn_in c' = conn_in c \<and> conn_out c' = conn_out c \<and> want_flush c' = want_flush c
    \<and> contents (fds_out c') = []
    \<and> closed_fds (trace s') = rev (bytes_ints (contents (fds_out c))) @ rev (bytes_ints (contents (fds_in c)))
        @ closed_fds (trace s)"
proof -
  have ok: "cb_ok (fds_in c)" "cb_ok (fds_out c)" "4 dvd length (contents (fds_out c))"
    using assms by (auto simp: conn_ok_def)
  from connection_buffer_close_fds_ok [OF ok(1), of E s] obtain b1 s1 where
      1: "connection_buffer_close_fds E (fds_in c) s = Some (b1, s1)" "cb_ok b1"
        "s1 = close_all E (bytes_ints (contents (fds_in c))) s" by blast
  from connection_buffer_close_fds_ok [OF ok(2), of E s1] obtain b2 s2 where
      2: "connection_buffer_close_fds E (fds_out c) s1 = Some (b2, s2)" "cb_ok b2"
        "s2 = close_all E (bytes_ints (contents (fds_out c))) s1" "contents b2 = []"
    using ok(3) by auto
  have "os_frame s s2"
    using connection_buffer_close_fds_frame [OF 1(1)] connection_buffer_close_fds_frame [OF 2(1)]
    by (rule os_frame_trans)
  with 1 2 assms show ?thesis
    by (auto simp: connection_close_fds_def conn_ok_def closed_fds_close_all contents_Nil_iff)
qed

lemma contents_free_write:
  assumes "cb_ok b" and "unat (connection_buffer_size b) + length bs \<le> 256"
  shows "cb_ok (b\<lparr>data := ring_write (data b) (unat (head b) mod 256) bs\<rparr>)"
    and "contents (b\<lparr>data := ring_write (data b) (unat (head b) mod 256) bs\<rparr>) = contents b"
proof -
  let ?d = "ring_write (data b) (unat (head b) mod 256) bs"
  have d: "length (data b) = 256" using assms by (simp add: cb_ok_def)
  show "cb_ok (b\<lparr>data := ?d\<rparr>)"
    using assms d by (simp add: cb_ok_def connection_buffer_size_def length_ring_write)
  have "ring_read ?d (unat (tail b)) (unat (connection_buffer_size b) + length bs) = contents b @ bs"
    using ring_read_write [OF d assms(2), of "unat (head b) mod 256" "unat (tail b)"] head_pos [of b]
    by (simp add: contents_def)
  then have "take (length (contents b)) (ring_read ?d (unat (tail b)) (unat (connection_buffer_size b) + length bs)) = contents b"
    by simp
  then show "contents (b\<lparr>data := ?d\<rparr>) = contents b"
    by (simp add: contents_def ring_read_take connection_buffer_size_def)
qed

lemma connection_read_ok:
  assumes c: "conn_ok c" and E: "recv_bounded E" and call: "connection_read E c s = Some (r, c', s')"
  shows "conn_ok c' \<and> os_frame s s' \<and> conn_fd c' = conn_fd c \<and> conn_out c' = conn_out c \<and> fds_out c' = fds_out c
    \<and> want_flush c' = want_flush c
    \<and> (r = - 1 \<and> contents (conn_in c') = contents (conn_in c)
       \<or> r = int (length (contents (conn_in c'))) \<and> (\<exists>bs. contents (conn_in c') = contents (conn_in c) @ bs
         \<and> received_on (conn_fd c) (trace s') = received_on (conn_fd c) (trace s) @ bs))"
proof (cases "unat (connection_buffer_size (conn_in c)) \<ge> 256")
  case True
  with call c show ?thesis by (auto simp: connection_read_def)
next
  case False
  have ok: "cb_ok (conn_in c)" "cb_ok (fds_in c)" using c by (auto simp: conn_ok_def)
  note iov = scatter_put_iov [OF ok(1)]
  let ?n = "256 - unat (connection_buffer_size (conn_in c))"
  from False have len: "iov_len (connection_buffer_put_iov (conn_in c)) = ?n" using iov by simp
  from call False obtain q s1 where q: "recvmsg_retry E (conn_fd c) ?n s = Some (q, s1)"
    by (auto simp: connection_read_def Let_def len bind_eq_Some_conv)
  from recvmsg_retry_result [OF q] obtain k tr where fr: "os_frame s s1" and kr: "q = k_recvmsg E tr (conn_fd c) ?n"
    and tr: "trace s1 = E_recvmsg (conn_fd c) ?n q # replicate k (E_recvmsg (conn_fd c) ?n (Inl EINTR)) @ trace s"
    by blast
  show ?thesis
  proof (cases q)
    case (Inl e)
    with call False q c fr show ?thesis by (auto simp: connection_read_def Let_def len)
  next
    case (Inr p)
    then obtain bs ms where p: "q = Inr (bs, ms)" by (cases p) auto
    with E kr have bs: "length bs \<le> ?n" unfolding recv_bounded_def by metis
    let ?d = "ring_write (data (conn_in c)) (unat (head (conn_in c)) mod 256) bs"
    have sc: "scatter (connection_buffer_put_iov (conn_in c)) bs (data (conn_in c)) = Some ?d"
      using iov(2) [OF _ bs] False by simp
    have room: "unat (connection_buffer_size (conn_in c)) + length bs \<le> 256" using bs False by simp
    from decode_cmsg_loop_ok [OF ok(2), of E False ms s1] obtain r2 b2 s2 where
        dc: "decode_cmsg E (fds_in c) ms s1 = Some (r2, b2, s2)" "cb_ok b2" "os_frame s1 s2"
          "received_on (conn_fd c) (trace s2) = received_on (conn_fd c) (trace s1)"
      by (auto simp: decode_cmsg_def)
    have fr2: "os_frame s s2" using fr dc(3) by (rule os_frame_trans)
    have rec: "received_on (conn_fd c) (trace s2) = received_on (conn_fd c) (trace s) @ bs"
      using dc(4) tr p by simp
    have sz: "unat (connection_buffer_size ((conn_in c)\<lparr>data := ?d, head := head (conn_in c) + of_nat (length bs)\<rparr>))
        = unat (connection_buffer_size (conn_in c)) + length bs"
      by (rule size_put) (rule room)
    show ?thesis
    proof (cases "r2 = 0")
      case True
      with call False q p sc dc sz room have "r = int (unat (connection_buffer_size (conn_in c)) + length bs)" "s' = s2"
          "c' = c\<lparr>conn_in := (conn_in c)\<lparr>data := ?d, head := head (conn_in c) + of_nat (length bs)\<rparr>, fds_in := b2\<rparr>"
        by (auto simp: connection_read_def Let_def len sint_small)
      with contents_ring_write [OF ok(1) room] c dc(2) fr2 rec show ?thesis
        by (auto simp: conn_ok_def sz)
    next
      case r2: False
      with call False q p sc dc have "r = - 1" "s' = s2" "c' = c\<lparr>conn_in := (conn_in c)\<lparr>data := ?d\<rparr>, fds_in := b2\<rparr>"
        by (auto simp: connection_read_def Let_def len)
      with contents_free_write [OF ok(1) room] c dc(2) fr2 show ?thesis by (auto simp: conn_ok_def)
    qed
  qed
qed

lemma connection_read_returns:
  assumes c: "conn_ok c" and E: "recv_bounded E" "recv_not_interrupted_forever E"
  shows "\<exists>r c' s'. connection_read E c s = Some (r, c', s')"
proof (cases "unat (connection_buffer_size (conn_in c)) \<ge> 256")
  case False
  have ok: "cb_ok (conn_in c)" "cb_ok (fds_in c)" using c by (auto simp: conn_ok_def)
  note iov = scatter_put_iov [OF ok(1)]
  let ?n = "256 - unat (connection_buffer_size (conn_in c))"
  from False have len: "iov_len (connection_buffer_put_iov (conn_in c)) = ?n" using iov by simp
  obtain q s1 where q: "recvmsg_retry E (conn_fd c) ?n s = Some (q, s1)" using recvmsg_retry_returns [OF E(2)] by blast
  show ?thesis
  proof (cases q)
    case (Inl e)
    with False q show ?thesis by (simp add: connection_read_def Let_def len)
  next
    case (Inr p)
    then obtain bs ms where p: "q = Inr (bs, ms)" by (cases p) auto
    with recvmsg_retry_result [OF q] E(1) have bs: "length bs \<le> ?n" unfolding recv_bounded_def by metis
    then obtain d where "scatter (connection_buffer_put_iov (conn_in c)) bs (data (conn_in c)) = Some d"
      using iov(2) [OF _ bs] False by simp
    moreover obtain r2 b2 s2 where "decode_cmsg E (fds_in c) ms s1 = Some (r2, b2, s2)"
      using decode_cmsg_loop_ok [OF ok(2), of E False ms s1] by (auto simp: decode_cmsg_def)
    ultimately show ?thesis using False q p by (simp add: connection_read_def Let_def len)
  qed
qed (simp add: connection_read_def)

section \<open>The contract of a buffer\<close>

text \<open>
  A bounded queue of bytes: what the connection operations rely on, independent of where the
  indices stand.
\<close>

primrec put_all :: "('b \<Rightarrow> bytes \<Rightarrow> 'b option) \<Rightarrow> 'b \<Rightarrow> bytes list \<Rightarrow> 'b option" where
  "put_all put b [] = Some b"
| "put_all put b (m # ms) = do { b \<leftarrow> put b m; put_all put b ms }"

primrec get_all :: "('b \<Rightarrow> nat \<Rightarrow> bytes option) \<Rightarrow> ('b \<Rightarrow> nat \<Rightarrow> 'b) \<Rightarrow> 'b \<Rightarrow> nat list \<Rightarrow>
    (bytes list \<times> 'b) option" where
  "get_all peek drop_front b [] = Some ([], b)"
| "get_all peek drop_front b (n # ns) = do {
     m \<leftarrow> peek b n;
     (ms, b) \<leftarrow> get_all peek drop_front (drop_front b n) ns;
     Some (m # ms, b) }"

locale byte_fifo =
  fixes good :: "'b \<Rightarrow> bool"
    and bytes_of :: "'b \<Rightarrow> bytes"
    and put :: "'b \<Rightarrow> bytes \<Rightarrow> 'b option"
    and peek :: "'b \<Rightarrow> nat \<Rightarrow> bytes option"
    and drop_front :: "'b \<Rightarrow> nat \<Rightarrow> 'b"
    and capacity :: nat
  assumes put_law: "good b \<Longrightarrow> length (bytes_of b) + length bs \<le> capacity \<Longrightarrow>
      \<exists>b'. put b bs = Some b' \<and> good b' \<and> bytes_of b' = bytes_of b @ bs"
    and peek_law: "good b \<Longrightarrow> n \<le> length (bytes_of b) \<Longrightarrow> peek b n = Some (take n (bytes_of b))"
    and drop_law: "good b \<Longrightarrow> n \<le> length (bytes_of b) \<Longrightarrow>
      good (drop_front b n) \<and> bytes_of (drop_front b n) = drop n (bytes_of b)"
begin

lemma put_all_bytes:
  assumes "good b" and "length (bytes_of b) + length (concat ms) \<le> capacity"
  shows "\<exists>b'. put_all put b ms = Some b' \<and> good b' \<and> bytes_of b' = bytes_of b @ concat ms"
  using assms
proof (induction ms arbitrary: b)
  case (Cons m ms)
  obtain b1 where "put b m = Some b1" "good b1" "bytes_of b1 = bytes_of b @ m"
    using put_law [of b m] Cons.prems by auto
  with Cons.IH [of b1] Cons.prems(2) show ?case by auto
qed simp

lemma get_all_bytes:
  assumes "good b" and "bytes_of b = concat ms @ rest"
  shows "\<exists>b'. get_all peek drop_front b (map length ms) = Some (ms, b') \<and> good b' \<and> bytes_of b' = rest"
  using assms
proof (induction ms arbitrary: b)
  case (Cons m ms)
  have n: "length m \<le> length (bytes_of b)" using Cons.prems(2) by simp
  from drop_law [OF Cons.prems(1) n] Cons.prems(2)
  have "good (drop_front b (length m))" "bytes_of (drop_front b (length m)) = concat ms @ rest" by auto
  from Cons.IH [OF this] obtain b' where
      "get_all peek drop_front (drop_front b (length m)) (map length ms) = Some (ms, b')" "good b'" "bytes_of b' = rest"
    by blast
  moreover have "peek b (length m) = Some m"
    using peek_law [OF Cons.prems(1) n] Cons.prems(2) by simp
  ultimately show ?case by simp
qed simp

text \<open>Messages come out as they went in, in order and unchanged.\<close>

lemma put_get_all:
  assumes "good b" and "bytes_of b = []" and "length (concat ms) \<le> capacity"
  shows "\<exists>b1 b2. put_all put b ms = Some b1 \<and> get_all peek drop_front b1 (map length ms) = Some (ms, b2) \<and> bytes_of b2 = []"
proof -
  obtain b1 where b1: "put_all put b ms = Some b1" "good b1" "bytes_of b1 = concat ms @ []"
    using put_all_bytes [of b ms] assms by auto
  with get_all_bytes [OF b1(2,3)] show ?thesis by blast
qed

end

definition buffer_put :: "connection_buffer \<Rightarrow> bytes \<Rightarrow> connection_buffer option" where
  "buffer_put b bs = do {
     (r, b, s) \<leftarrow> connection_buffer_put b bs \<lparr>errno = 0, trace = []\<rparr>;
     if r = 0 then Some b else None }"

interpretation ring: byte_fifo cb_ok contents buffer_put connection_buffer_copy
  connection_buffer_consume CONNECTION_BUFFER_SIZE
proof unfold_locales
  fix b :: connection_buffer and bs :: bytes
  assume "cb_ok b" "length (contents b) + length bs \<le> CONNECTION_BUFFER_SIZE"
  then show "\<exists>b'. buffer_put b bs = Some b' \<and> cb_ok b' \<and> contents b' = contents b @ bs"
    using connection_buffer_put_ok [of b bs "\<lparr>errno = 0, trace = []\<rparr>"] by (auto simp: buffer_put_def)
qed (simp_all add: connection_buffer_copy_ok connection_buffer_consume_ok)

section \<open>Properties\<close>

definition sample_connection :: connection where
  "sample_connection = \<lparr>conn_in = \<lparr>head = 3, tail = 0, data = replicate 256 7\<rparr>,
     conn_out = \<lparr>head = 2, tail = 4294967290, data = replicate 256 1\<rparr>, fds_in = \<lparr>head = 0, tail = 0, data = replicate 256 0\<rparr>,
     fds_out = \<lparr>head = 4, tail = 0, data = replicate 256 0\<rparr>, conn_fd = 5, want_flush = True\<rparr>"

lemma sample_connection_ok: "conn_ok sample_connection"
  by (simp add: conn_ok_def sample_connection_def cb_ok_def connection_buffer_size_def)

text \<open>C35: a flush neither loses, repeats nor reorders a byte: what has gone out on the descriptor
  followed by what is still buffered is the same before and after, it ends under a kernel that
  makes progress, and it succeeds exactly when the buffer is empty.\<close>

theorem flush_conserves:
  assumes "conn_ok c" and "send_progress E" and "send_not_interrupted_forever E" and "want_flush c"
  shows "\<exists>r c' s'. connection_flush E c s = Some (r, c', s') \<and> conn_ok c'
    \<and> sent_on (conn_fd c) (trace s') @ contents (conn_out c') = sent_on (conn_fd c) (trace s) @ contents (conn_out c)
    \<and> (r = - 1 \<longrightarrow> contents (conn_out c') \<noteq> [])
    \<and> (r \<noteq> - 1 \<longrightarrow> contents (conn_out c') = [] \<and> r = int (length (contents (conn_out c))))"
proof -
  from connection_flush_returns [OF assms(1-3)] obtain r c' s' where f: "connection_flush E c s = Some (r, c', s')" by blast
  have "int (length (contents (conn_out c))) \<noteq> - 1" by linarith
  with connection_flush_ok [OF assms(1,2) f] assms(4) f show ?thesis
    by (cases "r = - 1") (auto simp: flushed_def simp del: length_contents)
qed

theorem flush_conserves_witness:
  "\<exists>r c' s'. connection_flush sample_env sample_connection \<lparr>errno = 0, trace = []\<rparr> = Some (r, c', s')
    \<and> sent_on 5 (trace s') @ contents (conn_out c') = contents (conn_out sample_connection)"
  using flush_conserves [OF sample_connection_ok, of sample_env "\<lparr>errno = 0, trace = []\<rparr>"]
  by (auto simp: sample_connection_def)

text \<open>Putting a message is all or nothing: on success the whole message follows everything
  that was put before, on failure no byte of it does, and the call returns either way.\<close>

lemma put_all_or_nothing:
  assumes "conn_ok c" and "send_progress E" and "send_not_interrupted_forever E"
  shows "\<exists>r c' s'. connection_put E c bs s = Some (r, c', s') \<and> conn_ok c' \<and> (r = 0 \<or> r = - 1)
    \<and> sent_on (conn_fd c) (trace s') @ contents (conn_out c')
      = sent_on (conn_fd c) (trace s) @ contents (conn_out c) @ (if r = 0 then bs else [])"
proof -
  from connection_put_returns [OF assms, of bs s] obtain r c' s' where p: "connection_put E c bs s = Some (r, c', s')" by blast
  from connection_put_ok [OF assms(1,2) p] p show ?thesis by auto
qed

text \<open>C36: bytes that arrive are appended to the input, in order and without loss, never beyond the
  256 bytes of the buffer, and the result is the amount of input that is now pending.\<close>

theorem read_appends:
  assumes "conn_ok c" and "recv_bounded E" and "recv_not_interrupted_forever E"
  shows "\<exists>r c' s'. connection_read E c s = Some (r, c', s') \<and> conn_ok c' \<and> length (contents (conn_in c')) \<le> 256
    \<and> (\<exists>bs. contents (conn_in c') = contents (conn_in c) @ bs
       \<and> (r = - 1 \<longrightarrow> bs = [])
       \<and> (r \<noteq> - 1 \<longrightarrow> r = int (connection_pending c')
            \<and> received_on (conn_fd c) (trace s') = received_on (conn_fd c) (trace s) @ bs))"
proof -
  from connection_read_returns [OF assms] obtain r c' s' where rd: "connection_read E c s = Some (r, c', s')" by blast
  note ok = connection_read_ok [OF assms(1,2) rd]
  then have "length (contents (conn_in c')) \<le> 256" by (simp add: conn_ok_def cb_ok_def)
  moreover have "int (length (contents (conn_in c'))) \<noteq> - 1" by linarith
  ultimately show ?thesis using ok rd by (auto simp: connection_pending_def)
qed

theorem read_appends_witness:
  "\<exists>r c' s'. connection_read sample_env sample_connection \<lparr>errno = 0, trace = []\<rparr> = Some (r, c', s') \<and> conn_ok c'
    \<and> length (contents (conn_in c')) \<le> 256"
  using read_appends [OF sample_connection_ok, of sample_env "\<lparr>errno = 0, trace = []\<rparr>"] by auto

text \<open>C37: messages that together fit the ring buffer come out of it as they went in, in order, at
  whatever position of the 32-bit indices the ring stands, so also when an index wraps around.\<close>

theorem ring_is_fifo:
  assumes "cb_ok b" and "contents b = []" and "length (concat ms) \<le> 256"
  shows "\<exists>b1 b2. put_all buffer_put b ms = Some b1
    \<and> get_all connection_buffer_copy connection_buffer_consume b1 (map length ms) = Some (ms, b2) \<and> contents b2 = []"
  using ring.put_get_all [OF assms(1,2)] assms(3) by simp

theorem ring_is_fifo_witness:
  "\<exists>b1 b2. put_all buffer_put \<lparr>head = 4294967290, tail = 4294967290, data = replicate 256 0\<rparr> [[1, 2, 3, 4], [5, 6, 7, 8, 9]] = Some b1
    \<and> get_all connection_buffer_copy connection_buffer_consume b1 (map length [[1, 2, 3, 4], [5, 6, 7, 8, 9 :: 8 word]])
      = Some ([[1, 2, 3, 4], [5, 6, 7, 8, 9]], b2)"
proof -
  let ?b = "\<lparr>head = 4294967290, tail = 4294967290, data = replicate 256 0\<rparr>"
  have "cb_ok ?b" "contents ?b = []" by (simp_all add: cb_ok_def connection_buffer_size_def contents_Nil_iff)
  from ring_is_fifo [OF this, of "[[1, 2, 3, 4], [5, 6, 7, 8, 9]]"] show ?thesis by fastforce
qed

text \<open>A header that was taken off the input is put back by \<open>connection_restore\<close>: the connection
  is what it was before.\<close>

lemma restore_undoes_get:
  assumes "conn_ok c" and "n \<le> length (contents (conn_in c))"
  shows "\<exists>bs c'. connection_get c n s = Some (Some bs, c', s) \<and> contents (conn_in c) = bs @ contents (conn_in c')
    \<and> length bs = n \<and> connection_restore c' n = c"
proof -
  obtain bs c' where get: "connection_get c n s = Some (Some bs, c', s)" using assms by (auto simp: connection_get_ok)
  with connection_get_conn_ok [OF assms(1) get] connection_restore_get [OF assms(1) get] show ?thesis by auto
qed

text \<open>Closing the descriptors of a connection closes each descriptor that is queued in either
  direction exactly once, and no other.\<close>

lemma close_fds_closes_all:
  assumes "conn_ok c"
  shows "\<exists>c' s'. connection_close_fds E c s = Some (c', s') \<and> contents (fds_out c') = []
    \<and> closed_fds (trace s') = rev (bytes_ints (contents (fds_out c))) @ rev (bytes_ints (contents (fds_in c))) @ closed_fds (trace s)"
  using connection_close_fds_ok [OF assms, of E s] by blast

end
