(* ===== verification/Protocol.thy ===== *)
theory Protocol
  imports Connection
begin

text \<open>
  The wire protocol of \<open>include/protocol.h\<close>: opcodes, limits and message structures, with their
  layout in memory. Every structure is a \<open>codec\<close>: a fixed number of bytes from which the
  message is read back, also when it stands at the front of a connection's input.
\<close>

section \<open>Limits and opcodes\<close>

definition MAX_PATH_LEN :: nat where "MAX_PATH_LEN = 256"
definition MAX_SEAT_LEN :: nat where "MAX_SEAT_LEN = 64"
definition MAX_SEAT_DEVICES :: nat where "MAX_SEAT_DEVICES = 128"

definition CLIENT_EVENT :: "u16 \<Rightarrow> u16" where "CLIENT_EVENT opcode = opcode"
definition SERVER_EVENT :: "u16 \<Rightarrow> u16" where "SERVER_EVENT opcode = opcode + 32768"

definition CLIENT_OPEN_SEAT :: u16 where "CLIENT_OPEN_SEAT = CLIENT_EVENT 1"
definition CLIENT_CLOSE_SEAT :: u16 where "CLIENT_CLOSE_SEAT = CLIENT_EVENT 2"
definition CLIENT_OPEN_DEVICE :: u16 where "CLIENT_OPEN_DEVICE = CLIENT_EVENT 3"
definition CLIENT_CLOSE_DEVICE :: u16 where "CLIENT_CLOSE_DEVICE = CLIENT_EVENT 4"
definition CLIENT_DISABLE_SEAT :: u16 where "CLIENT_DISABLE_SEAT = CLIENT_EVENT 5"
definition CLIENT_SWITCH_SESSION :: u16 where "CLIENT_SWITCH_SESSION = CLIENT_EVENT 6"
definition CLIENT_PING :: u16 where "CLIENT_PING = CLIENT_EVENT 7"

definition SERVER_SEAT_OPENED :: u16 where "SERVER_SEAT_OPENED = SERVER_EVENT 1"
definition SERVER_SEAT_CLOSED :: u16 where "SERVER_SEAT_CLOSED = SERVER_EVENT 2"
definition SERVER_DEVICE_OPENED :: u16 where "SERVER_DEVICE_OPENED = SERVER_EVENT 3"
definition SERVER_DEVICE_CLOSED :: u16 where "SERVER_DEVICE_CLOSED = SERVER_EVENT 4"
definition SERVER_DISABLE_SEAT :: u16 where "SERVER_DISABLE_SEAT = SERVER_EVENT 5"
definition SERVER_ENABLE_SEAT :: u16 where "SERVER_ENABLE_SEAT = SERVER_EVENT 6"
definition SERVER_PONG :: u16 where "SERVER_PONG = SERVER_EVENT 7"
definition SERVER_SESSION_SWITCHED :: u16 where "SERVER_SESSION_SWITCHED = SERVER_EVENT 8"
definition SERVER_SEAT_DISABLED :: u16 where "SERVER_SEAT_DISABLED = SERVER_EVENT 9"
definition SERVER_ERROR :: u16 where "SERVER_ERROR = SERVER_EVENT 0x7FFF"

lemmas client_opcode_defs = CLIENT_OPEN_SEAT_def CLIENT_CLOSE_SEAT_def CLIENT_OPEN_DEVICE_def
  CLIENT_CLOSE_DEVICE_def CLIENT_DISABLE_SEAT_def CLIENT_SWITCH_SESSION_def CLIENT_PING_def

lemmas server_opcode_defs = SERVER_SEAT_OPENED_def SERVER_SEAT_CLOSED_def SERVER_DEVICE_OPENED_def
  SERVER_DEVICE_CLOSED_def SERVER_DISABLE_SEAT_def SERVER_ENABLE_SEAT_def SERVER_PONG_def
  SERVER_SESSION_SWITCHED_def SERVER_SEAT_DISABLED_def SERVER_ERROR_def

section \<open>Messages\<close>

record proto_header =
  opcode :: u16
  msg_size :: u16

definition encode_header :: "proto_header \<Rightarrow> bytes" where
  "encode_header h = u16_bytes (opcode h) @ u16_bytes (msg_size h)"

definition decode_header :: "bytes \<Rightarrow> proto_header" where
  "decode_header bs = \<lparr>opcode = bytes_u16 (take 2 bs), msg_size = bytes_u16 (take 2 (drop 2 bs))\<rparr>"

text \<open>
  \<open>proto_client_open_device\<close> and \<open>proto_server_seat_opened\<close> hold one \<open>uint16_t\<close>,
  \<open>proto_client_close_device\<close>, \<open>proto_client_switch_session\<close>, \<open>proto_server_device_opened\<close> and
  \<open>proto_server_error\<close> one \<open>int\<close>.
\<close>

definition encode_len_msg :: "u16 \<Rightarrow> bytes" where
  "encode_len_msg n = u16_bytes n"

definition decode_len_msg :: "bytes \<Rightarrow> u16" where
  "decode_len_msg bs = bytes_u16 bs"

definition encode_int_msg :: "int \<Rightarrow> bytes" where
  "encode_int_msg i = int_bytes i"

definition decode_int_msg :: "bytes \<Rightarrow> int" where
  "decode_int_msg bs = bytes_int bs"

definition header_bytes :: "u16 \<Rightarrow> nat \<Rightarrow> bytes" where
  "header_bytes op n = encode_header \<lparr>opcode = op, msg_size = of_nat n\<rparr>"

section \<open>Codecs\<close>

text \<open>The interface of a fixed-size message.\<close>

locale codec =
  fixes enc :: "'m \<Rightarrow> bytes" and dec :: "bytes \<Rightarrow> 'm" and bytes_of :: nat and valid :: "'m \<Rightarrow> bool"
  assumes length_enc: "length (enc m) = bytes_of"
    and dec_enc: "valid m \<Longrightarrow> dec (enc m) = m"
begin

lemma enc_inject: "valid m \<Longrightarrow> valid m' \<Longrightarrow> enc m = enc m' \<longleftrightarrow> m = m'"
  by (metis dec_enc)

text \<open>A message at the front of a connection's input is taken off it unchanged.\<close>

lemma get_message:
  assumes "cb_ok (conn_in c)" and "contents (conn_in c) = enc m @ rest" and "valid m"
  shows "\<exists>bs c'. connection_get c bytes_of s = Some (Some bs, c', s) \<and> dec bs = m
    \<and> contents (conn_in c') = rest \<and> cb_ok (conn_in c')
    \<and> c' = c\<lparr>conn_in := connection_buffer_consume (conn_in c) bytes_of\<rparr>"
proof -
  have "length (contents (conn_in c)) = bytes_of + length rest"
    using assms(2) by (simp add: length_enc)
  then have n: "bytes_of \<le> unat (connection_buffer_size (conn_in c))" by simp
  have "take bytes_of (contents (conn_in c)) = enc m" "drop bytes_of (contents (conn_in c)) = rest"
    using assms(2) by (simp_all add: length_enc)
  with n connection_buffer_copy_ok [OF assms(1) n] connection_buffer_consume_ok [OF assms(1) n]
  show ?thesis by (simp add: connection_get_def dec_enc [OF assms(3)])
qed

end

interpretation header: codec encode_header decode_header 4 "\<lambda>_. True"
  by unfold_locales (simp_all add: encode_header_def decode_header_def)

interpretation len_msg: codec encode_len_msg decode_len_msg 2 "\<lambda>_. True"
  by unfold_locales (simp_all add: encode_len_msg_def decode_len_msg_def)

interpretation int_msg: codec encode_int_msg decode_int_msg 4 is_int
  by unfold_locales (simp_all add: encode_int_msg_def decode_int_msg_def)

lemma length_header_bytes [simp]: "length (header_bytes op n) = 4"
  by (simp add: header_bytes_def header.length_enc)

lemma length_encode_msgs [simp]:
  "length (encode_header h) = 4" "length (encode_len_msg n) = 2" "length (encode_int_msg i) = 4"
  by (simp_all add: header.length_enc len_msg.length_enc int_msg.length_enc)

lemma client_opcodes_distinct:
  "distinct [CLIENT_OPEN_SEAT, CLIENT_CLOSE_SEAT, CLIENT_OPEN_DEVICE, CLIENT_CLOSE_DEVICE,
     CLIENT_DISABLE_SEAT, CLIENT_SWITCH_SESSION, CLIENT_PING]"
  by (simp add: client_opcode_defs CLIENT_EVENT_def)

lemma server_opcodes_distinct:
  "distinct [SERVER_SEAT_OPENED, SERVER_SEAT_CLOSED, SERVER_DEVICE_OPENED, SERVER_DEVICE_CLOSED,
     SERVER_DISABLE_SEAT, SERVER_ENABLE_SEAT, SERVER_PONG, SERVER_SESSION_SWITCHED,
     SERVER_SEAT_DISABLED, SERVER_ERROR]"
  by (simp add: server_opcode_defs SERVER_EVENT_def)

lemma encode_header_decode: "length bs = 4 \<Longrightarrow> encode_header (decode_header bs) = bs"
proof -
  assume len: "length bs = 4"
  then have "take 2 (drop 2 bs) = drop 2 bs" by simp
  with len show ?thesis by (simp add: encode_header_def decode_header_def u16_bytes_bytes_u16)
qed

section \<open>Streams\<close>

text \<open>
  The stream as the protocol defines it: a sequence of frames, each a header and as many bytes of
  payload as the header says, and a tail that is not a whole frame.
\<close>

function frames :: "bytes \<Rightarrow> (u16 \<times> bytes) list \<times> bytes" where
  "frames bs = (if length bs < 4 then ([], bs)
     else let h = decode_header (take 4 bs); n = unat (msg_size h) in
       if length bs - 4 < n then ([], bs)
       else let (fs, rest) = frames (drop (4 + n) bs) in ((opcode h, take n (drop 4 bs)) # fs, rest))"
  by pat_completeness auto
termination by (relation "measure length") auto

declare frames.simps [simp del]

lemma frames_split:
  "concat (map (\<lambda>(op, p). header_bytes op (length p) @ p) (fst (frames bs))) @ snd (frames bs) = bs"
proof (induction bs rule: frames.induct)
  case (1 bs)
  let ?h = "decode_header (take 4 bs)" and ?n = "unat (msg_size (decode_header (take 4 bs)))"
  show ?case
  proof (cases "length bs < 4 \<or> length bs - 4 < ?n")
    case True
    then show ?thesis by (auto simp: frames.simps [of bs] Let_def)
  next
    case False
    then have ih: "concat (map (\<lambda>(op, p). header_bytes op (length p) @ p) (fst (frames (drop (4 + ?n) bs)))) @ snd (frames (drop (4 + ?n) bs))
        = drop (4 + ?n) bs" using 1 by auto
    have fr: "frames bs = ((opcode ?h, take ?n (drop 4 bs)) # fst (frames (drop (4 + ?n) bs)), snd (frames (drop (4 + ?n) bs)))"
      using False by (simp add: frames.simps [of bs] Let_def split_def)
    have "length (take ?n (drop 4 bs)) = ?n" using False by simp
    then have "header_bytes (opcode ?h) (length (take ?n (drop 4 bs))) = encode_header ?h"
      by (cases ?h) (simp add: header_bytes_def)
    also have "\<dots> = take 4 bs" using False by (simp add: encode_header_decode)
    finally show ?thesis
      using ih unfolding fr by (simp flip: append_assoc take_add) (metis append_assoc append_take_drop_id)
  qed
qed

text \<open>Cutting a stream into messages loses nothing: putting the messages and the rest together again gives the
  stream, and the rest is not a whole message.\<close>

lemma frames_lossless:
  "concat (map (\<lambda>(op, p). header_bytes op (length p) @ p) (fst (frames bs))) @ snd (frames bs) = bs
    \<and> fst (frames (snd (frames bs))) = []"
proof
  show "concat (map (\<lambda>(op, p). header_bytes op (length p) @ p) (fst (frames bs))) @ snd (frames bs) = bs" by (rule frames_split)
  show "fst (frames (snd (frames bs))) = []"
  proof (induction bs rule: frames.induct)
    case (1 bs)
    show ?case
    proof (cases "length bs < 4 \<or> length bs - 4 < unat (msg_size (decode_header (take 4 bs)))")
      case True
      then have "frames bs = ([], bs)" by (auto simp: frames.simps [of bs] Let_def)
      then show ?thesis by simp
    next
      case False
      then have "snd (frames bs) = snd (frames (drop (4 + unat (msg_size (decode_header (take 4 bs)))) bs))"
        by (simp add: frames.simps [of bs] Let_def split_def)
      with False 1 show ?thesis by simp
    qed
  qed
qed

text \<open>The bytes of a header determine it: what the code writes into the message is what the
  receiver reads out of it, and every four bytes are the header of something.\<close>

lemma header_roundtrip:
  "decode_header (encode_header h) = h \<and> (length bs = 4 \<longrightarrow> encode_header (decode_header bs) = bs)"
  by (simp add: header.dec_enc encode_header_decode)

end
