(* ===== verification/Poller.thy ===== *)
theory Poller
  imports Kernel
begin

unbundle bit_operations_syntax

text \<open>
  The event loop of \<open>seatd/poller.c\<close>: descriptor and signal sources, the array given to
  \<open>poll\<close>, and the dispatch of callbacks.

  A callback (function pointer and data) is a value of the type parameter \<open>'h\<close>; the functions
  that run one take an interpreter \<open>call\<close> of such values. A source is known to its owner by an
  identity, \<open>es_id\<close>, that stands for its address; using an identity that is no longer in the
  list is a use after free and does not return. \<open>p_supply\<close> is the supply of addresses of
  the allocator. Sources are counted in \<open>nat\<close>: each of them occupies memory, so the
  \<open>size_t\<close> counter cannot reach its upper bound; its lower bound is written out.
\<close>

section \<open>State\<close>

definition EVENT_READABLE :: u32 where "EVENT_READABLE = 0x1"
definition EVENT_WRITABLE :: u32 where "EVENT_WRITABLE = 0x4"
definition EVENT_ERROR :: u32 where "EVENT_ERROR = 0x8"
definition EVENT_HANGUP :: u32 where "EVENT_HANGUP = 0x10"

record 'h event_source_fd =
  es_id :: nat
  es_handler :: 'h
  es_fd :: int
  es_mask :: u32
  es_killed :: bool
  es_pollfd_idx :: int

record 'h event_source_signal =
  ss_id :: nat
  ss_handler :: 'h
  ss_signal :: int
  ss_raised :: bool
  ss_killed :: bool

record pollfd =
  pfd_fd :: int
  pfd_events :: int
  pfd_revents :: int

text \<open>\<open>pollfds_len\<close> of the code is the length of \<open>pollfds\<close>.\<close>

record 'h poller =
  p_signals :: "'h event_source_signal list"
  p_fds :: "'h event_source_fd list"
  signal_fds :: "int \<times> int"
  pollfds :: "pollfd list"
  fd_event_sources :: nat
  dirty :: bool
  p_supply :: nat

record 'h pstate = os +
  poller :: "'h poller"
  global_poller :: bool

section \<open>Sources\<close>

definition poller_set_nonblock :: "env \<Rightarrow> int \<Rightarrow> 'a os_scheme \<Rightarrow> int \<times> 'a os_scheme" where
  "poller_set_nonblock E fd s =
     (let (flags, s) = sys_fcntl E fd F_GETFL s in
      if flags = - 1 then (- 1, s)
      else let (r, s) = sys_fcntl E fd (F_SETFL (flags OR 0x800)) s in
        if r = - 1 then (- 1, s) else (0, s))"

definition signal_handler :: "env \<Rightarrow> int \<Rightarrow> ('h, 'z) pstate_scheme \<Rightarrow> ('h, 'z) pstate_scheme" where
  "signal_handler E sig s =
     (if \<not> global_poller s then s
      else let
        s = s\<lparr>poller := (poller s)\<lparr>p_signals :=
              map (\<lambda>b. if ss_signal b = sig then b\<lparr>ss_raised := True\<rparr> else b) (p_signals (poller s))\<rparr>\<rparr>;
        saved_errno = errno s;
        (r, s) = sys_write E (snd (signal_fds (poller s))) [0] s
      in s\<lparr>errno := saved_errno\<rparr>)"

definition poller_init :: "env \<Rightarrow> ('h, 'z) pstate_scheme \<Rightarrow> (int \<times> ('h, 'z) pstate_scheme) option" where
  "poller_init E s = do {
     oassert (\<not> global_poller s);
     let (r, s) = sys_pipe E s;
     (case r of Inl _ \<Rightarrow> Some (- 1, s)
      | Inr fds \<Rightarrow> do {
          let s = s\<lparr>poller := (poller s)\<lparr>signal_fds := fds\<rparr>\<rparr>;
          let (r, s) = poller_set_nonblock E (fst fds) s;
          if r = - 1 then Some (- 1, s)
          else do {
            let (r, s) = poller_set_nonblock E (snd fds) s;
            if r = - 1 then Some (- 1, s)
            else Some (0, s\<lparr>poller := (poller s)\<lparr>p_fds := [], p_signals := [], pollfds := [],
              dirty := True, fd_event_sources := 1\<rparr>, global_poller := True\<rparr>) } }) }"

fun reset_signals :: "'h event_source_signal list \<Rightarrow> 'a os_scheme \<Rightarrow> 'a os_scheme" where
  "reset_signals [] s = s"
| "reset_signals (b # bs) s = reset_signals bs (sys_sigaction (ss_signal b) False s)"

definition poller_finish :: "('h, 'z) pstate_scheme \<Rightarrow> ('h, 'z) pstate_scheme" where
  "poller_finish s =
     (let s = reset_signals (p_signals (poller s)) s in
      s\<lparr>poller := (poller s)\<lparr>p_fds := [], p_signals := []\<rparr>, global_poller := False\<rparr>)"

definition poller_add_fd ::
    "env \<Rightarrow> int \<Rightarrow> u32 \<Rightarrow> 'h \<Rightarrow> ('h, 'z) pstate_scheme \<Rightarrow> nat option \<times> ('h, 'z) pstate_scheme" where
  "poller_add_fd E fd msk func s =
     (let (ok, s) = sys_alloc E s in
      if \<not> ok then (None, s)
      else let p = poller s;
          bpfd = \<lparr>es_id = p_supply p, es_handler = func, es_fd = fd, es_mask = msk,
            es_killed = False, es_pollfd_idx = - 1\<rparr>
        in (Some (p_supply p), s\<lparr>poller := p\<lparr>fd_event_sources := fd_event_sources p + 1, dirty := True,
             p_fds := bpfd # p_fds p, p_supply := Suc (p_supply p)\<rparr>\<rparr>))"

text \<open>Access to a source through a pointer.\<close>

definition find_fd :: "nat \<Rightarrow> 'h poller \<Rightarrow> 'h event_source_fd option" where
  "find_fd i p = find (\<lambda>x. es_id x = i) (p_fds p)"

definition set_fd ::
    "nat \<Rightarrow> ('h event_source_fd \<Rightarrow> 'h event_source_fd) \<Rightarrow> 'h poller \<Rightarrow> 'h poller" where
  "set_fd i f p = p\<lparr>p_fds := map (\<lambda>x. if es_id x = i then f x else x) (p_fds p)\<rparr>"

definition size_decr :: "nat \<Rightarrow> nat" where
  "size_decr n = (if n = 0 then 2 ^ 64 - 1 else n - 1)"

definition event_source_fd_destroy ::
    "nat \<Rightarrow> ('h, 'z) pstate_scheme \<Rightarrow> ('h, 'z) pstate_scheme option" where
  "event_source_fd_destroy i s = do {
     x \<leftarrow> find_fd i (poller s);
     let p = (poller s)\<lparr>fd_event_sources := size_decr (fd_event_sources (poller s)), dirty := True\<rparr>;
     Some (s\<lparr>poller := set_fd i (\<lambda>x. x\<lparr>es_killed := True\<rparr>) p\<rparr>) }"

definition event_source_fd_update ::
    "nat \<Rightarrow> u32 \<Rightarrow> ('h, 'z) pstate_scheme \<Rightarrow> ('h, 'z) pstate_scheme option" where
  "event_source_fd_update i msk s = do {
     x \<leftarrow> find_fd i (poller s);
     Some (s\<lparr>poller := (set_fd i (\<lambda>x. x\<lparr>es_mask := msk\<rparr>) (poller s))\<lparr>dirty := True\<rparr>\<rparr>) }"

definition poller_add_signal ::
    "env \<Rightarrow> int \<Rightarrow> 'h \<Rightarrow> ('h, 'z) pstate_scheme \<Rightarrow> nat option \<times> ('h, 'z) pstate_scheme" where
  "poller_add_signal E sig func s =
     (let (ok, s) = sys_alloc E s in
      if \<not> ok then (None, s)
      else let
          s = sys_sigaction sig True s;
          p = poller s;
          bps = \<lparr>ss_id = p_supply p, ss_handler = func, ss_signal = sig, ss_raised = False,
            ss_killed = False\<rparr>
        in (Some (p_supply p),
            s\<lparr>poller := p\<lparr>p_signals := bps # p_signals p, p_supply := Suc (p_supply p)\<rparr>\<rparr>))"

definition event_source_signal_destroy ::
    "nat \<Rightarrow> ('h, 'z) pstate_scheme \<Rightarrow> ('h, 'z) pstate_scheme option" where
  "event_source_signal_destroy i s = do {
     bps \<leftarrow> find (\<lambda>b. ss_id b = i) (p_signals (poller s));
     let refcnt = length (filter (\<lambda>b. ss_signal b = ss_signal bps \<and> \<not> ss_killed b) (p_signals (poller s)));
     let s = (if refcnt = 0 then sys_sigaction (ss_signal bps) False s else s);
     Some (s\<lparr>poller := (poller s)\<lparr>dirty := True, p_signals :=
       map (\<lambda>b. if ss_id b = i then b\<lparr>ss_killed := True\<rparr> else b) (p_signals (poller s))\<rparr>\<rparr>) }"

section \<open>The array for poll\<close>

definition event_mask_to_poll_mask :: "u32 \<Rightarrow> int" where
  "event_mask_to_poll_mask m =
     ((if m AND EVENT_READABLE \<noteq> 0 then POLLIN else 0) OR
      (if m AND EVENT_WRITABLE \<noteq> 0 then POLLOUT else 0))"

definition poll_mask_to_event_mask :: "int \<Rightarrow> u32" where
  "poll_mask_to_event_mask m =
     ((if m AND POLLIN \<noteq> 0 then EVENT_READABLE else 0) OR
      (if m AND POLLOUT \<noteq> 0 then EVENT_WRITABLE else 0) OR
      (if m AND POLLERR \<noteq> 0 then EVENT_ERROR else 0) OR
      (if m AND POLLHUP \<noteq> 0 then EVENT_HANGUP else 0))"

text \<open>The first loop of \<open>regenerate\<close>: killed sources leave the list, the others get an entry.\<close>

fun regenerate_fds ::
    "nat \<Rightarrow> 'h event_source_fd list \<Rightarrow> pollfd list \<Rightarrow> (nat \<times> 'h event_source_fd list \<times> pollfd list) option" where
  "regenerate_fds idx [] arr = Some (idx, [], arr)"
| "regenerate_fds idx (x # xs) arr =
     (if es_killed x then regenerate_fds idx xs arr
      else do {
        oassert (idx < length arr);
        (n, xs, arr) \<leftarrow> regenerate_fds (idx + 1) xs
          (arr[idx := \<lparr>pfd_fd = es_fd x, pfd_events = event_mask_to_poll_mask (es_mask x), pfd_revents = 0\<rparr>]);
        Some (n, x\<lparr>es_pollfd_idx := int idx\<rparr> # xs, arr) })"

text \<open>
  \<open>realloc\<close> leaves the new entries unset; they are all written before they are read, which the
  assertion on \<open>idx\<close> guarantees.
\<close>

definition regenerate :: "env \<Rightarrow> ('h, 'z) pstate_scheme \<Rightarrow> (int \<times> ('h, 'z) pstate_scheme) option" where
  "regenerate E s = do {
     let p = poller s;
     let grow = fd_event_sources p > length (pollfds p);
     let (ok, s) = (if grow then sys_alloc E s else (True, s));
     if \<not> ok then Some (- 1, s)
     else do {
       let arr = (if grow then pollfds p @ replicate (fd_event_sources p - length (pollfds p))
                    \<lparr>pfd_fd = 0, pfd_events = 0, pfd_revents = 0\<rparr> else pollfds p);
       oassert (0 < length arr);
       (idx, fds, arr) \<leftarrow> regenerate_fds 1 (p_fds p)
         (arr[0 := \<lparr>pfd_fd = fst (signal_fds p), pfd_events = POLLIN, pfd_revents = 0\<rparr>]);
       oassert (idx = fd_event_sources p);
       Some (0, s\<lparr>poller := p\<lparr>p_fds := fds, pollfds := arr,
         p_signals := filter (\<lambda>b. \<not> ss_killed b) (p_signals p)\<rparr>\<rparr>) } }"

section \<open>Dispatch\<close>

text \<open>
  The loops of \<open>dispatch\<close> follow the \<open>next\<close> pointers of lists that the callbacks may extend:
  the position after a source is looked up in the list as it is after the callback. \<open>Some None\<close>
  is the list head, where the loop ends.
\<close>

fun elem_after :: "('x \<Rightarrow> nat) \<Rightarrow> nat \<Rightarrow> 'x list \<Rightarrow> nat option option" where
  "elem_after key i [] = None"
| "elem_after key i (x # xs) =
     (if key x = i then Some (case xs of [] \<Rightarrow> None | y # _ \<Rightarrow> Some (key y)) else elem_after key i xs)"

definition first_elem :: "('x \<Rightarrow> nat) \<Rightarrow> 'x list \<Rightarrow> nat option" where
  "first_elem key xs = (case xs of [] \<Rightarrow> None | y # _ \<Rightarrow> Some (key y))"

text \<open>\<open>while (read(signal_fds[0], &garbage, sizeof garbage) != -1) {}\<close>\<close>

partial_function (option) drain_signals :: "env \<Rightarrow> int \<Rightarrow> 'a os_scheme \<Rightarrow> 'a os_scheme option" where
  [code]: "drain_signals E fd s =
     (case sys_read E fd 8 s of (r, s) \<Rightarrow>
        (case r of Inl _ \<Rightarrow> Some s | Inr _ \<Rightarrow> drain_signals E fd s))"

definition dispatch_signal ::
    "(int \<Rightarrow> 'h \<Rightarrow> ('h, 'z) pstate_scheme \<Rightarrow> (int \<times> ('h, 'z) pstate_scheme) option) \<Rightarrow> nat \<Rightarrow>
     ('h, 'z) pstate_scheme \<Rightarrow> ('h, 'z) pstate_scheme option" where
  "dispatch_signal call i s = do {
     b \<leftarrow> find (\<lambda>b. ss_id b = i) (p_signals (poller s));
     if \<not> ss_raised b \<or> ss_killed b then Some s
     else do {
       (r, s) \<leftarrow> call (ss_signal b) (ss_handler b) s;
       Some (s\<lparr>poller := (poller s)\<lparr>p_signals :=
         map (\<lambda>b. if ss_id b = i then b\<lparr>ss_raised := False\<rparr> else b) (p_signals (poller s))\<rparr>\<rparr>) } }"

partial_function (option) dispatch_signals ::
    "(int \<Rightarrow> 'h \<Rightarrow> ('h, 'z) pstate_scheme \<Rightarrow> (int \<times> ('h, 'z) pstate_scheme) option) \<Rightarrow> nat option \<Rightarrow>
     ('h, 'z) pstate_scheme \<Rightarrow> ('h, 'z) pstate_scheme option" where
  [code]: "dispatch_signals call cur s = (case cur of None \<Rightarrow> Some s
     | Some i \<Rightarrow> do {
         s \<leftarrow> dispatch_signal call i s;
         nx \<leftarrow> elem_after ss_id i (p_signals (poller s));
         dispatch_signals call nx s })"

definition dispatch_fd ::
    "(int \<Rightarrow> u32 \<Rightarrow> 'h \<Rightarrow> ('h, 'z) pstate_scheme \<Rightarrow> (int \<times> ('h, 'z) pstate_scheme) option) \<Rightarrow> nat \<Rightarrow>
     ('h, 'z) pstate_scheme \<Rightarrow> ('h, 'z) pstate_scheme option" where
  "dispatch_fd call i s = do {
     x \<leftarrow> find_fd i (poller s);
     if es_pollfd_idx x = - 1 \<or> es_killed x then Some s
     else do {
       oassert (es_pollfd_idx x < int (length (pollfds (poller s))));
       oassert (0 \<le> es_pollfd_idx x);
       pfd \<leftarrow> nth_opt (pollfds (poller s)) (nat (es_pollfd_idx x));
       if pfd_revents pfd = 0 then Some s
       else do {
         (r, s) \<leftarrow> call (pfd_fd pfd) (poll_mask_to_event_mask (pfd_revents pfd)) (es_handler x) s;
         Some s } } }"

partial_function (option) dispatch_fds ::
    "(int \<Rightarrow> u32 \<Rightarrow> 'h \<Rightarrow> ('h, 'z) pstate_scheme \<Rightarrow> (int \<times> ('h, 'z) pstate_scheme) option) \<Rightarrow> nat option \<Rightarrow>
     ('h, 'z) pstate_scheme \<Rightarrow> ('h, 'z) pstate_scheme option" where
  [code]: "dispatch_fds call cur s = (case cur of None \<Rightarrow> Some s
     | Some i \<Rightarrow> do {
         s \<leftarrow> dispatch_fd call i s;
         nx \<leftarrow> elem_after es_id i (p_fds (poller s));
         dispatch_fds call nx s })"

definition dispatch ::
    "env \<Rightarrow> (int \<Rightarrow> 'h \<Rightarrow> ('h, 'z) pstate_scheme \<Rightarrow> (int \<times> ('h, 'z) pstate_scheme) option) \<Rightarrow>
     (int \<Rightarrow> u32 \<Rightarrow> 'h \<Rightarrow> ('h, 'z) pstate_scheme \<Rightarrow> (int \<times> ('h, 'z) pstate_scheme) option) \<Rightarrow>
     ('h, 'z) pstate_scheme \<Rightarrow> ('h, 'z) pstate_scheme option" where
  "dispatch E call_signal call_fd s = do {
     p0 \<leftarrow> nth_opt (pollfds (poller s)) 0;
     s \<leftarrow> (if pfd_revents p0 AND POLLIN \<noteq> 0 then do {
             s \<leftarrow> drain_signals E (fst (signal_fds (poller s))) s;
             dispatch_signals call_signal (first_elem ss_id (p_signals (poller s))) s }
           else Some s);
     dispatch_fds call_fd (first_elem es_id (p_fds (poller s))) s }"

text \<open>What \<open>poll\<close> writes into the array.\<close>

fun set_revents :: "int list \<Rightarrow> pollfd list \<Rightarrow> pollfd list" where
  "set_revents (r # rs) (p # ps) = p\<lparr>pfd_revents := r\<rparr> # set_revents rs ps"
| "set_revents [] ps = ps"
| "set_revents rs [] = []"

partial_function (option) poll_retry ::
    "env \<Rightarrow> (int \<times> int) list \<Rightarrow> 'a os_scheme \<Rightarrow> ((errno + int list) \<times> 'a os_scheme) option" where
  [code]: "poll_retry E fds s =
     (case sys_poll E fds s of (r, s) \<Rightarrow>
        if r = Inl EINTR then poll_retry E fds s else Some (r, s))"

definition poller_poll ::
    "env \<Rightarrow> (int \<Rightarrow> 'h \<Rightarrow> ('h, 'z) pstate_scheme \<Rightarrow> (int \<times> ('h, 'z) pstate_scheme) option) \<Rightarrow>
     (int \<Rightarrow> u32 \<Rightarrow> 'h \<Rightarrow> ('h, 'z) pstate_scheme \<Rightarrow> (int \<times> ('h, 'z) pstate_scheme) option) \<Rightarrow>
     ('h, 'z) pstate_scheme \<Rightarrow> (int \<times> ('h, 'z) pstate_scheme) option" where
  "poller_poll E call_signal call_fd s = do {
     (r, s) \<leftarrow> (if dirty (poller s) then regenerate E s else Some (0, s));
     if r = - 1 then Some (- 1, s)
     else do {
       let s = s\<lparr>poller := (poller s)\<lparr>dirty := False\<rparr>\<rparr>;
       let p = poller s;
       oassert (fd_event_sources p \<le> length (pollfds p));
       (r, s) \<leftarrow> poll_retry E (map (\<lambda>q. (pfd_fd q, pfd_events q)) (take (fd_event_sources p) (pollfds p))) s;
       (case r of Inl _ \<Rightarrow> Some (- 1, s)
        | Inr rs \<Rightarrow> do {
            let s = s\<lparr>poller := (poller s)\<lparr>pollfds := set_revents rs (pollfds (poller s))\<rparr>\<rparr>;
            s \<leftarrow> dispatch E call_signal call_fd s;
            Some (0, s) }) } }"

section \<open>Well-formed pollers\<close>

definition live_fds :: "'h poller \<Rightarrow> 'h event_source_fd list" where
  "live_fds p = filter (\<lambda>x. \<not> es_killed x) (p_fds p)"

definition poller_ok :: "'h poller \<Rightarrow> bool" where
  "poller_ok p \<longleftrightarrow> fd_event_sources p = Suc (length (live_fds p))
     \<and> distinct (map es_id (p_fds p)) \<and> (\<forall>x \<in> set (p_fds p). es_id x < p_supply p)
     \<and> (\<forall>x \<in> set (p_fds p). es_pollfd_idx x = - 1
          \<or> 0 < es_pollfd_idx x \<and> es_pollfd_idx x < int (length (pollfds p)))
     \<and> (\<not> dirty p \<longrightarrow> fd_event_sources p \<le> length (pollfds p))
     \<and> distinct (map ss_id (p_signals p)) \<and> (\<forall>b \<in> set (p_signals p). ss_id b < p_supply p)"

lemma os_frame_poller: "os_frame s s' \<Longrightarrow> poller s' = poller s \<and> global_poller s' = global_poller s"
  by (cases s; cases s') (auto simp: os_frame_def)

lemma find_fd_set_fd:
  "(\<And>x. es_id (f x) = es_id x) \<Longrightarrow> find_fd j (set_fd i f p) = (if i = j then map_option f (find_fd j p) else find_fd j p)"
  unfolding find_fd_def set_fd_def
  by (cases p) (simp, induct_tac p_fds, auto)

lemma find_fd_Some: "find_fd i p = Some x \<Longrightarrow> x \<in> set (p_fds p) \<and> es_id x = i"
  by (auto simp: find_fd_def find_Some_iff)

lemma find_fd_exists: "i \<in> es_id ` set (p_fds p) \<Longrightarrow> \<exists>x. find_fd i p = Some x"
  by (cases "find_fd i p") (auto simp: find_fd_def find_None_iff)

lemma set_fd_sel [simp]:
  "fd_event_sources (set_fd i f p) = fd_event_sources p" "dirty (set_fd i f p) = dirty p"
  "pollfds (set_fd i f p) = pollfds p" "p_supply (set_fd i f p) = p_supply p"
  "p_signals (set_fd i f p) = p_signals p" "signal_fds (set_fd i f p) = signal_fds p"
  by (simp_all add: set_fd_def)

lemma set_fd_ids [simp]:
  "(\<And>x. es_id (f x) = es_id x) \<Longrightarrow> map es_id (p_fds (set_fd i f p)) = map es_id (p_fds p)"
  by (simp add: set_fd_def)

lemma set_fd_elem: "x \<in> set (p_fds (set_fd i f p)) \<Longrightarrow> \<exists>y \<in> set (p_fds p). x = f y \<or> x = y"
  by (auto simp: set_fd_def)

lemma poller_add_fd_ok:
  assumes "poller_ok (poller s)" and "poller_add_fd E fd m h s = (r, s')"
  shows "poller_ok (poller s')"
    and "case r of None \<Rightarrow> poller s' = poller s
      | Some i \<Rightarrow> p_fds (poller s') = \<lparr>es_id = i, es_handler = h, es_fd = fd, es_mask = m,
            es_killed = False, es_pollfd_idx = - 1\<rparr> # p_fds (poller s)
          \<and> i \<notin> es_id ` set (p_fds (poller s)) \<and> dirty (poller s')"
proof -
  obtain ok s1 where a: "sys_alloc E s = (ok, s1)" by force
  then have p: "poller s1 = poller s" using os_frame_poller [OF sys_alloc_frame [of s E]] by simp
  have new: "p_supply (poller s) \<notin> es_id ` set (p_fds (poller s))"
    using assms(1) by (auto simp: poller_ok_def)
  show "poller_ok (poller s')"
    using assms a p new by (cases ok) (auto simp: poller_add_fd_def poller_ok_def live_fds_def Let_def less_Suc_eq)
  show "case r of None \<Rightarrow> poller s' = poller s
      | Some i \<Rightarrow> p_fds (poller s') = \<lparr>es_id = i, es_handler = h, es_fd = fd, es_mask = m,
            es_killed = False, es_pollfd_idx = - 1\<rparr> # p_fds (poller s)
          \<and> i \<notin> es_id ` set (p_fds (poller s)) \<and> dirty (poller s')"
    using assms(2) a p new by (cases ok) (auto simp: poller_add_fd_def Let_def)
qed

lemma live_fds_set_killed:
  assumes "distinct (map es_id (p_fds p))" and "find_fd i p = Some x" and "\<not> es_killed x"
  shows "Suc (length (live_fds (set_fd i (\<lambda>x. x\<lparr>es_killed := True\<rparr>) p))) = length (live_fds p)"
proof -
  from find_fd_Some [OF assms(2)] obtain ys zs where xs: "p_fds p = ys @ x # zs" and i: "es_id x = i"
    by (auto dest: split_list)
  have "map (\<lambda>y. if es_id y = i then y\<lparr>es_killed := True\<rparr> else y) us = us" if "us = ys \<or> us = zs" for us
    using that assms(1) i by (intro map_idI) (auto simp: xs image_iff)
  with i assms(3) show ?thesis by (simp add: live_fds_def set_fd_def xs)
qed

lemma event_source_fd_destroy_ok:
  assumes ok: "poller_ok (poller s)" and x: "find_fd i (poller s) = Some x" "\<not> es_killed x"
  shows "\<exists>p. event_source_fd_destroy i s = Some (s\<lparr>poller := p\<rparr>) \<and> poller_ok p
    \<and> find_fd i p = Some (x\<lparr>es_killed := True\<rparr>) \<and> map es_id (p_fds p) = map es_id (p_fds (poller s))"
proof -
  let ?f = "\<lambda>x. x\<lparr>es_killed := True\<rparr>" and ?q = "(poller s)\<lparr>fd_event_sources := size_decr (fd_event_sources (poller s)), dirty := True\<rparr>"
  have "find_fd i ?q = Some x" using x by (simp add: find_fd_def)
  moreover have "poller_ok (set_fd i ?f ?q)"
    using ok live_fds_set_killed [of ?q i x] x \<open>find_fd i ?q = Some x\<close>
    unfolding poller_ok_def by (auto dest!: set_fd_elem simp: size_decr_def live_fds_def)
  ultimately show ?thesis
    using x by (auto simp: event_source_fd_destroy_def find_fd_set_fd)
qed

lemma event_source_fd_update_ok:
  assumes ok: "poller_ok (poller s)" and x: "find_fd i (poller s) = Some x"
  shows "\<exists>p. event_source_fd_update i m s = Some (s\<lparr>poller := p\<rparr>) \<and> poller_ok p
    \<and> find_fd i p = Some (x\<lparr>es_mask := m\<rparr>) \<and> dirty p \<and> map es_id (p_fds p) = map es_id (p_fds (poller s))"
proof -
  let ?f = "\<lambda>x. x\<lparr>es_mask := m\<rparr>"
  have "length (live_fds (set_fd i ?f p)) = length (live_fds p)" for p :: "'a poller"
    by (auto simp: live_fds_def set_fd_def filter_map o_def intro!: arg_cong [where f = length] filter_cong)
  then have "poller_ok ((set_fd i ?f (poller s))\<lparr>dirty := True\<rparr>)"
    using ok unfolding poller_ok_def by (auto dest!: set_fd_elem simp: live_fds_def)
  moreover have "find_fd i ((set_fd i ?f (poller s))\<lparr>dirty := True\<rparr>) = Some (?f x)"
    using x find_fd_set_fd [of ?f i i "poller s"] by (simp add: find_fd_def)
  ultimately show ?thesis using x by (auto simp: event_source_fd_update_def)
qed

section \<open>Regeneration\<close>

definition pollfd_of :: "'h event_source_fd \<Rightarrow> pollfd" where
  "pollfd_of x = \<lparr>pfd_fd = es_fd x, pfd_events = event_mask_to_poll_mask (es_mask x), pfd_revents = 0\<rparr>"

definition number_from :: "nat \<Rightarrow> 'h event_source_fd list \<Rightarrow> 'h event_source_fd list" where
  "number_from n xs = map (\<lambda>(i, x). x\<lparr>es_pollfd_idx := int i\<rparr>) (enumerate n xs)"

lemma regenerate_fds_ok:
  fixes xs :: "'h event_source_fd list"
  defines "alive \<equiv> \<lambda>xs :: 'h event_source_fd list. filter (\<lambda>x. \<not> es_killed x) xs"
  assumes "n + length (alive xs) \<le> length arr"
  shows "regenerate_fds n xs arr = Some (n + length (alive xs), number_from n (alive xs),
    take n arr @ map pollfd_of (alive xs) @ drop (n + length (alive xs)) arr)"
  using assms(2)
proof (induction xs arbitrary: n arr)
  case Nil
  then show ?case by (simp add: alive_def number_from_def)
next
  case (Cons x xs)
  show ?case
  proof (cases "es_killed x")
    case True
    with Cons show ?thesis by (simp add: alive_def)
  next
    case False
    let ?arr = "arr[n := pollfd_of x]"
    have n: "n < length arr" and len: "Suc n + length (alive xs) \<le> length ?arr"
      using Cons.prems False by (auto simp: alive_def)
    have "take (Suc n) ?arr = take n arr @ [pollfd_of x]" using n by (simp add: take_Suc_conv_app_nth)
    moreover have "drop (Suc n + length (alive xs)) ?arr = drop (Suc n + length (alive xs)) arr" by simp
    ultimately show ?thesis
      using n False Cons.IH [OF len] by (simp add: pollfd_of_def alive_def number_from_def)
  qed
qed

text \<open>
  After \<open>regenerate\<close> the array holds the signal descriptor and one entry per live source, in
  list order, and every source knows its entry.
\<close>

lemma number_from_simps [simp]:
  "number_from n [] = []"
  "number_from n (x # xs) = x\<lparr>es_pollfd_idx := int n\<rparr> # number_from (Suc n) xs"
  by (simp_all add: number_from_def)

lemma number_from_sel [simp]:
  "length (number_from n xs) = length xs" "map es_id (number_from n xs) = map es_id xs"
  by (induction xs arbitrary: n) auto

lemma number_from_elem:
  "x \<in> set (number_from n xs) \<Longrightarrow> \<exists>y \<in> set xs. \<exists>i \<ge> n. i < n + length xs \<and> x = y\<lparr>es_pollfd_idx := int i\<rparr>"
proof (induction xs arbitrary: n)
  case (Cons a xs)
  then consider "x = a\<lparr>es_pollfd_idx := int n\<rparr>" | "x \<in> set (number_from (Suc n) xs)" by auto
  then show ?case
  proof cases
    case 2
    from Cons.IH [OF 2] show ?thesis by (auto dest: Suc_leD)
  qed auto
qed simp

lemma regenerate_cases:
  assumes "poller_ok (poller s)"
  defines "p \<equiv> poller s"
  shows "(\<exists>s1. regenerate E s = Some (- 1, s1) \<and> os_frame s s1) \<or>
    (\<exists>s1 rest. os_frame s s1 \<and> length (pollfds p) \<le> Suc (length (live_fds p) + length rest)
      \<and> regenerate E s = Some (0, s1\<lparr>poller := p\<lparr>p_fds := number_from 1 (live_fds p),
          pollfds := \<lparr>pfd_fd = fst (signal_fds p), pfd_events = POLLIN, pfd_revents = 0\<rparr>
            # map pollfd_of (live_fds p) @ rest,
          p_signals := filter (\<lambda>b. \<not> ss_killed b) (p_signals p)\<rparr>\<rparr>))"
proof -
  let ?n = "length (live_fds p)" and ?grow = "fd_event_sources p > length (pollfds p)"
  let ?z = "\<lparr>pfd_fd = 0, pfd_events = 0, pfd_revents = 0\<rparr>"
  let ?sig = "\<lparr>pfd_fd = fst (signal_fds p), pfd_events = POLLIN, pfd_revents = 0\<rparr>"
  have n: "fd_event_sources p = Suc ?n" using assms by (simp add: poller_ok_def)
  obtain ok s1 where a: "(if ?grow then sys_alloc E s else (True, s)) = (ok, s1)" by force
  have f: "os_frame s s1" using a sys_alloc_frame [of s E] by (auto split: if_splits)
  define arr where "arr = (if ?grow then pollfds p @ replicate (fd_event_sources p - length (pollfds p)) ?z else pollfds p)"
  have len: "Suc ?n \<le> length arr" "length (pollfds p) \<le> length arr" using n by (auto simp: arr_def)
  then have "0 < length arr" by linarith
  then have one: "take (Suc 0) (arr[0 := ?sig]) = [?sig]" by (cases arr) auto
  have "regenerate_fds 1 (p_fds p) (arr[0 := ?sig]) = Some (Suc ?n, number_from 1 (live_fds p),
      ?sig # map pollfd_of (live_fds p) @ drop (Suc ?n) arr)"
    using regenerate_fds_ok [of 1 "p_fds p" "arr[0 := ?sig]"] len one
    by (simp add: live_fds_def)
  moreover have "regenerate E s = (if \<not> ok then Some (- 1, s1) else do {
       oassert (0 < length arr);
       (idx, fds, arr) \<leftarrow> regenerate_fds 1 (p_fds p) (arr[0 := ?sig]);
       oassert (idx = fd_event_sources p);
       Some (0, s1\<lparr>poller := p\<lparr>p_fds := fds, pollfds := arr,
         p_signals := filter (\<lambda>b. \<not> ss_killed b) (p_signals p)\<rparr>\<rparr>) })"
    unfolding regenerate_def Let_def p_def [symmetric] a arr_def by simp
  ultimately have "regenerate E s = (if \<not> ok then Some (- 1, s1) else
      Some (0, s1\<lparr>poller := p\<lparr>p_fds := number_from 1 (live_fds p),
        pollfds := ?sig # map pollfd_of (live_fds p) @ drop (Suc ?n) arr,
        p_signals := filter (\<lambda>b. \<not> ss_killed b) (p_signals p)\<rparr>\<rparr>))"
    using n \<open>0 < length arr\<close> by simp
  moreover have "length (pollfds p) \<le> Suc (?n + length (drop (Suc ?n) arr))" using len by simp
  ultimately show ?thesis using f unfolding if_split by blast
qed

lemma regenerate_returns: "poller_ok (poller s) \<Longrightarrow> \<exists>r s'. regenerate E s = Some (r, s')"
  using regenerate_cases [of s E] by blast

lemma live_number_from: "filter (\<lambda>x. \<not> es_killed x) (number_from n (live_fds p)) = number_from n (live_fds p)"
  by (rule filter_True) (auto dest!: number_from_elem simp: live_fds_def)

lemma regenerate_ok:
  assumes "poller_ok (poller s)" and "regenerate E s = Some (r, s')"
  shows "poller_ok (poller s')"
    and "r = 0 \<and> p_fds (poller s') = number_from 1 (live_fds (poller s))
          \<and> take (fd_event_sources (poller s')) (pollfds (poller s'))
            = \<lparr>pfd_fd = fst (signal_fds (poller s)), pfd_events = POLLIN, pfd_revents = 0\<rparr>
              # map pollfd_of (live_fds (poller s))
          \<and> fd_event_sources (poller s') = fd_event_sources (poller s)
        \<or> r = - 1 \<and> poller s' = poller s"
proof -
  let ?p = "poller s"
  have d: "distinct (map es_id (live_fds ?p))" "\<forall>x \<in> set (live_fds ?p). es_id x < p_supply ?p"
    using assms(1) by (auto simp: poller_ok_def live_fds_def intro: distinct_map_filter)
  from regenerate_cases [OF assms(1), of E] show "poller_ok (poller s')"
  proof (elim disjE exE conjE)
    fix s1 assume "regenerate E s = Some (- 1, s1)" "os_frame s s1"
    with assms show ?thesis by (auto dest: os_frame_poller)
  next
    fix s1 rest assume "regenerate E s = Some (0, s1\<lparr>poller := ?p\<lparr>p_fds := number_from 1 (live_fds ?p),
          pollfds := \<lparr>pfd_fd = fst (signal_fds ?p), pfd_events = POLLIN, pfd_revents = 0\<rparr>
            # map pollfd_of (live_fds ?p) @ rest,
          p_signals := filter (\<lambda>b. \<not> ss_killed b) (p_signals ?p)\<rparr>\<rparr>)"
    with assms d show ?thesis
      unfolding poller_ok_def
      by (auto simp: live_number_from live_fds_def [of "_\<lparr>p_fds := _, pollfds := _, p_signals := _\<rparr>"]
          dest!: number_from_elem intro: distinct_map_filter)
  qed
  from regenerate_cases [OF assms(1), of E] assms
  show "r = 0 \<and> p_fds (poller s') = number_from 1 (live_fds (poller s))
          \<and> take (fd_event_sources (poller s')) (pollfds (poller s'))
            = \<lparr>pfd_fd = fst (signal_fds (poller s)), pfd_events = POLLIN, pfd_revents = 0\<rparr>
              # map pollfd_of (live_fds (poller s))
          \<and> fd_event_sources (poller s') = fd_event_sources (poller s)
        \<or> r = - 1 \<and> poller s' = poller s"
    by (auto dest: os_frame_poller simp: poller_ok_def)
qed

section \<open>The order of callbacks\<close>

text \<open>One pass over a fixed list of sources.\<close>

fun dispatch_each :: "(nat \<Rightarrow> 's \<Rightarrow> 's option) \<Rightarrow> nat list \<Rightarrow> 's \<Rightarrow> 's option" where
  "dispatch_each f [] s = Some s"
| "dispatch_each f (i # is) s = do { s \<leftarrow> f i s; dispatch_each f is s }"

lemma elem_after_append:
  assumes "distinct (map key (xs @ x # ys))"
  shows "elem_after key (key x) (xs @ x # ys) = Some (first_elem key ys)"
  using assms by (induction xs) (auto simp: first_elem_def split: list.splits)

lemma elem_after_map: "elem_after key i xs = elem_after (\<lambda>a. a) i (map key xs)"
  by (induction xs) (auto split: list.splits)

text \<open>
  What \<open>dispatch\<close> needs of the callbacks: they keep the sources that are there, in order, and
  put new ones in front.
\<close>

locale fd_callbacks =
  fixes call :: "int \<Rightarrow> u32 \<Rightarrow> 'h \<Rightarrow> ('h, 'z) pstate_scheme \<Rightarrow> (int \<times> ('h, 'z) pstate_scheme) option"
    and inv :: "('h, 'z) pstate_scheme \<Rightarrow> bool"
  assumes inv_poller_ok: "inv s \<Longrightarrow> poller_ok (poller s)"
    and call_inv: "inv s \<Longrightarrow> x \<in> set (p_fds (poller s)) \<Longrightarrow> \<not> es_killed x \<Longrightarrow>
      call fd m (es_handler x) s = Some (r, s') \<Longrightarrow> inv s'"
    and call_extends: "inv s \<Longrightarrow> x \<in> set (p_fds (poller s)) \<Longrightarrow> \<not> es_killed x \<Longrightarrow>
      call fd m (es_handler x) s = Some (r, s') \<Longrightarrow>
      \<exists>new. map es_id (p_fds (poller s')) = new @ map es_id (p_fds (poller s))"
begin

lemma dispatch_fd_inv:
  assumes "inv s" and "dispatch_fd call i s = Some s'"
  shows "inv s'" and "\<exists>new. map es_id (p_fds (poller s')) = new @ map es_id (p_fds (poller s))"
proof -
  from assms(2) obtain x where x: "find_fd i (poller s) = Some x"
    and "s' = s \<or> \<not> es_killed x \<and> (\<exists>fd m r. call fd m (es_handler x) s = Some (r, s'))"
    by (auto simp: dispatch_fd_def bind_eq_Some_conv split: if_splits)
  then consider "s' = s" | fd m r where "\<not> es_killed x" "call fd m (es_handler x) s = Some (r, s')" by blast
  note cases = this
  have x': "x \<in> set (p_fds (poller s))" using find_fd_Some [OF x] by simp
  from cases show "inv s'" by cases (use assms(1) x' call_inv in blast)+
  from cases show "\<exists>new. map es_id (p_fds (poller s')) = new @ map es_id (p_fds (poller s))"
    by cases (use assms(1) x' call_extends in auto)
qed

lemma dispatch_fds_each:
  assumes "inv s" and "map es_id (p_fds (poller s)) = pre @ is"
  shows "dispatch_fds call (first_elem (\<lambda>a. a) is) s = dispatch_each (dispatch_fd call) is s"
  using assms
proof (induction "is" arbitrary: pre s)
  case Nil
  then show ?case by (simp add: first_elem_def dispatch_fds.simps)
next
  case (Cons i "is")
  show ?case
  proof (cases "dispatch_fd call i s")
    case None
    then show ?thesis by (simp add: first_elem_def dispatch_fds.simps [of call "Some i"])
  next
    case (Some s1)
    obtain new where new: "map es_id (p_fds (poller s1)) = new @ pre @ i # is"
      using dispatch_fd_inv(2) [OF Cons.prems(1) Some] Cons.prems(2) by auto
    have "inv s1" by (rule dispatch_fd_inv(1) [OF Cons.prems(1) Some])
    then have "distinct (map es_id (p_fds (poller s1)))" using inv_poller_ok by (auto simp: poller_ok_def)
    then have "elem_after es_id i (p_fds (poller s1)) = Some (first_elem (\<lambda>a. a) is)"
      using elem_after_append [of "\<lambda>a. a" "new @ pre" i "is"] new by (simp add: elem_after_map [of es_id])
    with Some Cons.IH [OF \<open>inv s1\<close>, of "new @ pre @ [i]"] new
    show ?thesis by (simp add: first_elem_def [of _ "i # is"] dispatch_fds.simps [of call "Some i"])
  qed
qed

lemma dispatch_each_inv: "inv s \<Longrightarrow> dispatch_each (dispatch_fd call) is s = Some s' \<Longrightarrow> inv s'"
  by (induction "is" arbitrary: s) (auto simp: bind_eq_Some_conv dest: dispatch_fd_inv(1))

end

text \<open>
  The callbacks of signals: they leave the signal sources alone, apart from the flags that a
  signal handler may set meanwhile.
\<close>

lemma find_key:
  assumes "i \<in> set (map key xs)"
  shows "\<exists>x. find (\<lambda>x. key x = i) xs = Some x \<and> x \<in> set xs \<and> key x = i"
  using assms by (cases "find (\<lambda>x. key x = i) xs") (auto simp: find_None_iff find_Some_iff)

locale signal_callbacks =
  fixes call :: "int \<Rightarrow> 'h \<Rightarrow> ('h, 'z) pstate_scheme \<Rightarrow> (int \<times> ('h, 'z) pstate_scheme) option"
    and inv :: "('h, 'z) pstate_scheme \<Rightarrow> bool"
  assumes inv_ok: "inv s \<Longrightarrow> poller_ok (poller s)"
    and flags: "inv s \<Longrightarrow> inv (s\<lparr>poller := (poller s)\<lparr>p_signals :=
      map (\<lambda>b. if ss_id b = i then b\<lparr>ss_raised := False\<rparr> else b) (p_signals (poller s))\<rparr>\<rparr>)"
    and signal_inv: "inv s \<Longrightarrow> b \<in> set (p_signals (poller s)) \<Longrightarrow>
      call sig (ss_handler b) s = Some (r, s') \<Longrightarrow>
      inv s' \<and> map ss_id (p_signals (poller s')) = map ss_id (p_signals (poller s))
      \<and> map es_id (p_fds (poller s')) = map es_id (p_fds (poller s))"
begin

lemma dispatch_signal_inv:
  assumes "inv s" and "dispatch_signal call i s = Some s'"
  shows "inv s' \<and> map ss_id (p_signals (poller s')) = map ss_id (p_signals (poller s))
    \<and> map es_id (p_fds (poller s')) = map es_id (p_fds (poller s))"
proof -
  from assms(2) obtain b where b: "find (\<lambda>b. ss_id b = i) (p_signals (poller s)) = Some b"
    by (auto simp: dispatch_signal_def bind_eq_Some_conv)
  then have "b \<in> set (p_signals (poller s))" by (auto simp: find_Some_iff)
  show ?thesis
  proof (cases "\<not> ss_raised b \<or> ss_killed b")
    case True
    with assms b show ?thesis by (auto simp: dispatch_signal_def)
  next
    case False
    with assms(2) b obtain r s1 where c: "call (ss_signal b) (ss_handler b) s = Some (r, s1)"
      and s': "s' = s1\<lparr>poller := (poller s1)\<lparr>p_signals :=
         map (\<lambda>b. if ss_id b = i then b\<lparr>ss_raised := False\<rparr> else b) (p_signals (poller s1))\<rparr>\<rparr>"
      by (auto simp: dispatch_signal_def bind_eq_Some_conv)
    have "map ss_id (map (\<lambda>b. if ss_id b = i then b\<lparr>ss_raised := False\<rparr> else b) bs) = map ss_id bs"
      for bs :: "'h event_source_signal list" by simp
    with signal_inv [OF assms(1) \<open>b \<in> _\<close> c] flags [of s1 i] s' show ?thesis by (simp del: map_map)
  qed
qed

lemma dispatch_signals_each:
  assumes "inv s" and "map ss_id (p_signals (poller s)) = pre @ is"
  shows "dispatch_signals call (first_elem (\<lambda>a. a) is) s = dispatch_each (dispatch_signal call) is s"
  using assms
proof (induction "is" arbitrary: pre s)
  case Nil
  then show ?case by (simp add: first_elem_def dispatch_signals.simps)
next
  case (Cons i "is")
  show ?case
  proof (cases "dispatch_signal call i s")
    case None
    then show ?thesis by (simp add: first_elem_def dispatch_signals.simps [of call "Some i"])
  next
    case (Some s1)
    note s1 = dispatch_signal_inv [OF Cons.prems(1) Some]
    then have "poller_ok (poller s1)" using inv_ok by blast
    then have "distinct (map ss_id (p_signals (poller s1)))" by (simp add: poller_ok_def)
    then have "elem_after ss_id i (p_signals (poller s1)) = Some (first_elem (\<lambda>a. a) is)"
      using elem_after_append [of "\<lambda>a. a" pre i "is"] s1 Cons.prems(2) by (simp add: elem_after_map [of ss_id])
    with Some Cons.IH [of s1 "pre @ [i]"] s1 Cons.prems(2)
    show ?thesis by (simp add: first_elem_def [of _ "i # is"] dispatch_signals.simps [of call "Some i"])
  qed
qed

lemma dispatch_signals_inv:
  assumes "inv s" and "dispatch_each (dispatch_signal call) is s = Some s'"
  shows "inv s' \<and> map es_id (p_fds (poller s')) = map es_id (p_fds (poller s))"
  using assms
proof (induction "is" arbitrary: s)
  case (Cons i "is")
  then obtain s1 where "dispatch_signal call i s = Some s1" "dispatch_each (dispatch_signal call) is s1 = Some s'"
    by (auto simp: bind_eq_Some_conv)
  with dispatch_signal_inv [OF Cons.prems(1), of i s1] Cons.IH [of s1] show ?case by simp
qed simp

end

section \<open>Start and retries\<close>

lemma poller_set_nonblock_frame: "os_frame s (snd (poller_set_nonblock E fd s))"
proof -
  obtain f s1 where 1: "sys_fcntl E fd F_GETFL s = (f, s1)" by force
  obtain r s2 where 2: "sys_fcntl E fd (F_SETFL (f OR 0x800)) s1 = (r, s2)" by force
  have "os_frame s s1" "os_frame s1 s2"
    using sys_frames(6) [of s E fd F_GETFL] sys_frames(6) [of s1 E fd "F_SETFL (f OR 0x800)"] 1 2 by auto
  with 1 2 show ?thesis by (auto simp: poller_set_nonblock_def intro: os_frame_trans)
qed

lemma poller_init_ok:
  assumes "poller_init E s = Some (r, s')"
  shows "\<not> global_poller s \<and> pstate.more s' = pstate.more s \<and> (r = 0 \<or> r = - 1)
    \<and> (r = 0 \<longrightarrow> poller_ok (poller s') \<and> p_fds (poller s') = [] \<and> p_signals (poller s') = [] \<and> global_poller s')"
proof -
  obtain q s1 where 1: "sys_pipe E s = (q, s1)" by force
  have f1: "os_frame s s1" using sys_frames(12) [of s E] 1 by simp
  have g: "\<not> global_poller s" using assms by (auto simp: poller_init_def bind_eq_Some_conv)
  show ?thesis
  proof (cases q)
    case (Inl e)
    with assms 1 f1 g show ?thesis by (cases s; cases s1) (auto simp: poller_init_def os_frame_def)
  next
    case (Inr fds)
    let ?s1 = "s1\<lparr>poller := (poller s1)\<lparr>signal_fds := fds\<rparr>\<rparr>"
    obtain r2 s2 where 2: "poller_set_nonblock E (fst fds) ?s1 = (r2, s2)" by force
    obtain r3 s3 where 3: "poller_set_nonblock E (snd fds) s2 = (r3, s3)" by force
    have f: "os_frame ?s1 s2" "os_frame s2 s3"
      using poller_set_nonblock_frame [of ?s1 E "fst fds"] poller_set_nonblock_frame [of s2 E "snd fds"] 2 3 by auto
    have m: "pstate.more s2 = pstate.more s" "pstate.more s3 = pstate.more s"
      using f f1 by (cases s; cases s1; cases s2; cases s3; simp add: os_frame_def)+
    from assms 1 2 3 Inr g m show ?thesis
      by (auto simp: poller_init_def poller_ok_def live_fds_def split: if_splits)
  qed
qed

lemma poll_retry_frame:
  assumes "poll_retry E fds s = Some (r, s')"
  shows "os_frame s s' \<and> r \<noteq> Inl EINTR"
proof -
  let ?P = "\<lambda>E fds s (r, s'). os_frame s s' \<and> r \<noteq> Inl EINTR"
  have "?P E fds s (r, s')"
  proof (rule poll_retry.raw_induct [where P = ?P, OF _ assms])
    fix f E fds s y
    assume ih: "\<And>E fds s y. f E fds s = Some y \<Longrightarrow> ?P E fds s y"
      and eq: "(case sys_poll E fds s of (r, s) \<Rightarrow> if r = Inl EINTR then f E fds s else Some (r, s)) = Some y"
    obtain q s1 where q: "sys_poll E fds s = (q, s1)" by force
    then have f1: "os_frame s s1" using sys_frames(15) [of s E fds] by simp
    show "?P E fds s y"
    proof (cases "q = Inl EINTR")
      case True
      with eq q have "f E fds s1 = Some y" by simp
      from ih [OF this] f1 show ?thesis by (auto intro: os_frame_trans)
    qed (use eq q f1 in auto)
  qed
  then show ?thesis by simp
qed

lemma drain_signals_frame:
  assumes "drain_signals E fd s = Some s'"
  shows "os_frame s s'"
proof (rule drain_signals.raw_induct [where P = "\<lambda>E fd s s'. os_frame s s'", OF _ assms])
  fix f E fd s y
  assume ih: "\<And>E fd s y. f E fd s = Some y \<Longrightarrow> os_frame s y"
    and eq: "(case sys_read E fd 8 s of (r, s) \<Rightarrow> case r of Inl _ \<Rightarrow> Some s | Inr _ \<Rightarrow> f E fd s) = Some y"
  obtain q s1 where q: "sys_read E fd 8 s = (q, s1)" by force
  then have f1: "os_frame s s1" using sys_frames(13) [of s E fd 8] by simp
  show "os_frame s y"
  proof (cases q)
    case (Inr bs)
    with eq q have "f E fd s1 = Some y" by simp
    from ih [OF this] f1 show ?thesis by (rule os_frame_trans [rotated])
  qed (use eq q f1 in auto)
qed

section \<open>Properties\<close>

lemma find_unique: "distinct (map key xs) \<Longrightarrow> x \<in> set xs \<Longrightarrow> find (\<lambda>y. key y = key x) xs = Some x"
  by (induction xs) auto

text \<open>Removing a signal source leaves the handler of the signal installed even when it was the last one: the count of
  sources for the signal includes the one that is being removed, so it is never 0 and the
  default action is not restored.\<close>

lemma signal_handler_stays_installed:
  assumes "b \<in> set (p_signals (poller s))" and "distinct (map ss_id (p_signals (poller s)))" and "\<not> ss_killed b"
  shows "\<exists>s'. event_source_signal_destroy (ss_id b) s = Some s' \<and> trace s' = trace s
    \<and> (\<exists>b' \<in> set (p_signals (poller s')). ss_id b' = ss_id b \<and> ss_killed b')"
proof -
  have find: "find (\<lambda>x. ss_id x = ss_id b) (p_signals (poller s)) = Some b" by (rule find_unique [OF assms(2,1)])
  have "b \<in> set (filter (\<lambda>c. ss_signal c = ss_signal b \<and> \<not> ss_killed c) (p_signals (poller s)))" using assms by simp
  then have "length (filter (\<lambda>c. ss_signal c = ss_signal b \<and> \<not> ss_killed c) (p_signals (poller s))) \<noteq> 0"
    by (metis length_0_conv list.set(1) empty_iff)
  then show ?thesis using find assms(1) by (auto simp: event_source_signal_destroy_def Let_def intro!: bexI [of _ "b\<lparr>ss_killed := True\<rparr>"])
qed

definition sample_pstate :: "unit pstate" where
  "sample_pstate = \<lparr>errno = 0, trace = [], poller = \<lparr>p_signals = [\<lparr>ss_id = 0, ss_handler = (), ss_signal = 10,
      ss_raised = False, ss_killed = False\<rparr>], p_fds = [], signal_fds = (3, 4), pollfds = [], fd_event_sources = 1, dirty = False,
      p_supply = 1\<rparr>, global_poller = True\<rparr>"

end
