(* ===== verification/State.thy ===== *)
theory State
  imports Device Protocol Poller
begin

text \<open>
  The state of the server process: the structures of \<open>include/server.h\<close>, \<open>include/seat.h\<close> and
  \<open>include/client.h\<close>. Seats and clients live in heaps indexed by identities that stand for their
  addresses; a missing entry is freed memory, so following a dangling pointer does not return.
  The lists that link them are lists of identities in \<open>next\<close> order, which is what theory
  \<open>Linked_List\<close> shows the intrusive lists to be: inserting puts an element in front, removing a
  link takes it out of whatever list it is in. A device belongs to the list of one client and is
  named by its position there. There is one server, so the pointer from a client to it has no
  counterpart.
\<close>

datatype client_state = CLIENT_NEW | CLIENT_ACTIVE | CLIENT_PENDING_DISABLE | CLIENT_DISABLED
  | CLIENT_CLOSED

datatype seat_device_type = SEAT_DEVICE_TYPE_NORMAL | SEAT_DEVICE_TYPE_EVDEV
  | SEAT_DEVICE_TYPE_HIDRAW | SEAT_DEVICE_TYPE_DRM | SEAT_DEVICE_TYPE_WSCONS

record seat_device =
  device_id :: int
  dev_fd :: int
  ref_cnt :: int
  dev_active :: bool
  dev_path :: string
  dev_type :: seat_device_type

record client =
  event_source :: "nat option"
  connection :: Connection.connection
  c_pid :: int
  c_uid :: int
  c_gid :: int
  c_seat :: "nat option"
  c_session :: int
  c_state :: client_state
  c_devices :: "seat_device list"

record seat =
  seat_name :: string
  s_clients :: "nat list"
  active_client :: "nat option"
  next_client :: "nat option"
  vt_bound :: bool
  cur_vt :: int
  session_cnt :: int

text \<open>The callbacks that the server registers, with their data.\<close>

datatype handler = Server_handle_connection | Client_handle_connection nat
  | Server_handle_vt_rel | Server_handle_vt_acq | Server_handle_kill

record sys = "handler pstate" +
  running :: bool
  seats :: "nat list"
  idle_clients :: "nat list"
  seat_heap :: "nat \<rightharpoonup> seat"
  client_heap :: "nat \<rightharpoonup> client"
  next_addr :: nat

section \<open>Access through pointers\<close>

definition upd_client :: "nat \<Rightarrow> (client \<Rightarrow> client) \<Rightarrow> sys \<Rightarrow> sys option" where
  "upd_client c f s = do {
     k \<leftarrow> client_heap s c;
     Some (s\<lparr>client_heap := (client_heap s)(c \<mapsto> f k)\<rparr>) }"

definition upd_seat :: "nat \<Rightarrow> (seat \<Rightarrow> seat) \<Rightarrow> sys \<Rightarrow> sys option" where
  "upd_seat st f s = do {
     x \<leftarrow> seat_heap s st;
     Some (s\<lparr>seat_heap := (seat_heap s)(st \<mapsto> f x)\<rparr>) }"

text \<open>\<open>linked_list_remove(&client->link)\<close>\<close>

definition unlink_client :: "nat \<Rightarrow> sys \<Rightarrow> sys" where
  "unlink_client c s = s\<lparr>idle_clients := removeAll c (idle_clients s),
     seat_heap := (\<lambda>st. map_option (\<lambda>x. x\<lparr>s_clients := removeAll c (s_clients x)\<rparr>) (seat_heap s st))\<rparr>"

text \<open>
  A loop over a list of clients that stops at the first that satisfies a condition; every client
  it looks at is dereferenced.
\<close>

fun find_client :: "(client \<Rightarrow> bool) \<Rightarrow> nat list \<Rightarrow> sys \<Rightarrow> nat option option" where
  "find_client P [] s = Some None"
| "find_client P (c # cs) s = do {
     k \<leftarrow> client_heap s c;
     if P k then Some (Some c) else find_client P cs s }"

text \<open>The connection calls on \<open>&client->connection\<close>.\<close>

definition client_put :: "env \<Rightarrow> nat \<Rightarrow> bytes \<Rightarrow> sys \<Rightarrow> (int \<times> sys) option" where
  "client_put E c bs s = do {
     k \<leftarrow> client_heap s c;
     (r, cn, s) \<leftarrow> connection_put E (connection k) bs s;
     s \<leftarrow> upd_client c (\<lambda>k. k\<lparr>connection := cn\<rparr>) s;
     Some (r, s) }"

definition client_conn_flush :: "env \<Rightarrow> nat \<Rightarrow> sys \<Rightarrow> (int \<times> sys) option" where
  "client_conn_flush E c s = do {
     k \<leftarrow> client_heap s c;
     (r, cn, s) \<leftarrow> connection_flush E (connection k) s;
     s \<leftarrow> upd_client c (\<lambda>k. k\<lparr>connection := cn\<rparr>) s;
     Some (r, s) }"

definition client_get :: "nat \<Rightarrow> nat \<Rightarrow> sys \<Rightarrow> (bytes option \<times> sys) option" where
  "client_get c n s = do {
     k \<leftarrow> client_heap s c;
     (r, cn, s) \<leftarrow> connection_get (connection k) n s;
     s \<leftarrow> upd_client c (\<lambda>k. k\<lparr>connection := cn\<rparr>) s;
     Some (r, s) }"

text \<open>
  Several \<open>connection_put\<close> joined by \<open>||\<close>: the first that fails ends the sequence.
\<close>

fun client_put_all :: "env \<Rightarrow> nat \<Rightarrow> bytes list \<Rightarrow> sys \<Rightarrow> (int \<times> sys) option" where
  "client_put_all E c [] s = Some (0, s)"
| "client_put_all E c (bs # bss) s = do {
     (r, s) \<leftarrow> client_put E c bs s;
     if r = - 1 then Some (- 1, s) else client_put_all E c bss s }"

section \<open>Events sent by the seat\<close>

definition client_send_event :: "env \<Rightarrow> u16 \<Rightarrow> nat \<Rightarrow> sys \<Rightarrow> (int \<times> sys) option" where
  "client_send_event E op c s = do {
     (r, s) \<leftarrow> client_put E c (header_bytes op 0) s;
     if r = - 1 then Some (- 1, s)
     else do {
       (r, s) \<leftarrow> client_conn_flush E c s;
       if r = - 1 then Some (- 1, s) else Some (0, s) } }"

definition client_send_disable_seat :: "env \<Rightarrow> nat \<Rightarrow> sys \<Rightarrow> (int \<times> sys) option" where
  "client_send_disable_seat E c s = client_send_event E SERVER_DISABLE_SEAT c s"

definition client_send_enable_seat :: "env \<Rightarrow> nat \<Rightarrow> sys \<Rightarrow> (int \<times> sys) option" where
  "client_send_enable_seat E c s = client_send_event E SERVER_ENABLE_SEAT c s"

end
