(* ===== verification/Seat.thy ===== *)
theory Seat
  imports State
begin

text \<open>
  The seat component, \<open>seatd/seat.c\<close>: which client of a seat is active, how access passes from
  one to the next, and the devices that a client holds.
\<close>

section \<open>Virtual terminals\<close>

definition seat_update_vt :: "env \<Rightarrow> nat \<Rightarrow> sys \<Rightarrow> sys option" where
  "seat_update_vt E st s = do {
     (tty0fd, s) \<leftarrow> terminal_open E 0 s;
     if tty0fd = - 1 then Some s
     else do {
       let (vt, s) = terminal_current_vt E tty0fd s;
       s \<leftarrow> upd_seat st (\<lambda>x. x\<lparr>cur_vt := vt\<rparr>) s;
       Some (sys_close E tty0fd s) } }"

definition vt_open :: "env \<Rightarrow> int \<Rightarrow> sys \<Rightarrow> (int \<times> sys) option" where
  "vt_open E vt s = do {
     (ttyfd, s) \<leftarrow> terminal_open E vt s;
     if ttyfd = - 1 then Some (- 1, s)
     else do {
       let (_, s) = terminal_set_process_switching E ttyfd True s;
       let (_, s) = terminal_set_keyboard E ttyfd False s;
       let (_, s) = terminal_set_graphics E ttyfd True s;
       Some (0, sys_close E ttyfd s) } }"

definition vt_close :: "env \<Rightarrow> int \<Rightarrow> sys \<Rightarrow> (int \<times> sys) option" where
  "vt_close E vt s = do {
     (ttyfd, s) \<leftarrow> terminal_open E vt s;
     if ttyfd = - 1 then Some (- 1, s)
     else do {
       let (_, s) = terminal_set_process_switching E ttyfd True s;
       let (_, s) = terminal_set_keyboard E ttyfd True s;
       let (_, s) = terminal_set_graphics E ttyfd False s;
       Some (0, sys_close E ttyfd s) } }"

definition vt_switch :: "env \<Rightarrow> nat \<Rightarrow> int \<Rightarrow> sys \<Rightarrow> (int \<times> sys) option" where
  "vt_switch E st vt s = do {
     x \<leftarrow> seat_heap s st;
     (ttyfd, s) \<leftarrow> terminal_open E (cur_vt x) s;
     if ttyfd = - 1 then Some (- 1, s)
     else do {
       let (_, s) = terminal_set_process_switching E ttyfd True s;
       let (_, s) = terminal_switch_vt E ttyfd vt s;
       Some (0, sys_close E ttyfd s) } }"

definition vt_ack :: "env \<Rightarrow> nat \<Rightarrow> bool \<Rightarrow> sys \<Rightarrow> (int \<times> sys) option" where
  "vt_ack E st release s = do {
     x \<leftarrow> seat_heap s st;
     (tty0fd, s) \<leftarrow> terminal_open E (cur_vt x) s;
     if tty0fd = - 1 then Some (- 1, s)
     else do {
       let (_, s) = (if release then terminal_ack_release E tty0fd s else terminal_ack_acquire E tty0fd s);
       Some (0, sys_close E tty0fd s) } }"

section \<open>Devices\<close>

text \<open>A device found is its position in the client's list.\<close>

definition seat_find_device :: "nat \<Rightarrow> int \<Rightarrow> sys \<Rightarrow> (nat option \<times> sys) option" where
  "seat_find_device c dev_id s =
     (if dev_id = 0 then Some (None, s\<lparr>errno := EINVAL\<rparr>)
      else do {
        k \<leftarrow> client_heap s c;
        case find_index (\<lambda>d. device_id d = dev_id) (c_devices k) of
          Some i \<Rightarrow> Some (Some i, s)
        | None \<Rightarrow> Some (None, s\<lparr>errno := ENOENT\<rparr>) })"

definition device_class :: "env \<Rightarrow> string \<Rightarrow> seat_device_type option" where
  "device_class E path =
     (if path_is_evdev E path then Some SEAT_DEVICE_TYPE_EVDEV
      else if path_is_drm E path then Some SEAT_DEVICE_TYPE_DRM
      else if path_is_wscons E path then Some SEAT_DEVICE_TYPE_WSCONS
      else if path_is_hidraw E path then Some SEAT_DEVICE_TYPE_HIDRAW
      else None)"

text \<open>
  The loop of \<open>seat_open_device\<close> over the devices that are open: either the position of one with
  the same path, or the next free identifier and the number of devices.
\<close>

fun scan_devices :: "string \<Rightarrow> seat_device list \<Rightarrow> int \<Rightarrow> nat \<Rightarrow> (nat + int \<times> nat) option" where
  "scan_devices path [] dev_id count = Some (Inr (dev_id, count))"
| "scan_devices path (d # ds) dev_id count =
     (if dev_path d = path then Some (Inl count)
      else do {
        dev_id \<leftarrow> (if device_id d \<ge> dev_id then int_incr (device_id d) else Some dev_id);
        scan_devices path ds dev_id (count + 1) })"

text \<open>
  The rest of \<open>seat_open_device\<close> for a path that is not open yet. The device type is one of the
  four that \<open>device_class\<close> gives; for another type the code aborts.
\<close>

definition open_new_device ::
    "env \<Rightarrow> nat \<Rightarrow> string \<Rightarrow> seat_device_type \<Rightarrow> int \<Rightarrow> sys \<Rightarrow> (nat option \<times> sys) option" where
  "open_new_device E c sanitized_path type dev_id s = do {
     let (fd, s) = sys_open E sanitized_path [O_RDWR, O_NOCTTY, O_NOFOLLOW, O_CLOEXEC, O_NONBLOCK] s;
     if fd = - 1 then Some (None, s)
     else do {
       oassert (type \<noteq> SEAT_DEVICE_TYPE_NORMAL);
       let (_, s) = (if type = SEAT_DEVICE_TYPE_DRM then drm_set_master E fd s else (0, s));
       let (ok, s) = sys_alloc E s;
       if \<not> ok then Some (None, (sys_close E fd s)\<lparr>errno := ENOMEM\<rparr>)
       else do {
         let (ok, s) = sys_alloc E s;
         if \<not> ok then Some (None, sys_close E fd s)
         else do {
           s \<leftarrow> upd_client c (\<lambda>k. k\<lparr>c_devices := \<lparr>device_id = dev_id, dev_fd = fd, ref_cnt = 1,
                  dev_active = True, dev_path = sanitized_path, dev_type = type\<rparr> # c_devices k\<rparr>) s;
           Some (Some 0, s) } } } }"

definition seat_open_device :: "env \<Rightarrow> nat \<Rightarrow> string \<Rightarrow> sys \<Rightarrow> (nat option \<times> sys) option" where
  "seat_open_device E c path s = do {
     k \<leftarrow> client_heap s c;
     st \<leftarrow> c_seat k;
     x \<leftarrow> seat_heap s st;
     if c_state k \<noteq> CLIENT_ACTIVE then Some (None, s\<lparr>errno := EPERM\<rparr>)
     else do {
       oassert (active_client x = Some c);
       let (rp, s) = sys_realpath E path s;
       (case rp of Inl _ \<Rightarrow> Some (None, s)
        | Inr sanitized_path \<Rightarrow>
       (case device_class E sanitized_path of None \<Rightarrow> Some (None, s\<lparr>errno := ENOENT\<rparr>)
        | Some type \<Rightarrow> do {
       scan \<leftarrow> scan_devices sanitized_path (c_devices k) 1 0;
       (case scan of
          Inl i \<Rightarrow> do {
            n \<leftarrow> int_incr (ref_cnt (c_devices k ! i));
            s \<leftarrow> upd_client c (\<lambda>k. k\<lparr>c_devices := (c_devices k)[i := (c_devices k ! i)\<lparr>ref_cnt := n\<rparr>]\<rparr>) s;
            Some (None, s) }
        | Inr (dev_id, device_count) \<Rightarrow>
            if device_count \<ge> MAX_SEAT_DEVICES then Some (None, s\<lparr>errno := EMFILE\<rparr>)
            else open_new_device E c sanitized_path type dev_id s) })) } }"

definition seat_deactivate_device :: "env \<Rightarrow> seat_device \<Rightarrow> 'a os_scheme \<Rightarrow> (int \<times> seat_device \<times> 'a os_scheme) option" where
  "seat_deactivate_device E d s =
     (if \<not> dev_active d then Some (0, d, s)
      else do {
        (r, s) \<leftarrow> (case dev_type d of
           SEAT_DEVICE_TYPE_DRM \<Rightarrow> Some (drm_drop_master E (dev_fd d) s)
         | SEAT_DEVICE_TYPE_EVDEV \<Rightarrow> Some (evdev_revoke E (dev_fd d) s)
         | SEAT_DEVICE_TYPE_HIDRAW \<Rightarrow> Some (hidraw_revoke E (dev_fd d) s)
         | SEAT_DEVICE_TYPE_WSCONS \<Rightarrow> Some (0, s)
         | SEAT_DEVICE_TYPE_NORMAL \<Rightarrow> None);
        if r = - 1 then Some (- 1, d, s) else Some (0, d\<lparr>dev_active := False\<rparr>, s) })"

definition seat_close_device :: "env \<Rightarrow> nat \<Rightarrow> nat \<Rightarrow> sys \<Rightarrow> (int \<times> sys) option" where
  "seat_close_device E c i s = do {
     k \<leftarrow> client_heap s c;
     d \<leftarrow> nth_opt (c_devices k) i;
     st \<leftarrow> c_seat k;
     x \<leftarrow> seat_heap s st;
     n \<leftarrow> int_decr (ref_cnt d);
     if n > 0 then do {
       s \<leftarrow> upd_client c (\<lambda>k. k\<lparr>c_devices := (c_devices k)[i := d\<lparr>ref_cnt := n\<rparr>]\<rparr>) s;
       Some (0, s) }
     else do {
       s \<leftarrow> upd_client c (\<lambda>k. k\<lparr>c_devices := remove_nth i (c_devices k)\<rparr>) s;
       s \<leftarrow> (if dev_fd d \<noteq> - 1 then do {
               (r, d, s) \<leftarrow> seat_deactivate_device E d s;
               Some (sys_close E (dev_fd d) s) }
             else Some s);
       Some (0, s) } }"

definition seat_activate_device :: "env \<Rightarrow> seat_device \<Rightarrow> 'a os_scheme \<Rightarrow> (int \<times> seat_device \<times> 'a os_scheme) option" where
  "seat_activate_device E d s =
     (if dev_active d then Some (0, d, s)
      else case dev_type d of
        SEAT_DEVICE_TYPE_DRM \<Rightarrow>
          (let (r, s) = drm_set_master E (dev_fd d) s in Some (0, d\<lparr>dev_active := True\<rparr>, s))
      | SEAT_DEVICE_TYPE_EVDEV \<Rightarrow> Some (- 1, d, s\<lparr>errno := EINVAL\<rparr>)
      | SEAT_DEVICE_TYPE_HIDRAW \<Rightarrow> Some (- 1, d, s\<lparr>errno := EINVAL\<rparr>)
      | SEAT_DEVICE_TYPE_WSCONS \<Rightarrow> Some (0, d, s)
      | SEAT_DEVICE_TYPE_NORMAL \<Rightarrow> None)"

text \<open>A loop that applies an operation to every device of a list and only logs failures.\<close>

fun each_device ::
    "(seat_device \<Rightarrow> 'a os_scheme \<Rightarrow> (int \<times> seat_device \<times> 'a os_scheme) option) \<Rightarrow> seat_device list \<Rightarrow>
     'a os_scheme \<Rightarrow> (seat_device list \<times> 'a os_scheme) option" where
  "each_device f [] s = Some ([], s)"
| "each_device f (d # ds) s = do {
     (r, d, s) \<leftarrow> f d s;
     (ds, s) \<leftarrow> each_device f ds s;
     Some (d # ds, s) }"

section \<open>Clients of a seat\<close>

text \<open>
  The new seat is not in the server's list yet. \<open>calloc\<close> and \<open>strdup\<close> may fail.
\<close>

definition seat_create :: "env \<Rightarrow> string \<Rightarrow> bool \<Rightarrow> sys \<Rightarrow> nat option \<times> sys" where
  "seat_create E name vt s =
     (let (ok, s) = sys_alloc E s in
      if \<not> ok then (None, s)
      else let (ok, s) = sys_alloc E s in
        if \<not> ok then (None, s)
        else let st = next_addr s in
          (Some st, s\<lparr>next_addr := Suc st, seat_heap := (seat_heap s)(st \<mapsto>
             \<lparr>seat_name = name, s_clients = [], active_client = None, next_client = None,
              vt_bound = vt, cur_vt = 0, session_cnt = 0\<rparr>)\<rparr>))"

definition seat_open_client :: "env \<Rightarrow> nat \<Rightarrow> nat \<Rightarrow> sys \<Rightarrow> (int \<times> sys) option" where
  "seat_open_client E st c s = do {
     k \<leftarrow> client_heap s c;
     oassert (c_seat k = Some st);
     x \<leftarrow> seat_heap s st;
     if c_state k \<noteq> CLIENT_NEW \<and> c_state k \<noteq> CLIENT_DISABLED then Some (- 1, s\<lparr>errno := EALREADY\<rparr>)
     else if active_client x \<noteq> None then Some (- 1, s\<lparr>errno := EBUSY\<rparr>)
     else do {
       (r, s) \<leftarrow> (if vt_bound x then vt_open E (c_session k) s else Some (0, s));
       (r, s) \<leftarrow>
         (if r = - 1 then Some (- 1, s)
          else do {
            (ds, s) \<leftarrow> each_device (seat_activate_device E) (c_devices k) s;
            s \<leftarrow> upd_client c (\<lambda>k. k\<lparr>c_devices := ds, c_state := CLIENT_ACTIVE\<rparr>) s;
            s \<leftarrow> upd_seat st (\<lambda>x. x\<lparr>active_client := Some c\<rparr>) s;
            client_send_enable_seat E c s });
       if r = - 1 then do {
         (_, s) \<leftarrow> (if vt_bound x then vt_close E (cur_vt x) s else Some (0, s));
         Some (- 1, s) }
       else Some (0, s) } }"

definition seat_activate :: "env \<Rightarrow> nat \<Rightarrow> sys \<Rightarrow> (int \<times> sys) option" where
  "seat_activate E st s = do {
     x \<leftarrow> seat_heap s st;
     if active_client x \<noteq> None then Some (0, s)
     else case next_client x of
       Some c \<Rightarrow> do {
         s \<leftarrow> upd_seat st (\<lambda>x. x\<lparr>next_client := None\<rparr>) s;
         seat_open_client E st c s }
     | None \<Rightarrow>
         if s_clients x = [] then Some (- 1, s)
         else if vt_bound x \<and> cur_vt x = - 1 then Some (- 1, s)
         else if vt_bound x then do {
           found \<leftarrow> find_client (\<lambda>k. c_session k = cur_vt x) (s_clients x) s;
           (case found of None \<Rightarrow> Some (- 1, s) | Some c \<Rightarrow> seat_open_client E st c s) }
         else seat_open_client E st (hd (s_clients x)) s }"

text \<open>The session of a new client: the current terminal, or the next number of the seat.\<close>

definition assign_session :: "env \<Rightarrow> nat \<Rightarrow> nat \<Rightarrow> sys \<Rightarrow> (int \<times> sys) option" where
  "assign_session E st c s = do {
     x \<leftarrow> seat_heap s st;
     if vt_bound x then do {
       s \<leftarrow> seat_update_vt E st s;
       x \<leftarrow> seat_heap s st;
       if cur_vt x = - 1 then Some (- 1, s\<lparr>errno := EINVAL\<rparr>)
       else do {
         found \<leftarrow> (if active_client x \<noteq> None
                   then find_client (\<lambda>k. c_session k = cur_vt x) (s_clients x) s else Some None);
         if found \<noteq> None then Some (- 1, s\<lparr>errno := EBUSY\<rparr>)
         else do {
           s \<leftarrow> upd_client c (\<lambda>k. k\<lparr>c_session := cur_vt x\<rparr>) s;
           Some (0, s) } } }
     else do {
       n \<leftarrow> int_incr (session_cnt x);
       s \<leftarrow> upd_client c (\<lambda>k. k\<lparr>c_session := session_cnt x\<rparr>) s;
       s \<leftarrow> upd_seat st (\<lambda>x. x\<lparr>session_cnt := n\<rparr>) s;
       Some (0, s) } }"

text \<open>\<open>client->seat = seat\<close> and the move from the list of idle clients to that of the seat.\<close>

definition link_client :: "nat \<Rightarrow> nat \<Rightarrow> sys \<Rightarrow> sys option" where
  "link_client st c s = do {
     s \<leftarrow> upd_client c (\<lambda>k. k\<lparr>c_seat := Some st\<rparr>) s;
     upd_seat st (\<lambda>x. x\<lparr>s_clients := c # s_clients x\<rparr>) (unlink_client c s) }"

definition seat_add_client :: "env \<Rightarrow> nat \<Rightarrow> nat \<Rightarrow> sys \<Rightarrow> (int \<times> sys) option" where
  "seat_add_client E st c s = do {
     k \<leftarrow> client_heap s c;
     if c_seat k \<noteq> None then Some (- 1, s\<lparr>errno := EBUSY\<rparr>)
     else do {
       x \<leftarrow> seat_heap s st;
       busy \<leftarrow> (case active_client x of None \<Rightarrow> Some False
          | Some a \<Rightarrow> if vt_bound x then do { ka \<leftarrow> client_heap s a; Some (c_state ka \<noteq> CLIENT_PENDING_DISABLE) }
                      else Some False);
       if busy then Some (- 1, s\<lparr>errno := EBUSY\<rparr>)
       else if c_session k \<noteq> - 1 then Some (- 1, s\<lparr>errno := EINVAL\<rparr>)
       else do {
         (r, s) \<leftarrow> assign_session E st c s;
         if r = - 1 then Some (- 1, s)
         else do {
           s \<leftarrow> link_client st c s;
           Some (0, s) } } } }"

text \<open>\<open>while (!linked_list_empty(&client->devices)) seat_close_device(...)\<close>\<close>

partial_function (option) close_devices :: "env \<Rightarrow> nat \<Rightarrow> sys \<Rightarrow> sys option" where
  [code]: "close_devices E c s = do {
     k \<leftarrow> client_heap s c;
     if c_devices k = [] then Some s
     else do {
       (r, s) \<leftarrow> seat_close_device E c 0 s;
       close_devices E c s } }"

text \<open>
  The two steps of \<open>seat_remove_client\<close> after the devices are closed: passing the seat on if the
  client was current, and resetting its terminal.
\<close>

definition hand_over :: "env \<Rightarrow> nat \<Rightarrow> nat \<Rightarrow> sys \<Rightarrow> (bool \<times> sys) option" where
  "hand_over E st c s = do {
     x \<leftarrow> seat_heap s st;
     if active_client x = Some c then do {
       s \<leftarrow> upd_seat st (\<lambda>x. x\<lparr>active_client := None\<rparr>) s;
       (_, s) \<leftarrow> seat_activate E st s;
       Some (True, s) }
     else Some (False, s) }"

definition reset_vt :: "env \<Rightarrow> nat \<Rightarrow> nat \<Rightarrow> bool \<Rightarrow> sys \<Rightarrow> sys option" where
  "reset_vt E st c was_current s = do {
     x \<leftarrow> seat_heap s st;
     k \<leftarrow> client_heap s c;
     if vt_bound x then
       if was_current \<and> active_client x = None then do { (_, s) \<leftarrow> vt_close E (cur_vt x) s; Some s }
       else if \<not> was_current \<and> c_state k \<noteq> CLIENT_CLOSED then do { (_, s) \<leftarrow> vt_close E (c_session k) s; Some s }
       else Some s
     else Some s }"

definition seat_remove_client :: "env \<Rightarrow> nat \<Rightarrow> sys \<Rightarrow> sys option" where
  "seat_remove_client E c s = do {
     k \<leftarrow> client_heap s c;
     st \<leftarrow> c_seat k;
     s \<leftarrow> upd_seat st (\<lambda>x. if next_client x = Some c then x\<lparr>next_client := None\<rparr> else x) s;
     s \<leftarrow> close_devices E c (unlink_client c s);
     (was_current, s) \<leftarrow> hand_over E st c s;
     s \<leftarrow> reset_vt E st c was_current s;
     upd_client c (\<lambda>k. k\<lparr>c_state := CLIENT_CLOSED, c_seat := None\<rparr>) s }"

definition seat_disable_client :: "env \<Rightarrow> nat \<Rightarrow> sys \<Rightarrow> (int \<times> sys) option" where
  "seat_disable_client E c s = do {
     k \<leftarrow> client_heap s c;
     if c_state k \<noteq> CLIENT_ACTIVE then Some (- 1, s\<lparr>errno := EBUSY\<rparr>)
     else do {
       st \<leftarrow> c_seat k;
       x \<leftarrow> seat_heap s st;
       oassert (active_client x = Some c);
       (ds, s) \<leftarrow> each_device (seat_deactivate_device E) (c_devices k) s;
       s \<leftarrow> upd_client c (\<lambda>k. k\<lparr>c_devices := ds, c_state := CLIENT_PENDING_DISABLE\<rparr>) s;
       (r, s) \<leftarrow> client_send_disable_seat E c s;
       if r = - 1 then Some (- 1, s) else Some (0, s) } }"

definition seat_ack_disable_client :: "env \<Rightarrow> nat \<Rightarrow> sys \<Rightarrow> (int \<times> sys) option" where
  "seat_ack_disable_client E c s = do {
     k \<leftarrow> client_heap s c;
     if c_state k \<noteq> CLIENT_PENDING_DISABLE then Some (- 1, s\<lparr>errno := EBUSY\<rparr>)
     else do {
       s \<leftarrow> upd_client c (\<lambda>k. k\<lparr>c_state := CLIENT_DISABLED\<rparr>) s;
       st \<leftarrow> c_seat k;
       x \<leftarrow> seat_heap s st;
       if active_client x \<noteq> Some c then Some (0, s)
       else do {
         s \<leftarrow> upd_seat st (\<lambda>x. x\<lparr>active_client := None\<rparr>) s;
         (_, s) \<leftarrow> seat_activate E st s;
         Some (0, s) } } }"

definition seat_set_next_session :: "env \<Rightarrow> nat \<Rightarrow> int \<Rightarrow> sys \<Rightarrow> (int \<times> sys) option" where
  "seat_set_next_session E c session s = do {
     k \<leftarrow> client_heap s c;
     if c_state k \<noteq> CLIENT_ACTIVE then Some (- 1, s\<lparr>errno := EPERM\<rparr>)
     else do {
       st \<leftarrow> c_seat k;
       x \<leftarrow> seat_heap s st;
       oassert (active_client x = Some c);
       if session \<le> 0 then Some (- 1, s\<lparr>errno := EINVAL\<rparr>)
       else if session = c_session k then Some (0, s)
       else if next_client x \<noteq> None then Some (0, s)
       else if vt_bound x then do {
         (r, s) \<leftarrow> vt_switch E st session s;
         if r = - 1 then Some (- 1, s) else Some (0, s) }
       else do {
         target \<leftarrow> find_client (\<lambda>k. c_session k = session) (s_clients x) s;
         (case target of None \<Rightarrow> Some (- 1, s\<lparr>errno := EINVAL\<rparr>)
          | Some t \<Rightarrow> do {
              s \<leftarrow> upd_seat st (\<lambda>x. x\<lparr>next_client := Some t\<rparr>) s;
              (_, s) \<leftarrow> seat_disable_client E c s;
              Some (0, s) }) } } }"

definition seat_vt_activate :: "env \<Rightarrow> nat \<Rightarrow> sys \<Rightarrow> (int \<times> sys) option" where
  "seat_vt_activate E st s = do {
     x \<leftarrow> seat_heap s st;
     if \<not> vt_bound x then Some (- 1, s)
     else do {
       s \<leftarrow> seat_update_vt E st s;
       (_, s) \<leftarrow> vt_ack E st False s;
       x \<leftarrow> seat_heap s st;
       s \<leftarrow> (if active_client x = None then do { (_, s) \<leftarrow> seat_activate E st s; Some s } else Some s);
       Some (0, s) } }"

definition seat_vt_release :: "env \<Rightarrow> nat \<Rightarrow> sys \<Rightarrow> (int \<times> sys) option" where
  "seat_vt_release E st s = do {
     x \<leftarrow> seat_heap s st;
     if \<not> vt_bound x then Some (- 1, s)
     else do {
       s \<leftarrow> seat_update_vt E st s;
       x \<leftarrow> seat_heap s st;
       s \<leftarrow> (case active_client x of None \<Rightarrow> Some s
             | Some c \<Rightarrow> do { (_, s) \<leftarrow> seat_disable_client E c s; Some s });
       (_, s) \<leftarrow> vt_ack E st True s;
       s \<leftarrow> upd_seat st (\<lambda>x. x\<lparr>cur_vt := - 1\<rparr>) s;
       Some (0, s) } }"

end
