(* ===== verification/Client.thy ===== *)
theory Client
  imports Seat
begin

unbundle bit_operations_syntax

text \<open>
  The client component, \<open>seatd/client.c\<close>: the life of a connection, the handlers of the protocol's
  requests, and the loop that takes requests off the input buffer.
\<close>

section \<open>Creation and destruction\<close>

definition get_peer :: "env \<Rightarrow> int \<Rightarrow> 'a os_scheme \<Rightarrow> (int \<times> int \<times> int) option \<times> 'a os_scheme" where
  "get_peer E fd s =
     (let (r, s) = sys_getpeer E fd s in
      case platform E of
        Linux \<Rightarrow> (case r of Inl _ \<Rightarrow> (None, s) | Inr cr \<Rightarrow> (Some (cred_pid cr, cred_uid cr, cred_gid cr), s))
      | NetBSD \<Rightarrow> (case r of Inl _ \<Rightarrow> if errno s = EINVAL then (Some (self_ids E), s) else (None, s)
                  | Inr cr \<Rightarrow> (Some (cred_pid cr, cred_uid cr, cred_gid cr), s))
      | FreeBSD \<Rightarrow> (case r of Inl _ \<Rightarrow> (None, s)
                  | Inr cr \<Rightarrow> (Some (if have_cr_pid E then cred_pid cr else - 1, cred_uid cr,
                      if cred_ngroups cr > 0 then cred_gid cr else 4294967295), s)))"

text \<open>Zeroed memory as \<open>calloc\<close> returns it.\<close>

definition zero_buffer :: connection_buffer where
  "zero_buffer = \<lparr>head = 0, tail = 0, data = replicate CONNECTION_BUFFER_SIZE 0\<rparr>"

definition zero_connection :: "int \<Rightarrow> Connection.connection" where
  "zero_connection fd = \<lparr>conn_in = zero_buffer, conn_out = zero_buffer, fds_in = zero_buffer,
     fds_out = zero_buffer, conn_fd = fd, want_flush = False\<rparr>"

definition client_create :: "env \<Rightarrow> int \<Rightarrow> sys \<Rightarrow> nat option \<times> sys" where
  "client_create E fd s =
     (let (peer, s) = get_peer E fd s in
      case peer of None \<Rightarrow> (None, s)
      | Some (pid, uid, gid) \<Rightarrow>
        let (ok, s) = sys_alloc E s in
        if \<not> ok then (None, s)
        else let c = next_addr s in
          (Some c, s\<lparr>next_addr := Suc c, idle_clients := c # idle_clients s,
             client_heap := (client_heap s)(c \<mapsto> \<lparr>event_source = None, connection = zero_connection fd,
               c_pid = pid, c_uid = uid, c_gid = gid, c_seat = None, c_session = - 1,
               c_state = CLIENT_NEW, c_devices = []\<rparr>)\<rparr>))"

definition client_destroy :: "env \<Rightarrow> nat \<Rightarrow> sys \<Rightarrow> sys option" where
  "client_destroy E c s = do {
     k \<leftarrow> client_heap s c;
     let s = (if libseat_build E then s\<lparr>running := False\<rparr> else s);
     s \<leftarrow> (if conn_fd (connection k) \<noteq> - 1 then
             upd_client c (\<lambda>k. k\<lparr>connection := (connection k)\<lparr>conn_fd := - 1\<rparr>\<rparr>)
               (sys_close E (conn_fd (connection k)) s)
           else Some s);
     s \<leftarrow> (if c_seat k \<noteq> None then seat_remove_client E c s else Some s);
     let s = unlink_client c s;
     k \<leftarrow> client_heap s c;
     s \<leftarrow> (case event_source k of None \<Rightarrow> Some s
           | Some i \<Rightarrow> do {
               s \<leftarrow> event_source_fd_destroy i s;
               upd_client c (\<lambda>k. k\<lparr>event_source := None\<rparr>) s });
     k \<leftarrow> client_heap s c;
     (cn, s) \<leftarrow> connection_close_fds E (connection k) s;
     oassert (c_devices k = []);
     Some (s\<lparr>client_heap := (client_heap s)(c := None)\<rparr>) }"

section \<open>Replies\<close>

definition client_flush :: "env \<Rightarrow> nat \<Rightarrow> sys \<Rightarrow> (int \<times> sys) option" where
  "client_flush E c s = do {
     (ret, s) \<leftarrow> client_conn_flush E c s;
     if ret = - 1 \<and> errno s = EAGAIN then do {
       k \<leftarrow> client_heap s c;
       i \<leftarrow> event_source k;
       s \<leftarrow> event_source_fd_update i (EVENT_READABLE OR EVENT_WRITABLE) s;
       Some (0, s) }
     else if ret = - 1 then Some (- 1, s)
     else Some (0, s) }"

definition client_send_error :: "env \<Rightarrow> nat \<Rightarrow> int \<Rightarrow> sys \<Rightarrow> (int \<times> sys) option" where
  "client_send_error E c error_code s =
     client_put_all E c [header_bytes SERVER_ERROR 4, encode_int_msg error_code] s"

definition client_get_seat_name :: string where
  "client_get_seat_name = ''seat0''"

text \<open>\<open>server_get_seat\<close> of \<open>seatd/server.c\<close>\<close>

fun find_seat :: "string \<Rightarrow> nat list \<Rightarrow> sys \<Rightarrow> nat option option" where
  "find_seat name [] s = Some None"
| "find_seat name (st # sts) s = do {
     x \<leftarrow> seat_heap s st;
     if seat_name x = name then Some (Some st) else find_seat name sts s }"

definition server_get_seat :: "string \<Rightarrow> sys \<Rightarrow> nat option option" where
  "server_get_seat name s = find_seat name (seats s) s"

section \<open>Requests\<close>

definition handle_open_seat :: "env \<Rightarrow> nat \<Rightarrow> sys \<Rightarrow> (int \<times> sys) option" where
  "handle_open_seat E c s = do {
     found \<leftarrow> server_get_seat client_get_seat_name s;
     (case found of None \<Rightarrow> Some (- 1, s)
      | Some st \<Rightarrow> do {
          (r, s) \<leftarrow> seat_add_client E st c s;
          if r = - 1 then Some (- 1, s)
          else do {
            let seat_name_len = length client_get_seat_name + 1;
            (r, s) \<leftarrow> client_put_all E c [header_bytes SERVER_SEAT_OPENED (2 + seat_name_len),
              encode_len_msg (of_nat seat_name_len), string_bytes client_get_seat_name @ [0]] s;
            if r = - 1 then Some (- 1, s)
            else do {
              (_, s) \<leftarrow> seat_open_client E st c s;
              Some (0, s) } } }) }"

text \<open>A reply that is a header without payload.\<close>

definition reply_header :: "env \<Rightarrow> nat \<Rightarrow> u16 \<Rightarrow> sys \<Rightarrow> (int \<times> sys) option" where
  "reply_header E c op s = client_put_all E c [header_bytes op 0] s"

definition handle_close_seat :: "env \<Rightarrow> nat \<Rightarrow> sys \<Rightarrow> (int \<times> sys) option" where
  "handle_close_seat E c s = do {
     k \<leftarrow> client_heap s c;
     if c_seat k = None then Some (- 1, s)
     else do {
       s \<leftarrow> seat_remove_client E c s;
       reply_header E c SERVER_SEAT_CLOSED (s\<lparr>idle_clients := c # idle_clients s\<rparr>) } }"

definition handle_open_device :: "env \<Rightarrow> nat \<Rightarrow> string \<Rightarrow> sys \<Rightarrow> (int \<times> sys) option" where
  "handle_open_device E c path s = do {
     k \<leftarrow> client_heap s c;
     if c_seat k = None then Some (- 1, s)
     else do {
       (dev, s) \<leftarrow> seat_open_device E c path s;
       (case dev of None \<Rightarrow> client_send_error E c (errno s) s
        | Some i \<Rightarrow> do {
            k \<leftarrow> client_heap s c;
            d \<leftarrow> nth_opt (c_devices k) i;
            let (dupfd, s) = sys_dup E (dev_fd d) s;
            if dupfd = - 1 then do {
              (_, s) \<leftarrow> seat_close_device E c i s;
              client_send_error E c (errno s) s }
            else do {
              (r, cn, s) \<leftarrow> connection_put_fd (connection k) dupfd s;
              s \<leftarrow> upd_client c (\<lambda>k. k\<lparr>connection := cn\<rparr>) s;
              if r = - 1 then Some (- 1, s)
              else client_put_all E c [header_bytes SERVER_DEVICE_OPENED 4,
                     encode_int_msg (device_id d)] s } }) } }"

definition handle_close_device :: "env \<Rightarrow> nat \<Rightarrow> int \<Rightarrow> sys \<Rightarrow> (int \<times> sys) option" where
  "handle_close_device E c dev_id s = do {
     k \<leftarrow> client_heap s c;
     if c_seat k = None then Some (- 1, s)
     else do {
       (dev, s) \<leftarrow> seat_find_device c dev_id s;
       (case dev of None \<Rightarrow> (let s = s\<lparr>errno := EBADF\<rparr> in client_send_error E c (errno s) s)
        | Some i \<Rightarrow> do {
            (r, s) \<leftarrow> seat_close_device E c i s;
            if r = - 1 then client_send_error E c (errno s) s
            else reply_header E c SERVER_DEVICE_CLOSED s }) } }"

definition handle_switch_session :: "env \<Rightarrow> nat \<Rightarrow> int \<Rightarrow> sys \<Rightarrow> (int \<times> sys) option" where
  "handle_switch_session E c session s = do {
     k \<leftarrow> client_heap s c;
     if c_seat k = None then Some (- 1, s)
     else do {
       (r, s) \<leftarrow> seat_set_next_session E c session s;
       if r = - 1 then client_send_error E c (errno s) s
       else reply_header E c SERVER_SESSION_SWITCHED s } }"

definition handle_disable_seat :: "env \<Rightarrow> nat \<Rightarrow> sys \<Rightarrow> (int \<times> sys) option" where
  "handle_disable_seat E c s = do {
     k \<leftarrow> client_heap s c;
     if c_seat k = None then Some (- 1, s)
     else do {
       (r, s) \<leftarrow> seat_ack_disable_client E c s;
       if r = - 1 then client_send_error E c (errno s) s
       else reply_header E c SERVER_SEAT_DISABLED s } }"

definition handle_ping :: "env \<Rightarrow> nat \<Rightarrow> sys \<Rightarrow> (int \<times> sys) option" where
  "handle_ping E c s = reply_header E c SERVER_PONG s"

section \<open>Requests from the wire\<close>

text \<open>
  \<open>CLIENT_OPEN_DEVICE\<close>: the path is copied into an array of \<open>MAX_PATH_LEN\<close> bytes and must end
  exactly at its last byte; the C string is what comes before its first NUL.
\<close>

definition handle_open_device_msg :: "env \<Rightarrow> nat \<Rightarrow> nat \<Rightarrow> sys \<Rightarrow> (int \<times> sys) option" where
  "handle_open_device_msg E c len s = do {
     (msg, s) \<leftarrow> (if 2 > len then Some (None, s) else client_get c 2 s);
     (case msg of None \<Rightarrow> Some (- 1, s)
      | Some bs \<Rightarrow> do {
          let path_len = unat (decode_len_msg bs);
          if path_len \<noteq> len - 2 then Some (- 1, s)
          else if path_len > MAX_PATH_LEN then Some (- 1, s)
          else do {
            (path, s) \<leftarrow> client_get c path_len s;
            (case path of None \<Rightarrow> Some (- 1, s)
             | Some path \<Rightarrow>
                 if path_len = 0 \<or> strnlen path path_len \<noteq> path_len - 1 then Some (- 1, s)
                 else handle_open_device E c (bytes_string (takeWhile (\<lambda>b. b \<noteq> 0) path)) s) } }) }"

text \<open>\<open>CLIENT_CLOSE_DEVICE\<close> and \<open>CLIENT_SWITCH_SESSION\<close>: one integer.\<close>

definition handle_int_msg ::
    "(nat \<Rightarrow> int \<Rightarrow> sys \<Rightarrow> (int \<times> sys) option) \<Rightarrow> nat \<Rightarrow> nat \<Rightarrow> sys \<Rightarrow> (int \<times> sys) option" where
  "handle_int_msg f c len s = do {
     (msg, s) \<leftarrow> (if 4 \<noteq> len then Some (None, s) else client_get c 4 s);
     (case msg of None \<Rightarrow> Some (- 1, s) | Some bs \<Rightarrow> f c (decode_int_msg bs) s) }"

definition handle_empty_msg ::
    "(nat \<Rightarrow> sys \<Rightarrow> (int \<times> sys) option) \<Rightarrow> nat \<Rightarrow> nat \<Rightarrow> sys \<Rightarrow> (int \<times> sys) option" where
  "handle_empty_msg f c len s = (if len \<noteq> 0 then Some (- 1, s) else f c s)"

text \<open>The \<open>switch\<close> over the opcode, and the flush after a request that succeeded.\<close>

definition switch_opcode :: "env \<Rightarrow> nat \<Rightarrow> u16 \<Rightarrow> nat \<Rightarrow> sys \<Rightarrow> (int \<times> sys) option" where
  "switch_opcode E c op len s =
     (if op = CLIENT_OPEN_SEAT then handle_empty_msg (handle_open_seat E) c len s
      else if op = CLIENT_CLOSE_SEAT then handle_empty_msg (handle_close_seat E) c len s
      else if op = CLIENT_OPEN_DEVICE then handle_open_device_msg E c len s
      else if op = CLIENT_CLOSE_DEVICE then handle_int_msg (handle_close_device E) c len s
      else if op = CLIENT_SWITCH_SESSION then handle_int_msg (handle_switch_session E) c len s
      else if op = CLIENT_DISABLE_SEAT then handle_empty_msg (handle_disable_seat E) c len s
      else if op = CLIENT_PING then handle_empty_msg (handle_ping E) c len s
      else Some (- 1, s))"

definition client_handle_opcode :: "env \<Rightarrow> nat \<Rightarrow> u16 \<Rightarrow> nat \<Rightarrow> sys \<Rightarrow> (int \<times> sys) option" where
  "client_handle_opcode E c op len s = do {
     (res, s) \<leftarrow> switch_opcode E c op len s;
     if res \<noteq> - 1 then client_flush E c s else Some (res, s) }"

text \<open>The loop over the requests that the input buffer holds; \<open>False\<close> is \<open>goto fail\<close>.\<close>

partial_function (option) message_loop :: "env \<Rightarrow> nat \<Rightarrow> sys \<Rightarrow> (bool \<times> sys) option" where
  [code]: "message_loop E c s = do {
     (hdr, s) \<leftarrow> client_get c 4 s;
     (case hdr of None \<Rightarrow> Some (True, s)
      | Some bs \<Rightarrow> do {
          k \<leftarrow> client_heap s c;
          let h = decode_header bs;
          if connection_pending (connection k) < unat (msg_size h) then do {
            s \<leftarrow> upd_client c (\<lambda>k. k\<lparr>connection := connection_restore (connection k) 4\<rparr>) s;
            Some (True, s) }
          else do {
            (r, s) \<leftarrow> client_handle_opcode E c (opcode h) (unat (msg_size h)) s;
            if r = - 1 then Some (False, s) else message_loop E c s } }) }"

definition client_on_writable :: "env \<Rightarrow> nat \<Rightarrow> sys \<Rightarrow> (bool \<times> sys) option" where
  "client_on_writable E c s = do {
     (n, s) \<leftarrow> client_conn_flush E c s;
     if n = - 1 \<and> errno s \<noteq> EAGAIN then Some (False, s)
     else if n \<ge> 0 then do {
       k \<leftarrow> client_heap s c;
       i \<leftarrow> event_source k;
       s \<leftarrow> event_source_fd_update i EVENT_READABLE s;
       Some (True, s) }
     else Some (True, s) }"

definition client_on_readable :: "env \<Rightarrow> nat \<Rightarrow> sys \<Rightarrow> (bool \<times> sys) option" where
  "client_on_readable E c s = do {
     k \<leftarrow> client_heap s c;
     (len, cn, s) \<leftarrow> connection_read E (connection k) s;
     s \<leftarrow> upd_client c (\<lambda>k. k\<lparr>connection := cn\<rparr>) s;
     if len = - 1 \<and> errno s \<noteq> EAGAIN then Some (False, s)
     else if len = 0 then Some (False, s)
     else message_loop E c s }"

definition client_handle_connection :: "env \<Rightarrow> u32 \<Rightarrow> nat \<Rightarrow> sys \<Rightarrow> (int \<times> sys) option" where
  "client_handle_connection E msk c s = do {
     (go, s) \<leftarrow>
       (if msk AND EVENT_ERROR \<noteq> 0 then Some (False, s)
        else if msk AND EVENT_HANGUP \<noteq> 0 then Some (False, s)
        else do {
          (go, s) \<leftarrow> (if msk AND EVENT_WRITABLE \<noteq> 0 then client_on_writable E c s else Some (True, s));
          if \<not> go then Some (False, s)
          else if msk AND EVENT_READABLE \<noteq> 0 then client_on_readable E c s else Some (True, s) });
     if go then Some (0, s)
     else do {
       s \<leftarrow> client_destroy E c s;
       Some (- 1, s) } }"

section \<open>Seats and their clients\<close>

text \<open>\<open>seat_destroy\<close> of \<open>seatd/seat.c\<close> destroys the clients of the seat first.\<close>

partial_function (option) destroy_clients :: "env \<Rightarrow> nat \<Rightarrow> sys \<Rightarrow> sys option" where
  [code]: "destroy_clients E st s = do {
     x \<leftarrow> seat_heap s st;
     (case s_clients x of [] \<Rightarrow> Some s
      | c # _ \<Rightarrow> do {
          k \<leftarrow> client_heap s c;
          oassert (c_seat k = Some st);
          s \<leftarrow> client_destroy E c s;
          destroy_clients E st s }) }"

definition seat_destroy :: "env \<Rightarrow> nat \<Rightarrow> sys \<Rightarrow> sys option" where
  "seat_destroy E st s = do {
     s \<leftarrow> destroy_clients E st s;
     Some (s\<lparr>seats := removeAll st (seats s), seat_heap := (seat_heap s)(st := None)\<rparr>) }"

end
