(* ===== verification/Server.thy ===== *)
theory Server
  imports Client
begin

unbundle bit_operations_syntax

text \<open>
  The server component, \<open>seatd/server.c\<close>, and the loop of \<open>seatd/seatd.c\<close> that drives it: start
  and shutdown, signals, new connections, and the callbacks that the poller runs.
\<close>

section \<open>Signals and connections\<close>

definition server_handle_vt_acq :: "env \<Rightarrow> sys \<Rightarrow> (int \<times> sys) option" where
  "server_handle_vt_acq E s = do {
     found \<leftarrow> server_get_seat ''seat0'' s;
     (case found of None \<Rightarrow> Some (- 1, s)
      | Some st \<Rightarrow> do { (_, s) \<leftarrow> seat_vt_activate E st s; Some (0, s) }) }"

definition server_handle_vt_rel :: "env \<Rightarrow> sys \<Rightarrow> (int \<times> sys) option" where
  "server_handle_vt_rel E s = do {
     found \<leftarrow> server_get_seat ''seat0'' s;
     (case found of None \<Rightarrow> Some (- 1, s)
      | Some st \<Rightarrow> do { (_, s) \<leftarrow> seat_vt_release E st s; Some (0, s) }) }"

definition server_handle_kill :: "sys \<Rightarrow> (int \<times> sys) option" where
  "server_handle_kill s = Some (0, s\<lparr>running := False\<rparr>)"

definition FD_CLOEXEC :: int where "FD_CLOEXEC = 1"
definition O_NONBLOCK_FLAG :: int where "O_NONBLOCK_FLAG = 0x800"

definition set_nonblock :: "env \<Rightarrow> int \<Rightarrow> 'a os_scheme \<Rightarrow> int \<times> 'a os_scheme" where
  "set_nonblock E fd s =
     (let (flags, s) = sys_fcntl E fd F_GETFD s in
      if flags = - 1 then (- 1, s)
      else let (r, s) = sys_fcntl E fd (F_SETFD (flags OR FD_CLOEXEC)) s in
      if r = - 1 then (- 1, s)
      else let (flags, s) = sys_fcntl E fd F_GETFL s in
      if flags = - 1 then (- 1, s)
      else let (r, s) = sys_fcntl E fd (F_SETFL (flags OR O_NONBLOCK_FLAG)) s in
      if r = - 1 then (- 1, s) else (0, s))"

definition server_add_client :: "env \<Rightarrow> int \<Rightarrow> sys \<Rightarrow> (int \<times> sys) option" where
  "server_add_client E fd s = do {
     let (r, s) = set_nonblock E fd s;
     if r \<noteq> 0 then Some (- 1, sys_close E fd s)
     else do {
       let (created, s) = client_create E fd s;
       (case created of None \<Rightarrow> Some (- 1, sys_close E fd s)
        | Some c \<Rightarrow> do {
            let (src, s) = poller_add_fd E fd EVENT_READABLE (Client_handle_connection c) s;
            s \<leftarrow> upd_client c (\<lambda>k. k\<lparr>event_source := src\<rparr>) s;
            if src = None then do {
              s \<leftarrow> client_destroy E c s;
              Some (- 1, s) }
            else Some (0, s) }) } }"

definition server_handle_connection :: "env \<Rightarrow> int \<Rightarrow> u32 \<Rightarrow> sys \<Rightarrow> (int \<times> sys) option" where
  "server_handle_connection E fd msk s =
     (if msk AND (EVENT_ERROR OR EVENT_HANGUP) \<noteq> 0 then
        Some (- 1, (sys_shutdown E fd s)\<lparr>running := False\<rparr>)
      else if msk AND EVENT_READABLE \<noteq> 0 then do {
        let (new_fd, s) = sys_accept E fd s;
        if fd = - 1 then Some (0, s)
        else do {
          (_, s) \<leftarrow> server_add_client E new_fd s;
          Some (0, s) } }
      else Some (0, s))"

section \<open>Start and shutdown\<close>

text \<open>\<open>struct server server = {0}\<close> and the static \<open>global_poller = NULL\<close>.\<close>

definition boot :: sys where
  "boot = \<lparr>errno = 0, trace = [], poller = \<lparr>p_signals = [], p_fds = [], signal_fds = (0, 0), pollfds = [],
     fd_event_sources = 0, dirty = False, p_supply = 0\<rparr>, global_poller = False, running = False, seats = [],
     idle_clients = [], seat_heap = Map.empty, client_heap = Map.empty, next_addr = 0\<rparr>"

partial_function (option) destroy_idle :: "env \<Rightarrow> sys \<Rightarrow> sys option" where
  [code]: "destroy_idle E s = (case idle_clients s of [] \<Rightarrow> Some s
     | c # _ \<Rightarrow> do { s \<leftarrow> client_destroy E c s; destroy_idle E s })"

partial_function (option) destroy_seats :: "env \<Rightarrow> sys \<Rightarrow> sys option" where
  [code]: "destroy_seats E s = (case seats s of [] \<Rightarrow> Some s
     | st # _ \<Rightarrow> do { s \<leftarrow> seat_destroy E st s; destroy_seats E s })"

definition server_finish :: "env \<Rightarrow> sys \<Rightarrow> sys option" where
  "server_finish E s = do {
     s \<leftarrow> destroy_idle E s;
     s \<leftarrow> destroy_seats E s;
     Some (poller_finish s) }"


text \<open>\<open>poller_add_signal(...) == NULL || ...\<close>\<close>

fun add_signals :: "env \<Rightarrow> (int \<times> handler) list \<Rightarrow> sys \<Rightarrow> bool \<times> sys" where
  "add_signals E [] s = (True, s)"
| "add_signals E ((sig, h) # hs) s =
     (let (src, s) = poller_add_signal E sig h s in
      if src = None then (False, s) else add_signals E hs s)"

definition server_init :: "env \<Rightarrow> sys \<Rightarrow> (int \<times> sys) option" where
  "server_init E s = do {
     (r, s) \<leftarrow> poller_init E s;
     if r = - 1 then Some (- 1, s)
     else do {
       let s = s\<lparr>seats := [], idle_clients := []\<rparr>;
       let (ok, s) = add_signals E [(SIGUSR1, Server_handle_vt_rel), (SIGUSR2, Server_handle_vt_acq),
         (SIGINT, Server_handle_kill), (SIGTERM, Server_handle_kill)] s;
       if \<not> ok then do { s \<leftarrow> server_finish E s; Some (- 1, s) }
       else do {
         let vtenv = env_var E ''SEATD_VTBOUND'';
         let (created, s) = seat_create E ''seat0'' (vtenv = None \<or> vtenv = Some ''1'') s;
         (case created of None \<Rightarrow> do { s \<leftarrow> server_finish E s; Some (- 1, s) }
          | Some st \<Rightarrow> Some (0, s\<lparr>seats := st # seats s, running := True\<rparr>)) } } }"

section \<open>The event loop\<close>

text \<open>The functions behind the callbacks.\<close>

definition call_signal :: "env \<Rightarrow> int \<Rightarrow> handler \<Rightarrow> sys \<Rightarrow> (int \<times> sys) option" where
  "call_signal E sig h s = (case h of
     Server_handle_vt_rel \<Rightarrow> server_handle_vt_rel E s
   | Server_handle_vt_acq \<Rightarrow> server_handle_vt_acq E s
   | Server_handle_kill \<Rightarrow> server_handle_kill s
   | _ \<Rightarrow> None)"

definition call_fd :: "env \<Rightarrow> int \<Rightarrow> u32 \<Rightarrow> handler \<Rightarrow> sys \<Rightarrow> (int \<times> sys) option" where
  "call_fd E fd msk h s = (case h of
     Server_handle_connection \<Rightarrow> server_handle_connection E fd msk s
   | Client_handle_connection c \<Rightarrow> client_handle_connection E msk c s
   | _ \<Rightarrow> None)"

text \<open>
  \<open>while (server.running) { if (poller_poll(&server.poller) == -1) { ret = 1; break; } }\<close>. The loop runs
  until it is told to stop; the second argument says for each round which signals arrive before
  it, and a loop that is still running when the list is used up has not returned.
\<close>

fun run_server :: "env \<Rightarrow> int list list \<Rightarrow> sys \<Rightarrow> (int \<times> sys) option" where
  "run_server E [] s = (if running s then None else Some (0, s))"
| "run_server E (sigs # rounds) s =
     (if \<not> running s then Some (0, s)
      else do {
        (r, s) \<leftarrow> poller_poll E (call_signal E) (call_fd E) (fold (signal_handler E) sigs s);
        if r = - 1 then Some (1, s) else run_server E rounds s })"

end
