(* ===== verification/Graph.thy ===== *)
theory Graph
  imports Server
begin

text \<open>
  The invariant of the objects that the server keeps: seats, clients, the lists they are in and
  the devices that clients hold. \<open>graph L s\<close> holds in state \<open>s\<close> except for the clients in \<open>L\<close>,
  which an operation has taken out of every list while it works on them.
\<close>

section \<open>What the operations of a seat leave alone\<close>

definition client_id :: "client \<Rightarrow> nat option \<times> int \<times> connection_buffer \<times> int \<times> int \<times> int" where
  "client_id k = (event_source k, conn_fd (connection k), conn_in (connection k), c_pid k, c_uid k, c_gid k)"

definition seat_id :: "seat \<Rightarrow> string \<times> bool" where
  "seat_id x = (seat_name x, vt_bound x)"

definition sys_frame :: "sys \<Rightarrow> sys \<Rightarrow> bool" where
  "sys_frame s s' \<longleftrightarrow> poller s' = poller s \<and> global_poller s' = global_poller s
     \<and> running s' = running s \<and> seats s' = seats s \<and> next_addr s' = next_addr s
     \<and> (\<exists>tr. trace s' = tr @ trace s)
     \<and> (\<forall>c. map_option client_id (client_heap s' c) = map_option client_id (client_heap s c))
     \<and> (\<forall>st. map_option seat_id (seat_heap s' st) = map_option seat_id (seat_heap s st))"

lemma sys_frame_refl [simp]: "sys_frame s s"
  by (simp add: sys_frame_def)

lemma sys_frame_trans [trans]: "sys_frame s t \<Longrightarrow> sys_frame t u \<Longrightarrow> sys_frame s u"
  by (auto simp: sys_frame_def)

lemma os_frame_sys:
  assumes "os_frame s s'"
  shows "poller s' = poller s" "global_poller s' = global_poller s" "running s' = running s"
    "seats s' = seats s" "idle_clients s' = idle_clients s" "seat_heap s' = seat_heap s"
    "client_heap s' = client_heap s" "next_addr s' = next_addr s"
  using assms by (cases s; cases s'; simp add: os_frame_def)+

lemma os_frame_sys_frame: "os_frame s s' \<Longrightarrow> sys_frame s s'"
  by (simp add: sys_frame_def os_frame_sys) (simp add: os_frame_def)

lemma upd_client_Some [simp]:
  "upd_client c f s = Some s' \<longleftrightarrow> (\<exists>k. client_heap s c = Some k \<and> s' = s\<lparr>client_heap := (client_heap s)(c \<mapsto> f k)\<rparr>)"
  by (auto simp: upd_client_def bind_eq_Some_conv)

lemma upd_seat_Some [simp]:
  "upd_seat st f s = Some s' \<longleftrightarrow> (\<exists>x. seat_heap s st = Some x \<and> s' = s\<lparr>seat_heap := (seat_heap s)(st \<mapsto> f x)\<rparr>)"
  by (auto simp: upd_seat_def bind_eq_Some_conv)

lemma sys_frame_upd_client:
  "client_heap s c = Some k \<Longrightarrow> client_id k' = client_id k \<Longrightarrow> sys_frame s (s\<lparr>client_heap := (client_heap s)(c \<mapsto> k')\<rparr>)"
  by (simp add: sys_frame_def)

lemma sys_frame_upd_seat:
  "seat_heap s st = Some x \<Longrightarrow> seat_id x' = seat_id x \<Longrightarrow> sys_frame s (s\<lparr>seat_heap := (seat_heap s)(st \<mapsto> x')\<rparr>)"
  by (simp add: sys_frame_def)

lemma sys_frame_unlink: "sys_frame s (unlink_client c s)"
proof -
  have "map_option seat_id (map_option (\<lambda>x. x\<lparr>s_clients := removeAll c (s_clients x)\<rparr>) y) = map_option seat_id y" for y
    by (cases y) (simp_all add: seat_id_def)
  then show ?thesis by (simp add: sys_frame_def unlink_client_def)
qed

lemma sys_frame_idle: "sys_frame s (s\<lparr>idle_clients := cs\<rparr>)"
  by (simp add: sys_frame_def)

lemma sys_frame_client:
  "sys_frame s s' \<Longrightarrow> client_heap s c = Some k \<Longrightarrow> \<exists>k'. client_heap s' c = Some k' \<and> client_id k' = client_id k"
  by (cases "client_heap s' c") (auto simp: sys_frame_def dest: spec [where x = c])

lemma sys_frame_seat:
  "sys_frame s s' \<Longrightarrow> seat_heap s st = Some x \<Longrightarrow> \<exists>x'. seat_heap s' st = Some x' \<and> seat_id x' = seat_id x"
  by (cases "seat_heap s' st") (auto simp: sys_frame_def dest: spec [where x = st])

section \<open>Well-formed clients and seats\<close>

definition device_ok :: "seat_device \<Rightarrow> bool" where
  "device_ok d \<longleftrightarrow> 1 \<le> device_id d \<and> device_id d \<le> INT_MAX \<and> 1 \<le> ref_cnt d \<and> ref_cnt d \<le> INT_MAX
     \<and> dev_fd d \<noteq> - 1 \<and> dev_type d \<noteq> SEAT_DEVICE_TYPE_NORMAL"

definition devices_ok :: "seat_device list \<Rightarrow> bool" where
  "devices_ok ds \<longleftrightarrow> (\<forall>d \<in> set ds. device_ok d) \<and> distinct (map device_id ds)
     \<and> distinct (map dev_path ds) \<and> length ds \<le> MAX_SEAT_DEVICES"

definition active_state :: "client_state \<Rightarrow> bool" where
  "active_state q \<longleftrightarrow> q = CLIENT_ACTIVE \<or> q = CLIENT_PENDING_DISABLE"

definition client_ok :: "client \<Rightarrow> bool" where
  "client_ok k \<longleftrightarrow> conn_ok (connection k) \<and> devices_ok (c_devices k)
     \<and> (c_seat k = None \<longrightarrow> c_devices k = [] \<and> (c_state k = CLIENT_NEW \<and> c_session k = - 1
            \<or> c_state k = CLIENT_CLOSED \<and> c_session k \<noteq> - 1))
     \<and> (c_seat k \<noteq> None \<longrightarrow> c_state k \<noteq> CLIENT_CLOSED \<and> c_session k \<noteq> - 1)"

text \<open>What the shape of the graph depends on of a client.\<close>

definition cview :: "client \<Rightarrow> nat option \<times> bool \<times> int" where
  "cview k = (c_seat k, active_state (c_state k), c_session k)"

definition view :: "(nat \<rightharpoonup> client) \<Rightarrow> (nat \<rightharpoonup> nat option \<times> bool \<times> int)" where
  "view H = (\<lambda>c. map_option cview (H c))"

definition sess :: "(nat \<rightharpoonup> nat option \<times> bool \<times> int) \<Rightarrow> nat \<Rightarrow> int" where
  "sess V c = snd (snd (the (V c)))"

definition seat_ok :: "nat \<Rightarrow> seat \<Rightarrow> (nat \<rightharpoonup> nat option \<times> bool \<times> int) \<Rightarrow> bool" where
  "seat_ok st x V \<longleftrightarrow> distinct (s_clients x)
     \<and> (\<forall>c \<in> set (s_clients x). \<exists>n. V c = Some (Some st, active_client x = Some c, n)
          \<and> (vt_bound x \<or> 0 \<le> n \<and> n < session_cnt x))
     \<and> (\<forall>c. active_client x = Some c \<longrightarrow> c \<in> set (s_clients x))
     \<and> (\<forall>c. next_client x = Some c \<longrightarrow> c \<in> set (s_clients x))
     \<and> (vt_bound x \<or> distinct (map (sess V) (s_clients x)))
     \<and> 0 \<le> session_cnt x \<and> session_cnt x \<le> INT_MAX"

definition members :: "(nat \<rightharpoonup> seat) \<Rightarrow> nat \<Rightarrow> nat set" where
  "members S st = (case S st of None \<Rightarrow> {} | Some x \<Rightarrow> set (s_clients x))"

definition shape_ok :: "nat set \<Rightarrow> nat list \<Rightarrow> nat list \<Rightarrow> (nat \<rightharpoonup> seat) \<Rightarrow> (nat \<rightharpoonup> nat option \<times> bool \<times> int) \<Rightarrow> bool" where
  "shape_ok L sts idle S V \<longleftrightarrow> distinct sts \<and> dom S = set sts \<and> distinct idle
     \<and> (\<forall>st x. S st = Some x \<longrightarrow> seat_ok st x V)
     \<and> (\<forall>c \<in> set idle. \<exists>v. V c = Some (None, v))
     \<and> (\<forall>c v. V c = Some (None, v) \<longrightarrow> c \<notin> L \<longrightarrow> c \<in> set idle)
     \<and> (\<forall>c st v. V c = Some (Some st, v) \<longrightarrow> c \<notin> L \<longrightarrow> c \<in> members S st)
     \<and> (\<forall>c \<in> L. c \<notin> set idle \<and> (\<forall>st. c \<notin> members S st))"

definition graph :: "nat set \<Rightarrow> sys \<Rightarrow> bool" where
  "graph L s \<longleftrightarrow> shape_ok L (seats s) (idle_clients s) (seat_heap s) (view (client_heap s))
     \<and> (\<forall>c k. client_heap s c = Some k \<longrightarrow> c \<notin> L \<longrightarrow> client_ok k)"

lemma graph_os_frame: "os_frame s s' \<Longrightarrow> graph L s' = graph L s"
  by (simp add: graph_def os_frame_sys)

lemma view_upd [simp]: "view (H(c \<mapsto> k)) = (view H)(c \<mapsto> cview k)"
  by (auto simp: view_def)

lemma view_same: "H c = Some k \<Longrightarrow> cview k' = cview k \<Longrightarrow> (view H)(c \<mapsto> cview k') = view H"
  by (auto simp: view_def)

lemma view_Some: "H c = Some k \<Longrightarrow> view H c = Some (cview k)"
  by (simp add: view_def)

lemma view_SomeD: "view H c = Some v \<Longrightarrow> \<exists>k. H c = Some k \<and> v = cview k"
  by (auto simp: view_def)

text \<open>A client changes in ways that its place in the graph does not depend on.\<close>

lemma graph_upd_client:
  assumes "graph L s" and "client_heap s c = Some k" and "cview k' = cview k" and "c \<notin> L \<longrightarrow> client_ok k'"
  shows "graph L (s\<lparr>client_heap := (client_heap s)(c \<mapsto> k')\<rparr>)"
  using assms by (auto simp: graph_def view_same)

lemma members_upd_same:
  "S st = Some x \<Longrightarrow> s_clients x' = s_clients x \<Longrightarrow> members (S(st \<mapsto> x')) = members S"
  by (rule ext) (simp add: members_def)

text \<open>A seat changes in ways that its clients do not depend on.\<close>

lemma graph_upd_seat:
  assumes "graph L s" and "seat_heap s st = Some x"
    and "s_clients x' = s_clients x" "active_client x' = active_client x" "vt_bound x' = vt_bound x"
      "session_cnt x' = session_cnt x" "\<forall>c. next_client x' = Some c \<longrightarrow> c \<in> set (s_clients x)"
  shows "graph L (s\<lparr>seat_heap := (seat_heap s)(st \<mapsto> x')\<rparr>)"
proof -
  have sh: "shape_ok L (seats s) (idle_clients s) (seat_heap s) (view (client_heap s))"
    using assms(1) by (simp add: graph_def)
  then have "seat_ok st x (view (client_heap s))" using assms(2) by (auto simp: shape_ok_def)
  then have "seat_ok st x' (view (client_heap s))" using assms(3-7) by (simp add: seat_ok_def)
  then have "shape_ok L (seats s) (idle_clients s) ((seat_heap s)(st \<mapsto> x')) (view (client_heap s))"
    using sh members_upd_same [of "seat_heap s", OF assms(2,3)] assms(2) by (auto simp: shape_ok_def insert_absorb domI)
  with assms(1) show ?thesis by (simp add: graph_def)
qed

lemma graph_seat_ok: "graph L s \<Longrightarrow> seat_heap s st = Some x \<Longrightarrow> seat_ok st x (view (client_heap s))"
  by (auto simp: graph_def shape_ok_def)

lemma graph_client_ok: "graph L s \<Longrightarrow> client_heap s c = Some k \<Longrightarrow> c \<notin> L \<Longrightarrow> client_ok k"
  by (auto simp: graph_def)

lemma graph_member:
  assumes "graph L s" and "seat_heap s st = Some x" and "c \<in> set (s_clients x)"
  shows "\<exists>k. client_heap s c = Some k \<and> c_seat k = Some st \<and> c \<notin> L \<and> client_ok k
    \<and> (active_state (c_state k) \<longleftrightarrow> active_client x = Some c)"
proof -
  have "c \<in> members (seat_heap s) st" using assms(2,3) by (simp add: members_def)
  then have "c \<notin> L" using assms(1) unfolding graph_def shape_ok_def by blast
  moreover from graph_seat_ok [OF assms(1,2)] assms(3) obtain n
    where "view (client_heap s) c = Some (Some st, active_client x = Some c, n)" by (auto simp: seat_ok_def)
  then obtain k where "client_heap s c = Some k" "(Some st, active_client x = Some c, n) = cview k"
    by (auto dest: view_SomeD)
  ultimately show ?thesis using graph_client_ok [OF assms(1)] by (auto simp: cview_def)
qed

lemma graph_client_seat:
  assumes "graph L s" and "client_heap s c = Some k" and "c_seat k = Some st" and "c \<notin> L"
  shows "\<exists>x. seat_heap s st = Some x \<and> c \<in> set (s_clients x)"
proof -
  have "view (client_heap s) c = Some (Some st, active_state (c_state k), c_session k)"
    using assms(2,3) by (simp add: view_Some cview_def)
  with assms(1,4) have "c \<in> members (seat_heap s) st" unfolding graph_def shape_ok_def by blast
  then show ?thesis by (auto simp: members_def split: option.splits)
qed

text \<open>Making a client the active one, and making it inactive: the client's state changes with the seat.\<close>

lemma sess_other: "c \<notin> set cs \<Longrightarrow> map (sess (V(c \<mapsto> v))) cs = map (sess V) cs"
  by (rule map_cong) (auto simp: sess_def)

lemma seat_ok_view_other:
  "seat_ok st x V \<Longrightarrow> c \<notin> set (s_clients x) \<Longrightarrow> seat_ok st x (V(c \<mapsto> v))"
  by (auto simp: seat_ok_def sess_other)

lemma sess_same: "V c = Some (a, b, n) \<Longrightarrow> sess (V(c \<mapsto> (a', b', n))) = sess V"
  by (rule ext) (simp add: sess_def)

lemma graph_set_active:
  assumes g: "graph L s" and k: "client_heap s c = Some k" and x: "seat_heap s st = Some x"
    and mem: "c \<in> set (s_clients x)" and act: "active_client x = None \<or> active_client x = Some c"
    and k': "client_ok k'" "c_seat k' = c_seat k" "c_session k' = c_session k"
    and a: "a = (if active_state (c_state k') then Some c else None)"
  shows "graph L (s\<lparr>client_heap := (client_heap s)(c \<mapsto> k'), seat_heap := (seat_heap s)(st \<mapsto> x\<lparr>active_client := a\<rparr>)\<rparr>)"
proof -
  let ?V = "view (client_heap s)" and ?x = "x\<lparr>active_client := a\<rparr>"
  have seat: "c_seat k = Some st" using graph_member [OF g x mem] k by auto
  have sh: "shape_ok L (seats s) (idle_clients s) (seat_heap s) ?V" using g by (simp add: graph_def)
  have v: "?V(c \<mapsto> cview k') = ?V(c \<mapsto> (Some st, active_state (c_state k'), c_session k))"
    using k' seat by (simp add: cview_def)
  have V: "?V c = Some (Some st, active_state (c_state k), c_session k)"
    using k seat by (simp add: view_Some cview_def)
  have "seat_ok st ?x (?V(c \<mapsto> cview k'))"
    using graph_seat_ok [OF g x] mem act a V unfolding v seat_ok_def sess_same [of ?V, OF V] by auto
  moreover have "seat_ok st' y (?V(c \<mapsto> cview k'))" if "seat_heap s st' = Some y" "st' \<noteq> st" for st' y
  proof -
    have "c \<notin> set (s_clients y)" using graph_member [OF g that(1), of c] k seat that(2) by auto
    with graph_seat_ok [OF g that(1)] show ?thesis by (rule seat_ok_view_other)
  qed
  ultimately have "shape_ok L (seats s) (idle_clients s) ((seat_heap s)(st \<mapsto> ?x)) (?V(c \<mapsto> cview k'))"
    using sh V members_upd_same [of "seat_heap s", OF x, of ?x] x unfolding v shape_ok_def
    by (auto simp: insert_absorb domI)
  with g k'(1) show ?thesis by (auto simp: graph_def)
qed

text \<open>Taking a client out of its list.\<close>

lemma members_unlink: "members (seat_heap (unlink_client c s)) st = members (seat_heap s) st - {c}"
  by (auto simp: unlink_client_def members_def split: option.splits)

section \<open>Entering and leaving lists\<close>

lemma graph_member_unique:
  assumes "graph L s" and "seat_heap s st = Some x" "c \<in> set (s_clients x)"
    and "seat_heap s st' = Some y" "c \<in> set (s_clients y)"
  shows "st' = st"
  using graph_member [OF assms(1-3)] graph_member [OF assms(1,4,5)] by auto

lemma graph_idle_client:
  assumes "graph L s" and "c \<in> set (idle_clients s)"
  shows "\<exists>k. client_heap s c = Some k \<and> c_seat k = None \<and> c \<notin> L \<and> client_ok k"
proof -
  from assms obtain v where "view (client_heap s) c = Some (None, v)" and "c \<notin> L"
    unfolding graph_def shape_ok_def by blast
  with assms(1) show ?thesis by (auto dest!: view_SomeD simp: cview_def graph_def)
qed

lemma unlink_member:
  assumes "graph L s" and "seat_heap s st = Some x" and "c \<in> set (s_clients x)"
  shows "unlink_client c s = s\<lparr>seat_heap := (seat_heap s)(st \<mapsto> x\<lparr>s_clients := removeAll c (s_clients x)\<rparr>)\<rparr>"
proof -
  have "c \<notin> set (idle_clients s)"
    using graph_member [OF assms] graph_idle_client [OF assms(1)] by force
  moreover have "map_option (\<lambda>y. y\<lparr>s_clients := removeAll c (s_clients y)\<rparr>) (seat_heap s st')
      = ((seat_heap s)(st \<mapsto> x\<lparr>s_clients := removeAll c (s_clients x)\<rparr>)) st'" for st'
  proof (cases "seat_heap s st'")
    case (Some y)
    then have "st' \<noteq> st \<Longrightarrow> c \<notin> set (s_clients y)" using graph_member_unique [OF assms] by blast
    with Some assms(2) show ?thesis by auto
  qed (use assms(2) in auto)
  ultimately show ?thesis by (simp add: unlink_client_def fun_upd_def)
qed

lemma unlink_not_member:
  assumes "\<forall>st. c \<notin> members (seat_heap s) st"
  shows "unlink_client c s = s\<lparr>idle_clients := removeAll c (idle_clients s)\<rparr>"
proof -
  have "map_option (\<lambda>y. y\<lparr>s_clients := removeAll c (s_clients y)\<rparr>) (seat_heap s st) = seat_heap s st" for st
    using spec [OF assms, of st] by (cases "seat_heap s st") (auto simp: members_def)
  then show ?thesis by (simp add: unlink_client_def)
qed

lemma members_idle:
  assumes "graph L s" and "c \<in> set (idle_clients s)"
  shows "c \<notin> members (seat_heap s) st"
  using graph_idle_client [OF assms] graph_member [OF assms(1), of st _ c]
  by (auto simp: members_def split: option.splits)

text \<open>A client that is in no list may change in any way, come to be or go.\<close>

lemma shape_loose_upd:
  assumes "shape_ok L sts idle S V" and "c \<in> L"
  shows "shape_ok L sts idle S (V(c := v))"
proof -
  have m: "c \<notin> set (s_clients x)" if "S st = Some x" for st x
    using assms that unfolding shape_ok_def members_def by (metis option.simps(5))
  have "seat_ok st x (V(c := v))" if "S st = Some x" for st x
  proof -
    have "map (sess (V(c := v))) (s_clients x) = map (sess V) (s_clients x)"
      using m [OF that] by (intro map_cong) (auto simp: sess_def)
    moreover have "seat_ok st x V" using assms(1) that by (simp add: shape_ok_def)
    ultimately show ?thesis using m [OF that] by (auto simp: seat_ok_def simp del: map_eq_conv)
  qed
  then show ?thesis using assms unfolding shape_ok_def by auto
qed

lemma graph_loose_upd: "graph L s \<Longrightarrow> c \<in> L \<Longrightarrow> graph L (s\<lparr>client_heap := (client_heap s)(c \<mapsto> k)\<rparr>)"
  by (auto simp: graph_def intro: shape_loose_upd)

lemma graph_free: "graph {c} s \<Longrightarrow> graph {} (s\<lparr>client_heap := (client_heap s)(c := None)\<rparr>)"
proof -
  assume g: "graph {c} s"
  have "view ((client_heap s)(c := None)) = (view (client_heap s))(c := None)" by (auto simp: view_def)
  moreover have "shape_ok {c} (seats s) (idle_clients s) (seat_heap s) ((view (client_heap s))(c := None))"
    using g shape_loose_upd [of "{c}"] by (simp add: graph_def)
  then have "shape_ok {} (seats s) (idle_clients s) (seat_heap s) ((view (client_heap s))(c := None))"
    unfolding shape_ok_def by auto
  ultimately show ?thesis using g by (auto simp: graph_def)
qed

lemma graph_fresh:
  assumes "graph {} s" and "client_heap s c = None"
  shows "graph {c} s"
proof -
  have "c \<notin> set (idle_clients s)" using graph_idle_client [OF assms(1), of c] assms(2) by auto
  moreover have "c \<notin> members (seat_heap s) st" for st
    using graph_member [OF assms(1), of st _ c] assms(2) by (auto simp: members_def split: option.splits)
  ultimately show ?thesis using assms unfolding graph_def shape_ok_def by auto
qed

lemma graph_settle_idle:
  assumes "graph {c} s" and "client_heap s c = Some k" "client_ok k" "c_seat k = None"
  shows "graph {} (s\<lparr>idle_clients := c # idle_clients s\<rparr>)"
proof -
  have "view (client_heap s) c = Some (None, active_state (c_state k), c_session k)"
    using assms by (simp add: view_Some cview_def)
  note V = this
  have sh: "shape_ok {c} (seats s) (idle_clients s) (seat_heap s) (view (client_heap s))"
    using assms(1) by (simp add: graph_def)
  have "c' \<in> members (seat_heap s) st'" if "view (client_heap s) c' = Some (Some st', v)" for c' st' v
  proof -
    have "c' \<noteq> c" using V that by auto
    with sh that show ?thesis unfolding shape_ok_def by blast
  qed
  moreover have "c' \<in> set (c # idle_clients s)" if "view (client_heap s) c' = Some (None, v)" for c' v
  proof (cases "c' = c")
    case False
    with sh that have "c' \<in> set (idle_clients s)" unfolding shape_ok_def by blast
    then show ?thesis by simp
  qed simp
  ultimately have "shape_ok {} (seats s) (c # idle_clients s) (seat_heap s) (view (client_heap s))"
    using sh V unfolding shape_ok_def by simp
  moreover have "client_ok k'" if "client_heap s c' = Some k'" for c' k'
    using assms that by (cases "c' = c") (auto simp: graph_def)
  ultimately show ?thesis by (simp add: graph_def)
qed

lemma graph_unsettle_idle:
  assumes "graph {} s" and "c \<in> set (idle_clients s)"
  shows "graph {c} (s\<lparr>idle_clients := removeAll c (idle_clients s)\<rparr>)"
  using assms members_idle [OF assms] unfolding graph_def shape_ok_def
  by (auto simp: distinct_removeAll)

text \<open>A client leaves its seat, which forgets it.\<close>

lemma graph_leave:
  assumes g: "graph {} s" and x: "seat_heap s st = Some x" and mem: "c \<in> set (s_clients x)"
    and x': "s_clients x' = removeAll c (s_clients x)"
      "active_client x' = (if active_client x = Some c then None else active_client x)"
      "next_client x' = (if next_client x = Some c then None else next_client x)"
      "vt_bound x' = vt_bound x" "session_cnt x' = session_cnt x"
  shows "graph {c} (s\<lparr>seat_heap := (seat_heap s)(st \<mapsto> x')\<rparr>)"
proof -
  let ?V = "view (client_heap s)"
  have sh: "shape_ok {} (seats s) (idle_clients s) (seat_heap s) ?V" using g by (simp add: graph_def)
  have "distinct (map (sess ?V) (removeAll c (s_clients x)))" if "distinct (map (sess ?V) (s_clients x))"
    using that by (auto simp: distinct_map distinct_removeAll intro: inj_on_subset)
  then have "seat_ok st x' ?V"
    using graph_seat_ok [OF g x] x' mem unfolding seat_ok_def by (auto simp: distinct_removeAll)
  moreover have "members ((seat_heap s)(st \<mapsto> x')) st' = members (seat_heap s) st' - {c}" for st'
    using graph_member_unique [OF g x mem, of st'] x x'(1)
    by (auto simp: members_def split: option.splits)
  moreover have "c \<notin> set (idle_clients s)" using graph_member [OF g x mem] graph_idle_client [OF g] by force
  ultimately have "shape_ok {c} (seats s) (idle_clients s) ((seat_heap s)(st \<mapsto> x')) ?V"
    using sh x unfolding shape_ok_def by (auto simp: insert_absorb domI)
  with g show ?thesis by (auto simp: graph_def)
qed

text \<open>A client that is in no list joins a seat.\<close>

lemma graph_join:
  assumes g: "graph {c} s" and k: "client_heap s c = Some k" and x: "seat_heap s st = Some x"
    and ok: "client_ok k" "c_seat k = Some st" "\<not> active_state (c_state k)"
    and x': "s_clients x' = c # s_clients x" "active_client x' = active_client x" "next_client x' = next_client x"
      "vt_bound x' = vt_bound x"
    and n: "if vt_bound x then session_cnt x' = session_cnt x
      else c_session k = session_cnt x \<and> session_cnt x' = session_cnt x + 1 \<and> session_cnt x < INT_MAX"
  shows "graph {} (s\<lparr>seat_heap := (seat_heap s)(st \<mapsto> x')\<rparr>)"
proof -
  let ?V = "view (client_heap s)"
  have V: "?V c = Some (Some st, False, c_session k)" using ok k by (simp add: view_Some cview_def)
  have sh: "shape_ok {c} (seats s) (idle_clients s) (seat_heap s) ?V" using g by (simp add: graph_def)
  then have c: "c \<notin> members (seat_heap s) st'" for st' by (simp add: shape_ok_def)
  from sh x have st: "st \<in> set (seats s)" by (auto simp: shape_ok_def)
  then have "c \<notin> set (s_clients x)" using x c [of st] by (simp add: members_def)
  moreover have "seat_ok st x ?V" by (rule graph_seat_ok [OF g x])
  moreover have "sess ?V c = c_session k" using V by (simp add: sess_def)
  moreover have "session_cnt x \<notin> sess ?V ` set (s_clients x)" if "\<not> vt_bound x"
    using \<open>seat_ok st x ?V\<close> that by (force simp: seat_ok_def sess_def)
  ultimately have "seat_ok st x' ?V"
    using V x' n unfolding seat_ok_def by (cases "vt_bound x") auto
  moreover have "members ((seat_heap s)(st \<mapsto> x')) st' = members (seat_heap s) st' \<union> (if st' = st then {c} else {})" for st'
    using x x'(1) by (auto simp: members_def)
  moreover have idle: "\<forall>c' v. ?V c' = Some (None, v) \<longrightarrow> c' \<in> set (idle_clients s)"
  proof (intro allI impI)
    fix c' v assume v: "?V c' = Some (None, v)"
    with V have "c' \<noteq> c" by auto
    with sh v show "c' \<in> set (idle_clients s)" unfolding shape_ok_def by blast
  qed
  moreover have mem: "\<forall>c' st' v. ?V c' = Some (Some st', v) \<longrightarrow>
      c' \<in> members (seat_heap s) st' \<union> (if st' = st then {c} else {})"
  proof (intro allI impI)
    fix c' st' v assume v: "?V c' = Some (Some st', v)"
    show "c' \<in> members (seat_heap s) st' \<union> (if st' = st then {c} else {})"
    proof (cases "c' = c")
      case False
      with sh v have "c' \<in> members (seat_heap s) st'" unfolding shape_ok_def by blast
      then show ?thesis by simp
    qed (use V v in auto)
  qed
  ultimately have "shape_ok {} (seats s) (idle_clients s) ((seat_heap s)(st \<mapsto> x')) ?V"
    using sh idle mem st unfolding shape_ok_def by (simp add: insert_absorb)
  moreover have "client_ok k'" if "client_heap s c' = Some k'" for c' k'
    using g k ok(1) that by (cases "c' = c") (auto simp: graph_def)
  ultimately show ?thesis by (simp add: graph_def)
qed

section \<open>Operations inside a seat\<close>

text \<open>
  What an operation on some clients and seats leaves alone: every other client and seat, the
  lists, and the identity of all of them.
\<close>

definition within :: "nat set \<Rightarrow> nat set \<Rightarrow> sys \<Rightarrow> sys \<Rightarrow> bool" where
  "within A T s s' \<longleftrightarrow> sys_frame s s' \<and> idle_clients s' = idle_clients s
     \<and> (\<forall>c. c \<notin> A \<longrightarrow> client_heap s' c = client_heap s c)
     \<and> (\<forall>st. st \<notin> T \<longrightarrow> seat_heap s' st = seat_heap s st)
     \<and> (\<forall>st. map_option s_clients (seat_heap s' st) = map_option s_clients (seat_heap s st))"

lemma within_refl [simp]: "within A T s s"
  by (simp add: within_def)

lemma within_trans [trans]: "within A T s t \<Longrightarrow> within A T t u \<Longrightarrow> within A T s u"
  by (auto simp: within_def intro: sys_frame_trans)

lemma within_mono: "within A T s t \<Longrightarrow> A \<subseteq> A' \<Longrightarrow> T \<subseteq> T' \<Longrightarrow> within A' T' s t"
  by (auto simp: within_def)

lemma within_os_frame: "os_frame s s' \<Longrightarrow> within A T s s'"
  by (simp add: within_def os_frame_sys_frame os_frame_sys)

lemma within_upd_client:
  "client_heap s c = Some k \<Longrightarrow> client_id k' = client_id k \<Longrightarrow> c \<in> A \<Longrightarrow>
   within A T s (s\<lparr>client_heap := (client_heap s)(c \<mapsto> k')\<rparr>)"
  by (auto simp: within_def sys_frame_upd_client)

lemma within_upd_seat:
  "seat_heap s st = Some x \<Longrightarrow> seat_id x' = seat_id x \<Longrightarrow> s_clients x' = s_clients x \<Longrightarrow> st \<in> T \<Longrightarrow>
   within A T s (s\<lparr>seat_heap := (seat_heap s)(st \<mapsto> x')\<rparr>)"
  by (auto simp: within_def sys_frame_upd_seat)

lemma within_seat:
  assumes "within A T s s'" and "seat_heap s st = Some x"
  shows "\<exists>x'. seat_heap s' st = Some x' \<and> s_clients x' = s_clients x \<and> seat_id x' = seat_id x"
proof -
  have "map_option s_clients (seat_heap s' st) = Some (s_clients x)" using assms by (simp add: within_def)
  moreover obtain x' where "seat_heap s' st = Some x'" "seat_id x' = seat_id x"
    using sys_frame_seat [of s s', OF _ assms(2)] assms(1) by (auto simp: within_def)
  ultimately show ?thesis by simp
qed

section \<open>Connections of clients\<close>

definition conn_step :: "nat \<Rightarrow> sys \<Rightarrow> sys \<Rightarrow> bool" where
  "conn_step c s s' \<longleftrightarrow> (\<exists>k cn s1. client_heap s c = Some k \<and> conn_ok (connection k) \<and> conn_ok cn
     \<and> conn_fd cn = conn_fd (connection k) \<and> conn_in cn = conn_in (connection k) \<and> os_frame s s1
     \<and> s' = s1\<lparr>client_heap := (client_heap s)(c \<mapsto> k\<lparr>connection := cn\<rparr>)\<rparr>)"

lemma conn_step_refl:
  assumes "client_heap s c = Some k" and "conn_ok (connection k)"
  shows "conn_step c s s"
proof -
  have "s\<lparr>client_heap := (client_heap s)(c \<mapsto> k\<lparr>connection := connection k\<rparr>)\<rparr> = s"
    using assms(1) by (simp add: fun_upd_idem)
  with assms show ?thesis unfolding conn_step_def by (metis os_frame_refl)
qed

lemma os_frame_upd_heap: "os_frame s t \<Longrightarrow> os_frame (s\<lparr>client_heap := H\<rparr>) (t\<lparr>client_heap := H\<rparr>)"
  by (cases s; cases t) (simp add: os_frame_def)

lemma os_frame_client_heap:
  "os_frame (s\<lparr>client_heap := H\<rparr>) t \<Longrightarrow> \<exists>u. os_frame s u \<and> t = u\<lparr>client_heap := H\<rparr>"
proof -
  assume f: "os_frame (s\<lparr>client_heap := H\<rparr>) t"
  then have "t = (t\<lparr>client_heap := client_heap s\<rparr>)\<lparr>client_heap := H\<rparr>" "os_frame s (t\<lparr>client_heap := client_heap s\<rparr>)"
    by (cases s; cases t; simp add: os_frame_def)+
  then show ?thesis by blast
qed

lemma conn_step_trans [trans]:
  assumes "conn_step c s t" and "conn_step c t u"
  shows "conn_step c s u"
proof -
  from assms(1) obtain k cn s1 where 1: "client_heap s c = Some k" "conn_ok (connection k)" "conn_ok cn"
      "conn_fd cn = conn_fd (connection k)" "conn_in cn = conn_in (connection k)" "os_frame s s1"
      "t = s1\<lparr>client_heap := (client_heap s)(c \<mapsto> k\<lparr>connection := cn\<rparr>)\<rparr>" by (auto simp: conn_step_def)
  from assms(2) obtain cn2 t1 where 2: "conn_ok cn2" "conn_fd cn2 = conn_fd cn" "conn_in cn2 = conn_in cn"
      "os_frame t t1" "u = t1\<lparr>client_heap := (client_heap s)(c \<mapsto> k\<lparr>connection := cn2\<rparr>)\<rparr>"
    unfolding conn_step_def 1(7) by auto
  from os_frame_client_heap [OF 2(4) [unfolded 1(7)]] obtain v where "os_frame s1 v"
      "t1 = v\<lparr>client_heap := (client_heap s)(c \<mapsto> k\<lparr>connection := cn\<rparr>)\<rparr>" by blast
  with 1 2 show ?thesis unfolding conn_step_def by (auto intro: os_frame_trans)
qed

lemma conn_step_graph:
  assumes "graph L s" and "conn_step c s s'"
  shows "graph L s'"
proof -
  from assms(2) obtain k cn s1 where k: "client_heap s c = Some k" "conn_ok cn" "os_frame s s1"
      "s' = s1\<lparr>client_heap := (client_heap s)(c \<mapsto> k\<lparr>connection := cn\<rparr>)\<rparr>" by (auto simp: conn_step_def)
  have "c \<notin> L \<longrightarrow> client_ok (k\<lparr>connection := cn\<rparr>)"
    using graph_client_ok [OF assms(1) k(1)] k(2) by (auto simp: client_ok_def)
  with graph_upd_client [of L s1 c k "k\<lparr>connection := cn\<rparr>"] k graph_os_frame [OF k(3)] assms(1) os_frame_sys [OF k(3)]
  show ?thesis by (simp add: cview_def)
qed

lemma conn_step_within: "conn_step c s s' \<Longrightarrow> c \<in> A \<Longrightarrow> within A T s s'"
proof -
  assume "conn_step c s s'" and c: "c \<in> A"
  then obtain k cn s1 where k: "client_heap s c = Some k" "conn_fd cn = conn_fd (connection k)"
      "conn_in cn = conn_in (connection k)" "os_frame s s1"
      "s' = s1\<lparr>client_heap := (client_heap s)(c \<mapsto> k\<lparr>connection := cn\<rparr>)\<rparr>" by (auto simp: conn_step_def)
  have "within A T s1 s'"
    unfolding k(5) using within_upd_client [of s1 c k "k\<lparr>connection := cn\<rparr>" A T] k c os_frame_sys [OF k(4)]
    by (simp add: client_id_def)
  with within_os_frame [OF k(4)] show ?thesis by (rule within_trans)
qed

lemma conn_step_client:
  assumes "conn_step c s s'" and "client_heap s c = Some k"
  shows "\<exists>cn. client_heap s' c = Some (k\<lparr>connection := cn\<rparr>) \<and> conn_ok cn \<and> conn_in cn = conn_in (connection k)
    \<and> conn_fd cn = conn_fd (connection k)"
  using assms by (auto simp: conn_step_def)

lemma client_put_step:
  assumes "send_progress E" and "client_heap s c = Some k" and "conn_ok (connection k)"
    and "client_put E c bs s = Some (r, s')"
  shows "conn_step c s s'" and "r = 0 \<or> r = - 1"
proof -
  from assms(2,4) obtain cn s1 k1 where put: "connection_put E (connection k) bs s = Some (r, cn, s1)"
    and k1: "client_heap s1 c = Some k1" and s': "s' = s1\<lparr>client_heap := (client_heap s1)(c \<mapsto> k1\<lparr>connection := cn\<rparr>)\<rparr>"
    by (auto simp: client_put_def bind_eq_Some_conv)
  from connection_put_ok [OF assms(3,1) put] have p: "conn_ok cn" "os_frame s s1"
      "conn_fd cn = conn_fd (connection k)" "conn_in cn = conn_in (connection k)" "r = 0 \<or> r = - 1" by auto
  show "r = 0 \<or> r = - 1" by (rule p)
  show "conn_step c s s'" using p assms(2,3) k1 s' os_frame_sys [OF p(2)] by (auto simp: conn_step_def)
qed

lemma client_conn_flush_step:
  assumes "send_progress E" and "client_heap s c = Some k" and "conn_ok (connection k)"
    and "client_conn_flush E c s = Some (r, s')"
  shows "conn_step c s s'" and "r = - 1 \<or> 0 \<le> r"
proof -
  from assms(2,4) obtain cn s1 k1 where put: "connection_flush E (connection k) s = Some (r, cn, s1)"
    and k1: "client_heap s1 c = Some k1" and s': "s' = s1\<lparr>client_heap := (client_heap s1)(c \<mapsto> k1\<lparr>connection := cn\<rparr>)\<rparr>"
    by (auto simp: client_conn_flush_def bind_eq_Some_conv)
  from connection_flush_ok [OF assms(3,1) put] have p: "conn_ok cn" "os_frame s s1"
      "conn_fd cn = conn_fd (connection k)" "conn_in cn = conn_in (connection k)" "r = - 1 \<or> 0 \<le> r"
    by (auto simp: flushed_def split: if_splits)
  show "r = - 1 \<or> 0 \<le> r" by (rule p)
  show "conn_step c s s'" using p assms(2,3) k1 s' os_frame_sys [OF p(2)] by (auto simp: conn_step_def)
qed

lemma client_put_all_step:
  assumes "send_progress E" and "client_heap s c = Some k" and "conn_ok (connection k)"
    and "client_put_all E c bss s = Some (r, s')"
  shows "conn_step c s s' \<and> (r = 0 \<or> r = - 1)"
  using assms(2-4)
proof (induction bss arbitrary: s k)
  case Nil
  then show ?case using conn_step_refl [OF Nil(1,2)] by simp
next
  case (Cons bs bss)
  from Cons.prems(3) obtain r1 s1 where put: "client_put E c bs s = Some (r1, s1)"
    and rest: "(if r1 = - 1 then Some (- 1, s1) else client_put_all E c bss s1) = Some (r, s')"
    by (auto simp: bind_eq_Some_conv)
  note step = client_put_step [OF assms(1) Cons.prems(1,2) put]
  obtain cn where "client_heap s1 c = Some (k\<lparr>connection := cn\<rparr>)" "conn_ok cn"
    using conn_step_client [OF step(1) Cons.prems(1)] by auto
  with Cons.IH [of s1 "k\<lparr>connection := cn\<rparr>"] rest step(1) show ?case
    by (auto split: if_splits intro: conn_step_trans)
qed

lemma client_send_event_step:
  assumes "send_progress E" and "client_heap s c = Some k" and "conn_ok (connection k)"
    and "client_send_event E op c s = Some (r, s')"
  shows "conn_step c s s' \<and> (r = 0 \<or> r = - 1)"
proof -
  from assms(4) obtain r1 s1 where put: "client_put E c (header_bytes op 0) s = Some (r1, s1)"
    and rest: "(if r1 = - 1 then Some (- 1, s1) else do {
       (r, s) \<leftarrow> client_conn_flush E c s1;
       if r = - 1 then Some (- 1, s) else Some (0, s) }) = Some (r, s')"
    by (auto simp: client_send_event_def bind_eq_Some_conv)
  note step = client_put_step [OF assms(1-3) put]
  obtain cn where k1: "client_heap s1 c = Some (k\<lparr>connection := cn\<rparr>)" "conn_ok cn"
    using conn_step_client [OF step(1) assms(2)] by auto
  show ?thesis
  proof (cases "r1 = - 1")
    case False
    with rest obtain r2 s2 where fl: "client_conn_flush E c s1 = Some (r2, s2)"
      and "s' = s2" "r = 0 \<or> r = - 1" by (auto simp: bind_eq_Some_conv split: if_splits)
    with client_conn_flush_step [OF assms(1) k1(1) _ fl] k1(2) step(1) show ?thesis
      by (auto intro: conn_step_trans)
  qed (use rest step in auto)
qed

end
