(* ===== verification/Seat_Inv.thy ===== *)
theory Seat_Inv
  imports Graph
begin

text \<open>
  The operations of \<open>seatd/seat.c\<close> and the invariant: every operation keeps \<open>graph\<close>, changes
  only the clients and seats it is called on, and does what its comment in the source says.
\<close>

section \<open>Terminals\<close>

lemma vt_calls_frame:
  "os_frame s (sys_close E fd (snd (terminal_set_graphics E fd b (snd (terminal_set_keyboard E fd b'
     (snd (terminal_set_process_switching E fd b'' s)))))))"
  by (meson os_frame_trans sys_frames(2) terminal_ioctl_frames(1,5) terminal_set_keyboard_frame)

lemma vt_open_frame: "vt_open E vt s = Some (r, s') \<Longrightarrow> os_frame s s'"
  by (auto simp: vt_open_def split_def bind_eq_Some_conv split: if_splits
      dest!: terminal_open_frame intro: os_frame_trans [OF _ vt_calls_frame])

lemma vt_close_frame: "vt_close E vt s = Some (r, s') \<Longrightarrow> os_frame s s'"
  by (auto simp: vt_close_def split_def bind_eq_Some_conv split: if_splits
      dest!: terminal_open_frame intro: os_frame_trans [OF _ vt_calls_frame])

lemma vt_switch_frame: "vt_switch E st vt s = Some (r, s') \<Longrightarrow> os_frame s s'"
proof -
  have "os_frame t (sys_close E fd (snd (terminal_switch_vt E fd vt (snd (terminal_set_process_switching E fd True t)))))" for fd and t :: sys
    by (meson os_frame_trans sys_frames(2) terminal_ioctl_frames(1,2))
  then show "vt_switch E st vt s = Some (r, s') \<Longrightarrow> os_frame s s'"
    by (auto simp: vt_switch_def split_def bind_eq_Some_conv split: if_splits
      dest!: terminal_open_frame intro: os_frame_trans)
qed

lemma vt_ack_frame: "vt_ack E st rel s = Some (r, s') \<Longrightarrow> os_frame s s'"
proof -
  have "os_frame t (sys_close E fd (snd (if rel then terminal_ack_release E fd t else terminal_ack_acquire E fd t)))" for fd and t :: sys
    by (cases rel) (simp_all, (meson os_frame_trans sys_frames(2) terminal_ioctl_frames(3,4))+)
  then show "vt_ack E st rel s = Some (r, s') \<Longrightarrow> os_frame s s'"
    by (auto simp: vt_ack_def split_def bind_eq_Some_conv split: if_splits
      dest!: terminal_open_frame intro: os_frame_trans)
qed

lemma vt_returns:
  "0 \<le> vt \<Longrightarrow> \<exists>r s'. vt_open E vt s = Some (r, s')" "0 \<le> vt \<Longrightarrow> \<exists>r s'. vt_close E vt s = Some (r, s')"
  using terminal_open_returns [of vt E s] by (auto simp: vt_open_def vt_close_def split_def)

text \<open>The only change to the state is the seat's idea of the current terminal.\<close>

lemma seat_update_vt_frame:
  assumes "seat_update_vt E st s = Some s'"
  shows "os_frame s s' \<or> (\<exists>x vt s1. os_frame s s1 \<and> seat_heap s st = Some x
    \<and> s' = s1\<lparr>seat_heap := (seat_heap s)(st \<mapsto> x\<lparr>cur_vt := vt\<rparr>)\<rparr>)"
proof -
  from assms obtain fd s1 where 1: "terminal_open E 0 s = Some (fd, s1)"
    and rest: "(if fd = - 1 then Some s1 else do {
       s \<leftarrow> upd_seat st (\<lambda>x. x\<lparr>cur_vt := fst (terminal_current_vt E fd s1)\<rparr>) (snd (terminal_current_vt E fd s1));
       Some (sys_close E fd s) }) = Some s'"
    by (auto simp: seat_update_vt_def bind_eq_Some_conv split_def Let_def cong: if_cong)
  have f1: "os_frame s s1" by (rule terminal_open_frame [OF 1])
  define s2 where "s2 = snd (terminal_current_vt E fd s1)"
  have f2: "os_frame s s2" unfolding s2_def by (rule os_frame_trans [OF f1 terminal_current_vt_frame])
  show ?thesis
  proof (cases "fd = - 1")
    case False
    with rest obtain x where x: "seat_heap s2 st = Some x"
      and s': "s' = sys_close E fd (s2\<lparr>seat_heap := (seat_heap s2)(st \<mapsto> x\<lparr>cur_vt := fst (terminal_current_vt E fd s1)\<rparr>)\<rparr>)"
      by (auto simp: bind_eq_Some_conv s2_def)
    have "sys_close E fd (s2\<lparr>seat_heap := H\<rparr>) = (sys_close E fd s2)\<lparr>seat_heap := H\<rparr>" for H
      by (cases "k_close E (trace s2) fd") (simp_all add: sys_close_def note_result_def Let_def)
    moreover have "os_frame s (sys_close E fd s2)" by (rule os_frame_trans [OF f2 sys_frames(2)])
    ultimately show ?thesis using x s' os_frame_sys [OF f2] by auto
  qed (use rest f1 in auto)
qed

section \<open>Devices\<close>

definition same_device :: "seat_device \<Rightarrow> seat_device \<Rightarrow> bool" where
  "same_device d d' \<longleftrightarrow> d' = d\<lparr>dev_active := dev_active d'\<rparr>"

lemma seat_deactivate_device_ok:
  assumes "dev_type d \<noteq> SEAT_DEVICE_TYPE_NORMAL"
  shows "\<exists>r d' s'. seat_deactivate_device E d s = Some (r, d', s') \<and> same_device d d' \<and> os_frame s s'
    \<and> (r = 0 \<and> \<not> dev_active d' \<or> r = - 1 \<and> d' = d)"
  using assms device_frames(2) [of s E "dev_fd d"] device_frames(3) [of s E "dev_fd d"] device_frames(4) [of s E "dev_fd d"]
  by (cases "drm_drop_master E (dev_fd d) s"; cases "evdev_revoke E (dev_fd d) s"; cases "hidraw_revoke E (dev_fd d) s";
      cases "dev_type d") (auto simp: seat_deactivate_device_def same_device_def)

lemma seat_activate_device_ok:
  assumes "dev_type d \<noteq> SEAT_DEVICE_TYPE_NORMAL"
  shows "\<exists>r d' s'. seat_activate_device E d s = Some (r, d', s') \<and> same_device d d' \<and> os_frame s s'"
  using assms device_frames(1) [of s E "dev_fd d"]
  by (cases "drm_set_master E (dev_fd d) s"; cases "dev_type d")
    (auto simp: seat_activate_device_def same_device_def os_frame_def)

lemma each_device_ok:
  assumes f: "\<And>d s. d \<in> set ds \<Longrightarrow> \<exists>r d' s'. f d s = Some (r, d', s') \<and> P d d' \<and> os_frame s s'"
  shows "\<exists>ds' s'. each_device f ds s = Some (ds', s') \<and> list_all2 P ds ds' \<and> os_frame s s'"
  using f
proof (induction ds arbitrary: s)
  case (Cons d ds)
  obtain r d' s1 where 1: "f d s = Some (r, d', s1)" "P d d'" "os_frame s s1" using Cons.prems [of d s] by auto
  obtain ds' s2 where 2: "each_device f ds s1 = Some (ds', s2)" "list_all2 P ds ds'" "os_frame s1 s2"
    using Cons.IH [of s1] Cons.prems by auto
  from 1 2 show ?case by (auto intro: os_frame_trans)
qed simp

lemma same_device_sel:
  "same_device d d' \<Longrightarrow> device_id d' = device_id d \<and> dev_path d' = dev_path d \<and> dev_fd d' = dev_fd d
     \<and> dev_type d' = dev_type d \<and> ref_cnt d' = ref_cnt d \<and> device_ok d' = device_ok d"
  by (cases d; cases d') (auto simp: same_device_def device_ok_def)

lemma devices_ok_same:
  assumes ok: "devices_ok ds" and all: "list_all2 same_device ds ds'"
  shows "devices_ok ds'"
proof -
  have "map device_id ds' = map device_id ds" "map dev_path ds' = map dev_path ds" "list_all device_ok ds' = list_all device_ok ds"
    using all by (induction rule: list_all2_induct) (auto dest: same_device_sel)
  with ok list_all2_lengthD [OF all] show ?thesis by (simp add: devices_ok_def list_all_iff)
qed

text \<open>The two loops over the devices of a client return, whatever the kernel answers.\<close>

lemma deactivate_all_ok:
  "devices_ok ds \<Longrightarrow> \<exists>ds' s'. each_device (seat_deactivate_device E) ds s = Some (ds', s')
     \<and> list_all2 same_device ds ds' \<and> os_frame s s'"
  by (intro each_device_ok) (use seat_deactivate_device_ok in \<open>fastforce simp: devices_ok_def device_ok_def\<close>)

lemma activate_all_ok:
  "devices_ok ds \<Longrightarrow> \<exists>ds' s'. each_device (seat_activate_device E) ds s = Some (ds', s')
     \<and> list_all2 same_device ds ds' \<and> os_frame s s'"
  by (intro each_device_ok) (use seat_activate_device_ok in \<open>fastforce simp: devices_ok_def device_ok_def\<close>)

section \<open>Opening a client\<close>

lemma graph_update_both:
  assumes g: "graph L s" and k: "client_heap s c = Some k" and x: "seat_heap s st = Some x"
    and mem: "c \<in> set (s_clients x)" and act: "active_client x = None \<or> active_client x = Some c"
    and k': "client_ok k'" "c_seat k' = c_seat k" "c_session k' = c_session k" "client_id k' = client_id k"
    and a: "a = (if active_state (c_state k') then Some c else None)"
  defines "t \<equiv> s\<lparr>client_heap := (client_heap s)(c \<mapsto> k'), seat_heap := (seat_heap s)(st \<mapsto> x\<lparr>active_client := a\<rparr>)\<rparr>"
  shows "graph L t \<and> within {c} {st} s t"
proof -
  have "within {c} {st} s (s\<lparr>client_heap := (client_heap s)(c \<mapsto> k')\<rparr>)"
    using within_upd_client [OF k k'(4), of "{c}" "{st}"] by simp
  also have "within {c} {st} \<dots> t"
    unfolding t_def by (rule within_upd_seat [of "s\<lparr>client_heap := (client_heap s)(c \<mapsto> k')\<rparr>" st x, simplified])
      (use x in \<open>auto simp: seat_id_def\<close>)
  finally show ?thesis
    unfolding t_def using graph_set_active [OF g k x mem act k'(1-3) a] by blast
qed

text \<open>What the terminal calls of a seat depend on: its terminal and the sessions of its clients.\<close>

definition vt_view :: "sys \<Rightarrow> (nat \<rightharpoonup> bool \<times> int) \<times> (nat \<rightharpoonup> nat option \<times> int)" where
  "vt_view s = (\<lambda>st. map_option (\<lambda>x. (vt_bound x, cur_vt x)) (seat_heap s st),
     \<lambda>c. map_option (\<lambda>k. (c_seat k, c_session k)) (client_heap s c))"

lemma vt_view_os_frame: "os_frame s s' \<Longrightarrow> vt_view s' = vt_view s"
  by (simp add: vt_view_def os_frame_sys)

lemma vt_view_within:
  assumes "within {c} {st} s s'" and "client_heap s c = Some k" "client_heap s' c = Some k'" "c_session k' = c_session k" "c_seat k' = c_seat k"
    and "seat_heap s st = Some x" "seat_heap s' st = Some x'" "vt_bound x' = vt_bound x" "cur_vt x' = cur_vt x"
  shows "vt_view s' = vt_view s"
proof -
  have "map_option (\<lambda>k. (c_seat k, c_session k)) (client_heap s' c') = map_option (\<lambda>k. (c_seat k, c_session k)) (client_heap s c')" for c'
    using assms by (cases "c' = c") (auto simp: within_def)
  moreover have "map_option (\<lambda>x. (vt_bound x, cur_vt x)) (seat_heap s' st') = map_option (\<lambda>x. (vt_bound x, cur_vt x)) (seat_heap s st')" for st'
    using assms by (cases "st' = st") (auto simp: within_def)
  ultimately show ?thesis by (simp add: vt_view_def)
qed

lemma vt_view_upd_seat:
  "seat_heap s st = Some x \<Longrightarrow> vt_bound y = vt_bound x \<Longrightarrow> cur_vt y = cur_vt x \<Longrightarrow>
    vt_view (s\<lparr>seat_heap := (seat_heap s)(st \<mapsto> y)\<rparr>) = vt_view s"
  by (auto simp: vt_view_def)

lemma open_body_ok:
  assumes g: "graph L s" and E: "send_progress E" and k: "client_heap s c = Some k"
    and x: "seat_heap s st = Some x" and mem: "c \<in> set (s_clients x)" and act: "active_client x = None"
    and body: "do {
        (ds, s) \<leftarrow> each_device (seat_activate_device E) (c_devices k) s;
        s \<leftarrow> upd_client c (\<lambda>k. k\<lparr>c_devices := ds, c_state := CLIENT_ACTIVE\<rparr>) s;
        s \<leftarrow> upd_seat st (\<lambda>x. x\<lparr>active_client := Some c\<rparr>) s;
        client_send_enable_seat E c s } = Some (r, s')"
  shows "graph L s' \<and> within {c} {st} s s' \<and> (r = 0 \<or> r = - 1)
    \<and> seat_heap s' st = Some (x\<lparr>active_client := Some c\<rparr>)
    \<and> (\<exists>ds cn. client_heap s' c = Some (k\<lparr>c_devices := ds, c_state := CLIENT_ACTIVE, connection := cn\<rparr>)
         \<and> list_all2 same_device (c_devices k) ds \<and> conn_in cn = conn_in (connection k))"
proof -
  have ok: "client_ok k" "c \<notin> L" "c_seat k = Some st" using graph_member [OF g x mem] k by auto
  then obtain ds s1 where ds: "each_device (seat_activate_device E) (c_devices k) s = Some (ds, s1)"
      "list_all2 same_device (c_devices k) ds" and f: "os_frame s s1"
    using activate_all_ok [of "c_devices k" E s] by (auto simp: client_ok_def)
  let ?k = "k\<lparr>c_devices := ds, c_state := CLIENT_ACTIVE\<rparr>"
  define t where "t = s1\<lparr>client_heap := (client_heap s1)(c \<mapsto> ?k),
    seat_heap := (seat_heap s1)(st \<mapsto> x\<lparr>active_client := Some c\<rparr>)\<rparr>"
  from body ds k x have send: "client_send_event E SERVER_ENABLE_SEAT c t = Some (r, s')"
    by (simp add: t_def client_send_enable_seat_def upd_client_def upd_seat_def os_frame_sys [OF f])
  have ok': "client_ok ?k" using ok devices_ok_same [OF _ ds(2)] by (auto simp: client_ok_def)
  then have gt: "graph L t \<and> within {c} {st} s1 t"
    unfolding t_def
    by (intro graph_update_both [of L s1 c k st x ?k])
      (use g k x mem act ok in \<open>auto simp: graph_os_frame [OF f] os_frame_sys [OF f] active_state_def client_id_def\<close>)
  have tc: "client_heap t c = Some ?k" "seat_heap t st = Some (x\<lparr>active_client := Some c\<rparr>)" by (auto simp: t_def)
  have step: "conn_step c t s' \<and> (r = 0 \<or> r = - 1)"
    by (rule client_send_event_step [OF E tc(1) _ send]) (use ok' in \<open>simp add: client_ok_def\<close>)
  have "within {c} {st} s s'"
    using within_os_frame [OF f] gt conn_step_within [of c t s' "{c}" "{st}"] step by (meson within_trans insertI1)
  moreover have "seat_heap s' st = Some (x\<lparr>active_client := Some c\<rparr>)"
    using conn_step_within [of c t s' "{c}" "{}"] step tc(2) by (simp add: within_def)
  ultimately show ?thesis
    using step conn_step_graph [of L t c s'] gt conn_step_client [of c t s', OF _ tc(1)] ds(2) by auto
qed

lemma seat_open_client_ok:
  assumes g: "graph L s" and E: "send_progress E"
    and x: "seat_heap s st = Some x" and mem: "c \<in> set (s_clients x)"
    and call: "seat_open_client E st c s = Some (r, s')"
  shows "graph L s' \<and> within {c} {st} s s' \<and> (r = 0 \<or> r = - 1)
    \<and> (\<exists>a. seat_heap s' st = Some (x\<lparr>active_client := a\<rparr>)) \<and> vt_view s' = vt_view s"
proof -
  obtain k where k: "client_heap s c = Some k" "c_seat k = Some st" using graph_member [OF g x mem] by auto
  consider "os_frame s s'" "r = - 1"
    | r1 s1 r2 s2 where "active_client x = None"
      "(if vt_bound x then vt_open E (c_session k) s else Some (0, s)) = Some (r1, s1)"
      "(if r1 = - 1 then Some (- 1, s1)
          else do {
            (ds, s) \<leftarrow> each_device (seat_activate_device E) (c_devices k) s1;
            s \<leftarrow> upd_client c (\<lambda>k. k\<lparr>c_devices := ds, c_state := CLIENT_ACTIVE\<rparr>) s;
            s \<leftarrow> upd_seat st (\<lambda>x. x\<lparr>active_client := Some c\<rparr>) s;
            client_send_enable_seat E c s }) = Some (r2, s2)"
      "(if r2 = - 1 then do {
         (_, s) \<leftarrow> (if vt_bound x then vt_close E (cur_vt x) s2 else Some (0, s2));
         Some (- 1, s) }
       else Some (0, s2)) = Some (r, s')"
    using call k x by (auto simp: seat_open_client_def bind_eq_Some_conv split: if_splits)
  then show ?thesis
  proof cases
    case 1
    then show ?thesis using g x by (auto simp: graph_os_frame within_os_frame os_frame_sys vt_view_os_frame intro: exI [of _ "active_client x"])
  next
    case 2
    have f1: "os_frame s s1" using 2(2) vt_open_frame by (auto split: if_splits)
    have f2: "os_frame s2 s'" "r = 0 \<or> r = - 1"
      using 2(4) vt_close_frame by (auto simp: bind_eq_Some_conv split: if_splits)
    have "graph L s2 \<and> within {c} {st} s1 s2 \<and> (\<exists>a. seat_heap s2 st = Some (x\<lparr>active_client := a\<rparr>)) \<and> vt_view s2 = vt_view s1"
    proof (cases "r1 = - 1")
      case True
      have "seat_heap s1 st = Some (x\<lparr>active_client := active_client x\<rparr>)" using x os_frame_sys [OF f1] by simp
      then show ?thesis using True 2(3) g graph_os_frame [OF f1] by (auto intro: exI [of _ "active_client x"])
    next
      case False
      have h1: "client_heap s1 c = Some k" "seat_heap s1 st = Some x" using k x by (simp_all add: os_frame_sys [OF f1])
      have g1: "graph L s1" using g by (simp add: graph_os_frame [OF f1])
      from False 2(3) open_body_ok [OF g1 E h1 mem 2(1), of r2 s2] obtain ds cn where b: "graph L s2" "within {c} {st} s1 s2"
          "seat_heap s2 st = Some (x\<lparr>active_client := Some c\<rparr>)"
          "client_heap s2 c = Some (k\<lparr>c_devices := ds, c_state := CLIENT_ACTIVE, connection := cn\<rparr>)" by auto
      from vt_view_within [OF b(2) h1(1) b(4) _ _ h1(2) b(3)] b show ?thesis by auto
    qed
    with f2 within_os_frame [OF f1, of "{c}" "{st}"] within_os_frame [OF f2(1), of "{c}" "{st}"]
    show ?thesis
      by (auto simp: graph_os_frame os_frame_sys [OF f2(1)] vt_view_os_frame [OF f1] vt_view_os_frame [OF f2(1)] intro: within_trans)
  qed
qed

lemma find_client_Some:
  assumes "find_client P cs s = Some (Some c)"
  shows "c \<in> set cs \<and> (\<exists>k. client_heap s c = Some k \<and> P k)"
  using assms by (induction cs) (auto simp: bind_eq_Some_conv split: if_splits)

lemma seat_activate_ok:
  assumes g: "graph L s" and E: "send_progress E" and x: "seat_heap s st = Some x"
    and call: "seat_activate E st s = Some (r, s')"
  shows "graph L s' \<and> within (set (s_clients x)) {st} s s' \<and> (r = 0 \<or> r = - 1)
    \<and> (\<exists>a n. seat_heap s' st = Some (x\<lparr>next_client := n, active_client := a\<rparr>)) \<and> vt_view s' = vt_view s"
proof -
  let ?s1 = "s\<lparr>seat_heap := (seat_heap s)(st \<mapsto> x\<lparr>next_client := None\<rparr>)\<rparr>"
  have w1: "within (set (s_clients x)) {st} s ?s1" by (rule within_upd_seat [OF x]) (auto simp: seat_id_def)
  have v1: "vt_view ?s1 = vt_view s" by (rule vt_view_upd_seat [OF x]) simp_all
  have g1: "graph L ?s1" by (rule graph_upd_seat [OF g x]) auto
  have open_ok: "graph L s' \<and> within (set (s_clients x)) {st} t s' \<and> (r = 0 \<or> r = - 1)
      \<and> (\<exists>a n. seat_heap s' st = Some (x\<lparr>next_client := n, active_client := a\<rparr>)) \<and> vt_view s' = vt_view t"
    if "graph L t" "seat_heap t st = Some y" "y = x\<lparr>next_client := m\<rparr>" "c \<in> set (s_clients x)"
      "seat_open_client E st c t = Some (r, s')" for t y c m
    using seat_open_client_ok [OF that(1) E that(2) _ that(5)] that(3,4) within_mono [of "{c}" "{st}" t s'] by auto
  have same: "\<exists>a n. seat_heap s st = Some (x\<lparr>next_client := n, active_client := a\<rparr>)"
    using x by (intro exI [of _ "active_client x"] exI [of _ "next_client x"]) simp
  have queued: "c \<in> set (s_clients x)" if "next_client x = Some c" for c
    using graph_seat_ok [OF g x] that by (simp add: seat_ok_def)
  show ?thesis
  proof (cases "active_client x = None")
    case act: True
    show ?thesis
    proof (cases "next_client x")
      case (Some c)
      with call x act have "seat_open_client E st c ?s1 = Some (r, s')"
        by (simp add: seat_activate_def upd_seat_def)
      with open_ok [OF g1, of "x\<lparr>next_client := None\<rparr>" None c] queued [OF Some] w1 v1 show ?thesis
        by (auto intro: within_trans)
    next
      case None
      have "s' = s \<and> r = - 1 \<or> (\<exists>c \<in> set (s_clients x). seat_open_client E st c s = Some (r, s'))"
        using call x act None find_client_Some [of _ "s_clients x" s]
        by (auto simp: seat_activate_def bind_eq_Some_conv split: if_splits option.splits)
      with open_ok [OF g x, of "next_client x"] g same show ?thesis by auto
    qed
  qed (use call x g same in \<open>auto simp: seat_activate_def\<close>)
qed

section \<open>Opening and closing devices\<close>

lemma devices_ok_remove: "devices_ok ds \<Longrightarrow> devices_ok (remove_nth i ds)"
proof -
  assume "devices_ok ds"
  moreover have "length (remove_nth i ds) \<le> length ds" by (auto simp: remove_nth_def)
  ultimately show ?thesis
    using set_remove_nth [of i ds] by (auto simp: devices_ok_def distinct_map_remove_nth)
qed

lemma map_list_update_same: "i < length xs \<Longrightarrow> f y = f (xs ! i) \<Longrightarrow> map f (xs[i := y]) = map f xs"
  by (simp add: map_update list_update_same_conv)

lemma devices_ok_update:
  assumes "devices_ok ds" and "i < length ds" and "1 \<le> n" "n \<le> INT_MAX"
  shows "devices_ok (ds[i := (ds ! i)\<lparr>ref_cnt := n\<rparr>])"
proof -
  have "device_ok ((ds ! i)\<lparr>ref_cnt := n\<rparr>)"
    using assms nth_mem [OF assms(2)] by (auto simp: devices_ok_def device_ok_def)
  then show ?thesis
    using assms by (auto simp: devices_ok_def map_list_update_same dest!: subsetD [OF set_update_subset_insert])
qed

lemma seat_close_device_ok:
  assumes k: "client_heap s c = Some k" and st: "c_seat k = Some st" "seat_heap s st = Some x"
    and ds: "devices_ok (c_devices k)" and i: "i < length (c_devices k)"
  defines "d \<equiv> c_devices k ! i"
  defines "ds' \<equiv> (if ref_cnt d > 1 then (c_devices k)[i := d\<lparr>ref_cnt := ref_cnt d - 1\<rparr>] else remove_nth i (c_devices k))"
  shows "\<exists>s1. seat_close_device E c i s = Some (0, s1\<lparr>client_heap := (client_heap s)(c \<mapsto> k\<lparr>c_devices := ds'\<rparr>)\<rparr>)
    \<and> os_frame s s1 \<and> devices_ok ds'"
proof -
  have d: "device_ok d" using ds i by (auto simp: devices_ok_def d_def)
  then have n: "INT_MIN < ref_cnt d" by (auto simp: device_ok_def INT_MIN_def)
  show ?thesis
  proof (cases "ref_cnt d > 1")
    case True
    then have "devices_ok ds'" using devices_ok_update [OF ds i, of "ref_cnt d - 1"] d
      by (simp add: ds'_def d_def [symmetric] device_ok_def)
    moreover have "seat_close_device E c i s = Some (0, s\<lparr>client_heap := (client_heap s)(c \<mapsto> k\<lparr>c_devices := ds'\<rparr>)\<rparr>)"
      using True k st i n by (simp add: seat_close_device_def upd_client_def ds'_def d_def [symmetric] nth_opt_def int_decr_def)
    ultimately show ?thesis using os_frame_refl by blast
  next
    case False
    let ?s = "s\<lparr>client_heap := (client_heap s)(c \<mapsto> k\<lparr>c_devices := ds'\<rparr>)\<rparr>"
    obtain r d' t where t: "seat_deactivate_device E d ?s = Some (r, d', t)" "same_device d d'" "os_frame ?s t"
      using seat_deactivate_device_ok [of d E ?s] d by (auto simp: device_ok_def)
    have "os_frame ?s (sys_close E (dev_fd d) t)" by (rule os_frame_trans [OF t(3) sys_frames(2)])
    then obtain u where u: "os_frame s u"
        "sys_close E (dev_fd d) t = u\<lparr>client_heap := (client_heap s)(c \<mapsto> k\<lparr>c_devices := ds'\<rparr>)\<rparr>"
      using os_frame_client_heap by blast
    have "seat_close_device E c i s = Some (0, sys_close E (dev_fd d) t)"
      using False k st i n t d same_device_sel [OF t(2)]
      by (simp add: seat_close_device_def upd_client_def ds'_def d_def [symmetric] nth_opt_def device_ok_def int_decr_def)
    then show ?thesis using u devices_ok_remove [OF ds, of i] False by (auto simp: ds'_def)
  qed
qed

definition total_refs :: "seat_device list \<Rightarrow> nat" where
  "total_refs ds = sum_list (map (\<lambda>d. nat (ref_cnt d)) ds)"

text \<open>The loop that closes all devices of a client returns: every round gives up one reference.\<close>

lemma close_devices_ok:
  assumes "client_heap s c = Some k" and "c_seat k = Some st" "seat_heap s st = Some x"
    and "devices_ok (c_devices k)"
  shows "\<exists>s1. close_devices E c s = Some (s1\<lparr>client_heap := (client_heap s)(c \<mapsto> k\<lparr>c_devices := []\<rparr>)\<rparr>) \<and> os_frame s s1"
  using assms
proof (induction "total_refs (c_devices k)" arbitrary: s k rule: less_induct)
  case less
  show ?case
  proof (cases "c_devices k")
    case Nil
    then have "k\<lparr>c_devices := []\<rparr> = k" by simp
    with Nil less.prems show ?thesis
      by (subst close_devices.simps) (auto intro!: exI [where x = s] simp: fun_upd_idem)
  next
    case (Cons d rest)
    let ?ds = "if ref_cnt d > 1 then d\<lparr>ref_cnt := ref_cnt d - 1\<rparr> # rest else rest"
    have "1 \<le> ref_cnt d" using less.prems(4) Cons by (simp add: devices_ok_def device_ok_def)
    then have dec: "total_refs ?ds < total_refs (c_devices k)" using Cons by (auto simp: total_refs_def)
    from seat_close_device_ok [OF less.prems(1-4), of 0 E] Cons obtain s1 where
        s1: "seat_close_device E c 0 s = Some (0, s1\<lparr>client_heap := (client_heap s)(c \<mapsto> k\<lparr>c_devices := ?ds\<rparr>)\<rparr>)"
          "os_frame s s1" "devices_ok ?ds" by (auto split: if_splits)
    let ?t = "s1\<lparr>client_heap := (client_heap s)(c \<mapsto> k\<lparr>c_devices := ?ds\<rparr>)\<rparr>"
    from less.hyps [of "k\<lparr>c_devices := ?ds\<rparr>" ?t] dec s1(3) less.prems os_frame_sys [OF s1(2)]
    obtain u where u: "close_devices E c ?t = Some (u\<lparr>client_heap := (client_heap s)(c \<mapsto> k\<lparr>c_devices := []\<rparr>)\<rparr>)" "os_frame ?t u"
      by auto
    obtain v where v: "os_frame s1 v" "u = v\<lparr>client_heap := (client_heap s)(c \<mapsto> k\<lparr>c_devices := ?ds\<rparr>)\<rparr>"
      using os_frame_client_heap [OF u(2)] by blast
    have "close_devices E c s = Some (v\<lparr>client_heap := (client_heap s)(c \<mapsto> k\<lparr>c_devices := []\<rparr>)\<rparr>)"
      using u v(2) s1(1) Cons less.prems(1) by (subst close_devices.simps) simp
    then show ?thesis using os_frame_trans [OF s1(2) v(1)] by blast
  qed
qed

lemma scan_devices_ok:
  assumes "scan_devices p ds n m = Some r"
  shows "case r of
      Inl i \<Rightarrow> \<exists>j < length ds. i = m + j \<and> dev_path (ds ! j) = p
    | Inr (i, cnt) \<Rightarrow> cnt = m + length ds \<and> n \<le> i \<and> (n \<le> INT_MAX \<longrightarrow> i \<le> INT_MAX)
        \<and> (\<forall>d \<in> set ds. device_id d < i \<and> dev_path d \<noteq> p)"
  using assms
proof (induction ds arbitrary: n m)
  case (Cons d ds)
  show ?case
  proof (cases "dev_path d = p")
    case False
    define n' where "n' = (if device_id d \<ge> n then device_id d + 1 else n)"
    have n': "n \<le> n'" "device_id d < n'" by (auto simp: n'_def)
    from Cons.prems False have rest: "n \<le> INT_MAX \<longrightarrow> n' \<le> INT_MAX" "scan_devices p ds n' (m + 1) = Some r"
      by (auto simp: bind_eq_Some_conv n'_def split: if_splits)
    from Cons.IH [OF rest(2)] rest(1) n' False show ?thesis
      by (auto split: sum.splits)
  qed (use Cons.prems in auto)
qed auto

definition new_device :: "int \<Rightarrow> int \<Rightarrow> string \<Rightarrow> seat_device_type \<Rightarrow> seat_device" where
  "new_device i fd p t = \<lparr>device_id = i, dev_fd = fd, ref_cnt = 1, dev_active = True, dev_path = p, dev_type = t\<rparr>"

lemma open_new_device_cases:
  assumes k: "client_heap s c = Some k" and call: "open_new_device E c p ty i s = Some (r, s')"
  obtains "r = None" "os_frame s s'"
  | fd t where "r = Some 0" "fd \<noteq> - 1" "ty \<noteq> SEAT_DEVICE_TYPE_NORMAL" "os_frame s t"
      "s' = t\<lparr>client_heap := (client_heap s)(c \<mapsto> k\<lparr>c_devices := new_device i fd p ty # c_devices k\<rparr>)\<rparr>"
proof -
  obtain fd s1 where 1: "sys_open E p [O_RDWR, O_NOCTTY, O_NOFOLLOW, O_CLOEXEC, O_NONBLOCK] s = (fd, s1)" by force
  obtain m s2 where 2: "(if ty = SEAT_DEVICE_TYPE_DRM then drm_set_master E fd s1 else (0, s1)) = (m, s2)" by force
  obtain a3 s3 where 3: "sys_alloc E s2 = (a3, s3)" by force
  obtain a4 s4 where 4: "sys_alloc E s3 = (a4, s4)" by force
  have f1: "os_frame s s1" using 1 sys_frames(1) by (metis snd_conv)
  also have f2: "os_frame s1 s2" using 2 device_frames(1) [of s1 E fd] by (auto split: if_splits)
  finally have g2: "os_frame s s2" .
  also have f3: "os_frame s2 s3" using 3 sys_alloc_frame [of s2 E] by simp
  finally have g3: "os_frame s s3" .
  also have "os_frame s3 s4" using 4 sys_alloc_frame [of s3 E] by simp
  finally have g4: "os_frame s s4" .
  note closed = os_frame_trans [OF g3 sys_frames(2) [of s3 E fd]] os_frame_trans [OF g4 sys_frames(2) [of s4 E fd]]
  consider "fd = - 1" | "fd \<noteq> - 1" "\<not> a3" | "fd \<noteq> - 1" a3 "\<not> a4" | "fd \<noteq> - 1" a3 a4 by blast
  then show thesis
  proof cases
    case 4
    then show thesis using that(2) [of fd s4] call k g4 1 2 \<open>sys_alloc E s2 = (a3, s3)\<close> \<open>sys_alloc E s3 = (a4, s4)\<close>
      by (auto simp: open_new_device_def bind_eq_Some_conv new_device_def os_frame_sys [OF g4])
  qed (use that(1) call 1 2 3 4 f1 closed in \<open>auto simp: open_new_device_def bind_eq_Some_conv\<close>)
qed

text \<open>
  The three outcomes: an error that leaves the client as it is; the path is open already, which
  only counts a reference; or a new device with an identifier above all others.
\<close>

lemma seat_open_device_cases:
  assumes k: "client_heap s c = Some k" and call: "seat_open_device E c path s = Some (r, s')"
  obtains "r = None" "os_frame s s'"
  | i t where "r = None" "c_state k = CLIENT_ACTIVE" "i < length (c_devices k)" "ref_cnt (c_devices k ! i) < INT_MAX"
      "os_frame s t" "s' = t\<lparr>client_heap := (client_heap s)(c \<mapsto> k\<lparr>c_devices :=
        (c_devices k)[i := (c_devices k ! i)\<lparr>ref_cnt := ref_cnt (c_devices k ! i) + 1\<rparr>]\<rparr>)\<rparr>"
  | i fd p ty t where "r = Some 0" "c_state k = CLIENT_ACTIVE" "device_class E p = Some ty" "fd \<noteq> - 1"
      "1 \<le> i" "i \<le> INT_MAX" "\<forall>d \<in> set (c_devices k). device_id d < i \<and> dev_path d \<noteq> p"
      "length (c_devices k) < MAX_SEAT_DEVICES" "os_frame s t" "ty \<noteq> SEAT_DEVICE_TYPE_NORMAL"
      "s' = t\<lparr>client_heap := (client_heap s)(c \<mapsto> k\<lparr>c_devices := new_device i fd p ty # c_devices k\<rparr>)\<rparr>"
proof (cases "c_state k = CLIENT_ACTIVE")
  case False
  with k call have "r = None" "os_frame s s'"
    by (auto simp: seat_open_device_def bind_eq_Some_conv)
  then show thesis by (rule that(1))
next
  case act: True
  obtain rp s1 where rp: "sys_realpath E path s = (rp, s1)" by force
  have f1: "os_frame s s1" using rp sys_frames(4) [of s E path] by simp
  have k1: "client_heap s1 c = Some k" using k os_frame_sys(7) [OF f1] by simp
  from k call act rp consider "r = None" "os_frame s1 s'"
    | p ty scan where "device_class E p = Some ty" "scan_devices p (c_devices k) 1 0 = Some scan"
      "(case scan of Inl i \<Rightarrow> do {
            n \<leftarrow> int_incr (ref_cnt (c_devices k ! i));
            s \<leftarrow> upd_client c (\<lambda>k. k\<lparr>c_devices := (c_devices k)[i := (c_devices k ! i)\<lparr>ref_cnt := n\<rparr>]\<rparr>) s1;
            Some (None, s) }
        | Inr (i, cnt) \<Rightarrow> if cnt \<ge> MAX_SEAT_DEVICES then Some (None, s1\<lparr>errno := EMFILE\<rparr>)
            else open_new_device E c p ty i s1) = Some (r, s')"
    by (auto simp: seat_open_device_def bind_eq_Some_conv [of "scan_devices _ _ _ _"]
        bind_eq_Some_conv [of "c_seat k"] bind_eq_Some_conv [of "seat_heap _ _"] bind_eq_Some_conv [of "oassert _"]
        split: sum.split_asm [where sum = rp] option.split_asm [where option = "device_class _ _"])
  then consider "r = None" "os_frame s1 s'"
    | p ty j where "device_class E p = Some ty" "scan_devices p (c_devices k) 1 0 = Some (Inl j)"
        "ref_cnt (c_devices k ! j) < INT_MAX" "r = None"
        "s' = s1\<lparr>client_heap := (client_heap s1)(c \<mapsto> k\<lparr>c_devices :=
          (c_devices k)[j := (c_devices k ! j)\<lparr>ref_cnt := ref_cnt (c_devices k ! j) + 1\<rparr>]\<rparr>)\<rparr>"
    | p ty i cnt where "device_class E p = Some ty" "scan_devices p (c_devices k) 1 0 = Some (Inr (i, cnt))"
        "cnt < MAX_SEAT_DEVICES" "open_new_device E c p ty i s1 = Some (r, s')"
  proof cases
    case (2 p ty scan)
    show ?thesis
    proof (cases scan)
      case (Inl j)
      then show ?thesis using that(2) [of p ty j] 2 k1 by (auto simp: bind_eq_Some_conv)
    next
      case (Inr q)
      then show ?thesis
        using that(1) that(3) [of p ty "fst q" "snd q"] 2 by (cases q) (auto split: if_splits)
    qed
  qed
  then show thesis
  proof cases
    case 1
    then show thesis using that(1) os_frame_trans [OF f1] by blast
  next
    case 2
    then show thesis using that(2) [of j s1] act f1 scan_devices_ok [OF 2(2)] os_frame_sys(7) [OF f1] by auto
  next
    case 3
    note sc = scan_devices_ok [OF 3(2)]
    show thesis
    proof (rule open_new_device_cases [OF k1 3(4)])
      assume "r = None" "os_frame s1 s'"
      then show thesis using that(1) os_frame_trans [OF f1] by blast
    next
      fix fd t assume "r = Some 0" "fd \<noteq> - 1" "ty \<noteq> SEAT_DEVICE_TYPE_NORMAL" and f: "os_frame s1 t"
        and "s' = t\<lparr>client_heap := (client_heap s1)(c \<mapsto> k\<lparr>c_devices := new_device i fd p ty # c_devices k\<rparr>)\<rparr>"
      then show thesis using that(3) [of p ty fd i t] act 3 sc os_frame_trans [OF f1 f] os_frame_sys(7) [OF f1]
        by (auto simp: INT_MAX_def)
    qed
  qed
qed

lemma graph_errno [simp]: "graph L (s\<lparr>errno := e\<rparr>) = graph L s"
  by (rule graph_os_frame) (rule os_frame_errno)

lemma within_errno [simp]: "within A T s (s\<lparr>errno := e\<rparr>)"
  by (rule within_os_frame) (rule os_frame_errno)

text \<open>Replacing the devices of a client by well-formed ones.\<close>

lemma graph_set_devices:
  assumes g: "graph L s" and k: "client_heap s c = Some k" "c \<notin> L" and f: "os_frame s t"
    and ds: "devices_ok ds" "c_seat k \<noteq> None"
  defines "s' \<equiv> t\<lparr>client_heap := (client_heap s)(c \<mapsto> k\<lparr>c_devices := ds\<rparr>)\<rparr>"
  shows "graph L s' \<and> within {c} {} s s'"
proof -
  have ok: "client_ok k" by (rule graph_client_ok [OF g k])
  have "graph L (t\<lparr>client_heap := (client_heap t)(c \<mapsto> k\<lparr>c_devices := ds\<rparr>)\<rparr>)"
    by (rule graph_upd_client [where k = k])
      (use g k ds ok in \<open>auto simp: graph_os_frame [OF f] os_frame_sys [OF f] cview_def client_ok_def\<close>)
  moreover have "within {c} {} t (t\<lparr>client_heap := (client_heap t)(c \<mapsto> k\<lparr>c_devices := ds\<rparr>)\<rparr>)"
    by (rule within_upd_client [where k = k]) (use k in \<open>auto simp: os_frame_sys [OF f] client_id_def\<close>)
  ultimately show ?thesis
    using within_os_frame [OF f, of "{c}" "{}"] by (auto simp: s'_def os_frame_sys [OF f] intro: within_trans)
qed

lemma seat_open_device_ok:
  assumes g: "graph L s" and k: "client_heap s c = Some k" "c \<notin> L" "c_seat k \<noteq> None"
    and call: "seat_open_device E c path s = Some (r, s')"
  shows "graph L s' \<and> within {c} {} s s'
    \<and> (\<exists>ds. client_heap s' c = Some (k\<lparr>c_devices := ds\<rparr>) \<and> (r = None \<or> r = Some 0 \<and> ds \<noteq> []))"
proof (rule seat_open_device_cases [OF k(1) call])
  assume "r = None" "os_frame s s'"
  moreover have "k = k\<lparr>c_devices := c_devices k\<rparr>" by simp
  ultimately show ?thesis
    using g k by (auto simp: graph_os_frame within_os_frame os_frame_sys intro!: exI [where x = "c_devices k"])
next
  have ds: "devices_ok (c_devices k)" using graph_client_ok [OF g k(1,2)] by (simp add: client_ok_def)
  fix i t assume i: "i < length (c_devices k)" "ref_cnt (c_devices k ! i) < INT_MAX" "r = None" and f: "os_frame s t"
    and s': "s' = t\<lparr>client_heap := (client_heap s)(c \<mapsto> k\<lparr>c_devices :=
        (c_devices k)[i := (c_devices k ! i)\<lparr>ref_cnt := ref_cnt (c_devices k ! i) + 1\<rparr>]\<rparr>)\<rparr>"
  have "1 \<le> ref_cnt (c_devices k ! i)" using ds i(1) by (auto simp: devices_ok_def device_ok_def)
  then show ?thesis
    unfolding s' using graph_set_devices [OF g k(1,2) f devices_ok_update [OF ds i(1)] k(3)] i by auto
next
  have ds: "devices_ok (c_devices k)" using graph_client_ok [OF g k(1,2)] by (simp add: client_ok_def)
  fix i fd p ty t assume h: "r = Some 0" "fd \<noteq> - 1" "1 \<le> i" "i \<le> INT_MAX" "ty \<noteq> SEAT_DEVICE_TYPE_NORMAL"
      "\<forall>d \<in> set (c_devices k). device_id d < i \<and> dev_path d \<noteq> p" "length (c_devices k) < MAX_SEAT_DEVICES"
    and f: "os_frame s t"
    and s': "s' = t\<lparr>client_heap := (client_heap s)(c \<mapsto> k\<lparr>c_devices := new_device i fd p ty # c_devices k\<rparr>)\<rparr>"
  have "devices_ok (new_device i fd p ty # c_devices k)"
    using ds h by (force simp: devices_ok_def device_ok_def new_device_def INT_MAX_def)
  then show ?thesis
    unfolding s' using graph_set_devices [OF g k(1,2) f _ k(3)] h(1) by auto
qed

lemma seat_close_device_graph:
  assumes g: "graph L s" and k: "client_heap s c = Some k" "c \<notin> L" "c_seat k \<noteq> None" and i: "i < length (c_devices k)"
  shows "\<exists>s' ds. seat_close_device E c i s = Some (0, s') \<and> graph L s' \<and> within {c} {} s s'
    \<and> client_heap s' c = Some (k\<lparr>c_devices := ds\<rparr>)"
proof -
  have ds: "devices_ok (c_devices k)" using graph_client_ok [OF g k(1,2)] by (simp add: client_ok_def)
  obtain st x where st: "c_seat k = Some st" "seat_heap s st = Some x"
    using k(3) graph_client_seat [OF g k(1) _ k(2)] by auto
  from seat_close_device_ok [OF k(1) st ds i, of E] obtain s1 ds' where
      s1: "seat_close_device E c i s = Some (0, s1\<lparr>client_heap := (client_heap s)(c \<mapsto> k\<lparr>c_devices := ds'\<rparr>)\<rparr>)"
        "os_frame s s1" "devices_ok ds'" by auto
  with graph_set_devices [OF g k(1,2) s1(2,3) k(3)] show ?thesis by auto
qed

section \<open>Disabling\<close>

lemma seat_disable_client_ok:
  assumes g: "graph L s" and E: "send_progress E" and k: "client_heap s c = Some k" "c \<notin> L"
    and call: "seat_disable_client E c s = Some (r, s')"
  shows "graph L s' \<and> within {c} {} s s' \<and> (r = 0 \<or> r = - 1)
    \<and> (if c_state k = CLIENT_ACTIVE
       then \<exists>ds cn. client_heap s' c = Some (k\<lparr>c_devices := ds, c_state := CLIENT_PENDING_DISABLE, connection := cn\<rparr>)
         \<and> list_all2 same_device (c_devices k) ds \<and> conn_in cn = conn_in (connection k)
       else r = - 1 \<and> client_heap s' = client_heap s)"
proof (cases "c_state k = CLIENT_ACTIVE")
  case False
  with call k have "s' = s\<lparr>errno := EBUSY\<rparr>" "r = - 1" by (auto simp: seat_disable_client_def)
  with False g show ?thesis by simp
next
  case True
  have ok: "client_ok k" by (rule graph_client_ok [OF g k])
  then obtain ds s1 where ds: "each_device (seat_deactivate_device E) (c_devices k) s = Some (ds, s1)"
      "list_all2 same_device (c_devices k) ds" and f: "os_frame s s1"
    using deactivate_all_ok [of "c_devices k" E s] by (auto simp: client_ok_def)
  let ?k = "k\<lparr>c_devices := ds, c_state := CLIENT_PENDING_DISABLE\<rparr>"
  define t where "t = s1\<lparr>client_heap := (client_heap s1)(c \<mapsto> ?k)\<rparr>"
  from call ds k True obtain r1 where send: "client_send_event E SERVER_DISABLE_SEAT c t = Some (r1, s')"
      and r: "r = (if r1 = - 1 then - 1 else 0)" and "c_seat k \<noteq> None"
    by (auto simp: seat_disable_client_def t_def client_send_disable_seat_def os_frame_sys [OF f] bind_eq_Some_conv
        split: if_splits)
  then have ok': "client_ok ?k" using ok devices_ok_same [OF _ ds(2)] by (auto simp: client_ok_def)
  have k1: "client_heap s1 c = Some k" using k by (simp add: os_frame_sys [OF f])
  have gt: "graph L t"
    unfolding t_def by (rule graph_upd_client [OF _ k1])
      (use g ok' True in \<open>auto simp: graph_os_frame [OF f] cview_def active_state_def\<close>)
  have wt: "within {c} {} s t"
    unfolding t_def by (rule within_trans [OF within_os_frame [OF f] within_upd_client [OF k1]]) (auto simp: client_id_def)
  have tc: "client_heap t c = Some ?k" by (simp add: t_def)
  have step: "conn_step c t s'"
    using client_send_event_step [OF E tc _ send] ok' by (simp add: client_ok_def)
  then show ?thesis
    using True conn_step_graph [OF gt step] within_trans [OF wt conn_step_within [OF step, of "{c}"]]
      conn_step_client [OF step tc] ds(2) r by auto
qed

lemma seat_ack_disable_client_ok:
  assumes g: "graph L s" and E: "send_progress E" and k: "client_heap s c = Some k" "c \<notin> L" "c_seat k = Some st"
    and x: "seat_heap s st = Some x"
    and call: "seat_ack_disable_client E c s = Some (r, s')"
  shows "graph L s' \<and> within (set (s_clients x)) {st} s s' \<and> (r = 0 \<or> r = - 1)"
proof (cases "c_state k = CLIENT_PENDING_DISABLE")
  case False
  with call k have "s' = s\<lparr>errno := EBUSY\<rparr>" "r = - 1" by (auto simp: seat_ack_disable_client_def)
  with g show ?thesis by simp
next
  case True
  have mem: "c \<in> set (s_clients x)" using graph_client_seat [OF g k(1,3,2)] x by auto
  have act: "active_client x = Some c" using graph_member [OF g x mem] k True by (auto simp: active_state_def)
  let ?k = "k\<lparr>c_state := CLIENT_DISABLED\<rparr>"
  define t where "t = s\<lparr>client_heap := (client_heap s)(c \<mapsto> ?k), seat_heap := (seat_heap s)(st \<mapsto> x\<lparr>active_client := None\<rparr>)\<rparr>"
  have "client_ok ?k" using graph_client_ok [OF g k(1,2)] k(3) by (auto simp: client_ok_def)
  then have gt: "graph L t \<and> within {c} {st} s t"
    unfolding t_def by (intro graph_update_both [OF g k(1) x mem]) (auto simp: act active_state_def client_id_def)
  from call k x True act obtain r1 where "seat_activate E st t = Some (r1, s')" "r = 0"
    by (auto simp: seat_ack_disable_client_def bind_eq_Some_conv t_def)
  with seat_activate_ok [OF _ E, of L t st "x\<lparr>active_client := None\<rparr>"] gt
  have "graph L s' \<and> within (set (s_clients x)) {st} t s'" by (auto simp: t_def)
  then show ?thesis
    using gt within_mono [of "{c}" "{st}" s t "set (s_clients x)" "{st}"] mem \<open>r = 0\<close> by (auto intro: within_trans)
qed

section \<open>Switching sessions and terminals\<close>

lemma seat_set_next_session_ok:
  assumes g: "graph L s" and E: "send_progress E" and k: "client_heap s c = Some k" "c \<notin> L" "c_seat k = Some st"
    and x: "seat_heap s st = Some x"
    and call: "seat_set_next_session E c n s = Some (r, s')"
  shows "graph L s' \<and> within {c} {st} s s' \<and> (r = 0 \<or> r = - 1)"
proof -
  from call k x consider "os_frame s s'" "r = 0 \<or> r = - 1"
    | t r1 where "next_client x = None" "find_client (\<lambda>k. c_session k = n) (s_clients x) s = Some (Some t)"
      "seat_disable_client E c (s\<lparr>seat_heap := (seat_heap s)(st \<mapsto> x\<lparr>next_client := Some t\<rparr>)\<rparr>) = Some (r1, s')" "r = 0"
    by (auto simp: seat_set_next_session_def bind_eq_Some_conv split: if_splits option.splits
        dest: vt_switch_frame)
  then show ?thesis
  proof cases
    case 1
    then show ?thesis using g by (auto simp: graph_os_frame within_os_frame)
  next
    case 2
    let ?t = "s\<lparr>seat_heap := (seat_heap s)(st \<mapsto> x\<lparr>next_client := Some t\<rparr>)\<rparr>"
    have "t \<in> set (s_clients x)" using find_client_Some [OF 2(2)] by simp
    then have gt: "graph L ?t" by (intro graph_upd_seat [OF g x]) auto
    have wt: "within {c} {st} s ?t" by (rule within_upd_seat [OF x]) (auto simp: seat_id_def)
    from seat_disable_client_ok [OF gt E _ k(2) 2(3)] k(1)
    have "graph L s' \<and> within {c} {} ?t s'" by auto
    with wt within_mono [of "{c}" "{}" ?t s' "{c}" "{st}"] 2(4) show ?thesis by (auto intro: within_trans)
  qed
qed

lemma seat_update_vt_ok:
  assumes g: "graph L s" and x: "seat_heap s st = Some x" and call: "seat_update_vt E st s = Some s'"
  shows "graph L s' \<and> within {} {st} s s' \<and> (\<exists>vt. seat_heap s' st = Some (x\<lparr>cur_vt := vt\<rparr>))"
  using seat_update_vt_frame [OF call]
proof (elim disjE exE conjE)
  assume "os_frame s s'"
  moreover have "x = x\<lparr>cur_vt := cur_vt x\<rparr>" by simp
  ultimately show ?thesis using g x by (metis graph_os_frame within_os_frame os_frame_sys(6))
next
  fix y vt s1 assume f: "os_frame s s1" and y: "seat_heap s st = Some y"
    and s': "s' = s1\<lparr>seat_heap := (seat_heap s)(st \<mapsto> y\<lparr>cur_vt := vt\<rparr>)\<rparr>"
  have x1: "seat_heap s1 st = Some x" and s1: "s' = s1\<lparr>seat_heap := (seat_heap s1)(st \<mapsto> x\<lparr>cur_vt := vt\<rparr>)\<rparr>"
    using x y s' by (auto simp: os_frame_sys [OF f])
  have gt: "graph L s'" unfolding s1
    by (rule graph_upd_seat [OF _ x1])
      (use g graph_seat_ok [OF g x] in \<open>auto simp: graph_os_frame [OF f] seat_ok_def\<close>)
  have "within {} {st} s1 s'" unfolding s1 by (rule within_upd_seat [OF x1]) (auto simp: seat_id_def)
  with gt within_os_frame [OF f] s1 show ?thesis by (auto intro: within_trans)
qed

lemma seat_vt_activate_ok:
  assumes g: "graph L s" and E: "send_progress E" and x: "seat_heap s st = Some x"
    and call: "seat_vt_activate E st s = Some (r, s')"
  shows "graph L s' \<and> within (set (s_clients x)) {st} s s'"
proof (cases "vt_bound x")
  case True
  with call x obtain s1 r2 s2 y where 1: "seat_update_vt E st s = Some s1" and 2: "vt_ack E st False s1 = Some (r2, s2)"
    and y: "seat_heap s2 st = Some y"
    and 3: "s' = s2 \<or> (\<exists>r3. seat_activate E st s2 = Some (r3, s'))"
    by (auto simp: seat_vt_activate_def bind_eq_Some_conv split: if_splits)
  note u = seat_update_vt_ok [OF g x 1]
  have f: "os_frame s1 s2" by (rule vt_ack_frame [OF 2])
  have g2: "graph L s2" using u graph_os_frame [OF f] by simp
  have w2: "within (set (s_clients x)) {st} s s2"
    using u within_mono [of "{}" "{st}" s s1 "set (s_clients x)" "{st}"] within_os_frame [OF f] by (auto intro: within_trans)
  have "s_clients y = s_clients x" using within_seat [OF w2 x] y by auto
  with 3 seat_activate_ok [OF g2 E y] g2 w2 show ?thesis by (auto intro: within_trans)
qed (use call x g in \<open>auto simp: seat_vt_activate_def\<close>)

lemma seat_vt_release_ok:
  assumes g: "graph L s" and E: "send_progress E" and x: "seat_heap s st = Some x"
    and call: "seat_vt_release E st s = Some (r, s')"
  shows "graph L s' \<and> within (set (s_clients x)) {st} s s'"
proof (cases "vt_bound x")
  case True
  with call x obtain s1 y s2 r3 s3 z where 1: "seat_update_vt E st s = Some s1" and y: "seat_heap s1 st = Some y"
    and 2: "(case active_client y of None \<Rightarrow> Some s1
             | Some c \<Rightarrow> do { (_, s) \<leftarrow> seat_disable_client E c s1; Some s }) = Some s2"
    and 3: "vt_ack E st True s2 = Some (r3, s3)" and z: "seat_heap s3 st = Some z"
    and s': "s' = s3\<lparr>seat_heap := (seat_heap s3)(st \<mapsto> z\<lparr>cur_vt := - 1\<rparr>)\<rparr>"
    by (auto simp: seat_vt_release_def bind_eq_Some_conv)
  note u = seat_update_vt_ok [OF g x 1]
  let ?A = "set (s_clients x)"
  have yx: "s_clients y = s_clients x" "active_client y = active_client x" using u y by auto
  have w1: "within ?A {st} s s1" using u within_mono [of "{}" "{st}" s s1] by auto
  have "graph L s2 \<and> within ?A {st} s1 s2"
  proof (cases "active_client y")
    case None
    with 2 u show ?thesis by auto
  next
    case (Some c)
    then have c: "c \<in> ?A" using graph_seat_ok [of L s1 st y] u y yx by (auto simp: seat_ok_def)
    then obtain k where k: "client_heap s1 c = Some k" "c \<notin> L" using graph_member [of L s1 st y c] u y yx by auto
    from 2 Some obtain r2 where "seat_disable_client E c s1 = Some (r2, s2)" by (auto simp: bind_eq_Some_conv)
    from seat_disable_client_ok [OF _ E k this] u c within_mono [of "{c}" "{}" s1 s2 ?A "{st}"] show ?thesis by auto
  qed
  moreover have f: "os_frame s2 s3" by (rule vt_ack_frame [OF 3])
  ultimately have g3: "graph L s3" and w3: "within ?A {st} s s3"
    using graph_os_frame [OF f] within_os_frame [OF f] w1 by (auto intro: within_trans)
  have "graph L s'" unfolding s'
    by (rule graph_upd_seat [OF g3 z]) (use graph_seat_ok [OF g3 z] in \<open>auto simp: seat_ok_def\<close>)
  moreover have "within ?A {st} s3 s'" unfolding s' by (rule within_upd_seat [OF z]) (auto simp: seat_id_def)
  ultimately show ?thesis using w3 by (auto intro: within_trans)
qed (use call x g in \<open>auto simp: seat_vt_release_def\<close>)

text \<open>A fixed order for updates of different fields.\<close>

lemma sys_upd_commute:
  "s\<lparr>seat_heap := S, client_heap := H\<rparr> = s\<lparr>client_heap := H, seat_heap := S\<rparr>"
  "s\<lparr>idle_clients := I, client_heap := H\<rparr> = s\<lparr>client_heap := H, idle_clients := I\<rparr>"
  "s\<lparr>seat_heap := S, idle_clients := I\<rparr> = s\<lparr>idle_clients := I, seat_heap := S\<rparr>"
  by simp_all

section \<open>Joining a seat\<close>

text \<open>The last part of \<open>seat_add_client\<close>, from a state in which the client is idle.\<close>

lemma join_ok:
  assumes g: "graph {} s" and k: "client_heap s c = Some k" "c_seat k = None" "c_session k = - 1"
    and x: "seat_heap s st = Some x"
    and n: "n \<noteq> - 1" "if vt_bound x then m = session_cnt x else n = session_cnt x \<and> m = n + 1 \<and> n < INT_MAX"
  defines "s' \<equiv> s\<lparr>client_heap := (client_heap s)(c \<mapsto> k\<lparr>c_session := n, c_seat := Some st\<rparr>),
      idle_clients := removeAll c (idle_clients s),
      seat_heap := (seat_heap s)(st \<mapsto> x\<lparr>session_cnt := m, s_clients := c # s_clients x\<rparr>)\<rparr>"
  shows "graph {} s'" and "sys_frame s s'"
proof -
  let ?k = "k\<lparr>c_session := n, c_seat := Some st\<rparr>"
  have ok: "client_ok k" using graph_client_ok [OF g k(1)] by simp
  then have new: "c_state k = CLIENT_NEW" "client_ok ?k" using k n(1) by (auto simp: client_ok_def)
  have "c \<in> set (idle_clients s)"
    using g k(1,2) unfolding graph_def shape_ok_def by (metis (no_types, lifting) cview_def empty_iff view_Some)
  then have "graph {c} (s\<lparr>idle_clients := removeAll c (idle_clients s)\<rparr>)" by (rule graph_unsettle_idle [OF g])
  then have "graph {c} (s\<lparr>idle_clients := removeAll c (idle_clients s), client_heap := (client_heap s)(c \<mapsto> ?k)\<rparr>)"
    using graph_loose_upd [of "{c}" "s\<lparr>idle_clients := removeAll c (idle_clients s)\<rparr>" c ?k] by simp
  from graph_join [OF this, of ?k st x "x\<lparr>session_cnt := m, s_clients := c # s_clients x\<rparr>"] x new n(2)
  show "graph {} s'" by (simp add: s'_def active_state_def sys_upd_commute split: if_splits)
  show "sys_frame s s'" using k(1) x by (simp add: s'_def sys_frame_def client_id_def seat_id_def)
qed

lemma idle_not_member:
  assumes "graph {} s" and "client_heap s c = Some k" and "c_seat k = None"
  shows "c \<in> set (idle_clients s)" and "\<forall>st. c \<notin> members (seat_heap s) st"
proof -
  show "c \<in> set (idle_clients s)"
    using assms unfolding graph_def shape_ok_def by (metis (no_types, lifting) cview_def empty_iff view_Some)
  then show "\<forall>st. c \<notin> members (seat_heap s) st" using members_idle [OF assms(1)] by blast
qed

text \<open>What \<open>assign_session\<close> and \<open>link_client\<close> do to a client that may join.\<close>

lemma link_client_eq:
  assumes "\<forall>st. c \<notin> members (seat_heap t) st" and "seat_heap t st = Some y"
  shows "link_client st c (t\<lparr>client_heap := (client_heap t)(c \<mapsto> k\<lparr>c_session := n\<rparr>),
      seat_heap := (seat_heap t)(st \<mapsto> y\<lparr>session_cnt := m\<rparr>)\<rparr>)
    = Some (t\<lparr>client_heap := (client_heap t)(c \<mapsto> k\<lparr>c_session := n, c_seat := Some st\<rparr>),
      idle_clients := removeAll c (idle_clients t),
      seat_heap := (seat_heap t)(st \<mapsto> y\<lparr>session_cnt := m, s_clients := c # s_clients y\<rparr>)\<rparr>)"
proof -
  let ?t = "t\<lparr>client_heap := (client_heap t)(c \<mapsto> k\<lparr>c_session := n, c_seat := Some st\<rparr>),
    seat_heap := (seat_heap t)(st \<mapsto> y\<lparr>session_cnt := m\<rparr>)\<rparr>"
  have "unlink_client c ?t = ?t\<lparr>idle_clients := removeAll c (idle_clients t)\<rparr>"
    using unlink_not_member [of c ?t] assms members_upd_same [of "seat_heap t" st y "y\<lparr>session_cnt := m\<rparr>"] by simp
  then show ?thesis using assms(2) by (simp add: link_client_def upd_client_def upd_seat_def sys_upd_commute)
qed

lemma assign_session_cases:
  assumes g: "graph {} s" and k: "client_heap s c = Some k" and x: "seat_heap s st = Some x"
    and call: "assign_session E st c s = Some (r, s')"
  obtains "r = - 1" "graph {} s'" "within {} {st} s s'"
  | t y n m where "r = 0" "graph {} t" "within {} {st} s t" "seat_heap t st = Some y" "s_clients y = s_clients x"
      "s' = t\<lparr>client_heap := (client_heap t)(c \<mapsto> k\<lparr>c_session := n\<rparr>), seat_heap := (seat_heap t)(st \<mapsto> y\<lparr>session_cnt := m\<rparr>)\<rparr>"
      "n \<noteq> - 1" "if vt_bound y then m = session_cnt y \<and> n = cur_vt y else n = session_cnt y \<and> m = n + 1 \<and> n < INT_MAX"
proof (cases "vt_bound x")
  case True
  with call x obtain t y found where 1: "seat_update_vt E st s = Some t" and y: "seat_heap t st = Some y"
    and 2: "r = - 1 \<and> (\<exists>e. s' = t\<lparr>errno := e\<rparr>) \<or> cur_vt y \<noteq> - 1 \<and> r = 0
      \<and> (\<exists>k. client_heap t c = Some k \<and> s' = t\<lparr>client_heap := (client_heap t)(c \<mapsto> k\<lparr>c_session := cur_vt y\<rparr>)\<rparr>)"
    by (auto simp: assign_session_def bind_eq_Some_conv split: if_splits)
  note u = seat_update_vt_ok [OF g x 1]
  then obtain vt where y': "y = x\<lparr>cur_vt := vt\<rparr>" using y by auto
  have kt: "client_heap t c = Some k" using u k by (auto simp: within_def)
  from 2 show thesis
  proof (elim disjE conjE exE)
    fix e assume "r = - 1" "s' = t\<lparr>errno := e\<rparr>"
    with u show thesis using that(1) within_trans [of "{}" "{st}" s t s'] by simp
  next
    fix k' assume "client_heap t c = Some k'" "cur_vt y \<noteq> - 1" "r = 0"
      "s' = t\<lparr>client_heap := (client_heap t)(c \<mapsto> k'\<lparr>c_session := cur_vt y\<rparr>)\<rparr>"
    moreover have "(seat_heap t)(st \<mapsto> y\<lparr>session_cnt := session_cnt y\<rparr>) = seat_heap t" using y by auto
    ultimately show thesis
      by (intro that(2) [of t y "session_cnt y" "cur_vt y"]) (use u y y' kt True in auto)
  qed
next
  case False
  with call x k have "r = 0" "session_cnt x < INT_MAX"
    "s' = s\<lparr>client_heap := (client_heap s)(c \<mapsto> k\<lparr>c_session := session_cnt x\<rparr>),
       seat_heap := (seat_heap s)(st \<mapsto> x\<lparr>session_cnt := session_cnt x + 1\<rparr>)\<rparr>"
    by (auto simp: assign_session_def bind_eq_Some_conv)
  then show thesis
    by (intro that(2) [of s x "session_cnt x + 1" "session_cnt x"])
      (use False g x graph_seat_ok [OF g x] in \<open>auto simp: seat_ok_def\<close>)
qed

lemma seat_add_client_ok:
  assumes g: "graph {} s" and k: "client_heap s c = Some k" and x: "seat_heap s st = Some x"
    and call: "seat_add_client E st c s = Some (r, s')"
  shows "graph {} s' \<and> sys_frame s s'
    \<and> (r = 0 \<and> c_seat k = None \<and> c_session k = - 1
         \<and> (\<exists>n. client_heap s' c = Some (k\<lparr>c_session := n, c_seat := Some st\<rparr>))
         \<and> (\<exists>x'. seat_heap s' st = Some x' \<and> s_clients x' = c # s_clients x)
       \<or> r = - 1 \<and> client_heap s' = client_heap s)"
proof -
  from call k x consider e where "s' = s\<lparr>errno := e\<rparr>" "r = - 1"
    | r1 s1 where "c_seat k = None" "c_session k = - 1" "assign_session E st c s = Some (r1, s1)"
      "(if r1 = - 1 then Some (- 1, s1) else do { s \<leftarrow> link_client st c s1; Some (0, s) }) = Some (r, s')"
    by (auto simp: seat_add_client_def bind_eq_Some_conv split: if_splits)
  then show ?thesis
  proof cases
    case 1
    then show ?thesis using g within_errno [of _ _ s e] by (auto simp: within_def)
  next
    case 2
    show ?thesis
    proof (rule assign_session_cases [OF g k x 2(3)])
      assume "r1 = - 1" "graph {} s1" "within {} {st} s s1"
      with 2(4) show ?thesis by (auto simp: within_def)
    next
      fix t y n m assume r1: "r1 = 0" and t: "graph {} t" "within {} {st} s t" "seat_heap t st = Some y"
          "s_clients y = s_clients x"
        and s1: "s1 = t\<lparr>client_heap := (client_heap t)(c \<mapsto> k\<lparr>c_session := n\<rparr>), seat_heap := (seat_heap t)(st \<mapsto> y\<lparr>session_cnt := m\<rparr>)\<rparr>"
        and n: "n \<noteq> - 1" "if vt_bound y then m = session_cnt y \<and> n = cur_vt y else n = session_cnt y \<and> m = n + 1 \<and> n < INT_MAX"
      have kt: "client_heap t c = Some k" using t(2) k by (auto simp: within_def)
      let ?u = "t\<lparr>client_heap := (client_heap t)(c \<mapsto> k\<lparr>c_session := n, c_seat := Some st\<rparr>),
          idle_clients := removeAll c (idle_clients t),
          seat_heap := (seat_heap t)(st \<mapsto> y\<lparr>session_cnt := m, s_clients := c # s_clients y\<rparr>)\<rparr>"
      have "s' = ?u" "r = 0"
        using 2(4) r1 s1 link_client_eq [OF idle_not_member(2) [OF t(1) kt 2(1)] t(3), where k = k and n = n and m = m] by auto
      moreover have "graph {} ?u" "sys_frame t ?u"
        using join_ok [OF t(1) kt 2(1,2) t(3) n(1), where m = m] n(2) by (auto split: if_splits)
      ultimately show ?thesis using 2(1,2) t(2,4) by (auto simp: within_def intro: sys_frame_trans)
    qed
  qed
qed

section \<open>Leaving a seat\<close>

lemma os_frame_seat_heap: "os_frame (s\<lparr>seat_heap := S\<rparr>) t \<Longrightarrow> \<exists>u. os_frame s u \<and> t = u\<lparr>seat_heap := S\<rparr>"
proof -
  assume f: "os_frame (s\<lparr>seat_heap := S\<rparr>) t"
  then have "t = (t\<lparr>seat_heap := seat_heap s\<rparr>)\<lparr>seat_heap := S\<rparr>" "os_frame s (t\<lparr>seat_heap := seat_heap s\<rparr>)"
    by (cases s; cases t; simp add: os_frame_def)+
  then show ?thesis by blast
qed

text \<open>The part of \<open>seat_remove_client\<close> before another client is activated.\<close>

lemma remove_first_part:
  assumes g: "graph {} s" and k: "client_heap s c = Some k" "c_seat k = Some st" and x: "seat_heap s st = Some x"
    and mem: "c \<in> set (s_clients x)"
  defines "x1 \<equiv> (if next_client x = Some c then x\<lparr>next_client := None\<rparr> else x)\<lparr>s_clients := removeAll c (s_clients x)\<rparr>"
  shows "\<exists>t. close_devices E c (unlink_client c (s\<lparr>seat_heap := (seat_heap s)(st \<mapsto>
      if next_client x = Some c then x\<lparr>next_client := None\<rparr> else x)\<rparr>))
    = Some (t\<lparr>client_heap := (client_heap s)(c \<mapsto> k\<lparr>c_devices := []\<rparr>), seat_heap := (seat_heap s)(st \<mapsto> x1)\<rparr>) \<and> os_frame s t"
proof -
  let ?x = "if next_client x = Some c then x\<lparr>next_client := None\<rparr> else x"
  let ?s = "s\<lparr>seat_heap := (seat_heap s)(st \<mapsto> ?x)\<rparr>"
  have "graph {} ?s"
    by (rule graph_upd_seat [OF g x]) (use graph_seat_ok [OF g x] in \<open>auto simp: seat_ok_def\<close>)
  then have un: "unlink_client c ?s = s\<lparr>seat_heap := (seat_heap s)(st \<mapsto> x1)\<rparr>"
    using unlink_member [of "{}" ?s st ?x c] mem by (simp add: x1_def)
  have "devices_ok (c_devices k)" using graph_client_ok [OF g k(1)] by (simp add: client_ok_def)
  then obtain u where u: "close_devices E c (s\<lparr>seat_heap := (seat_heap s)(st \<mapsto> x1)\<rparr>)
      = Some (u\<lparr>client_heap := (client_heap s)(c \<mapsto> k\<lparr>c_devices := []\<rparr>)\<rparr>)" "os_frame (s\<lparr>seat_heap := (seat_heap s)(st \<mapsto> x1)\<rparr>) u"
    using close_devices_ok [of "s\<lparr>seat_heap := (seat_heap s)(st \<mapsto> x1)\<rparr>" c k st x1 E] k by auto
  from os_frame_seat_heap [OF u(2)] obtain v where "os_frame s v" "u = v\<lparr>seat_heap := (seat_heap s)(st \<mapsto> x1)\<rparr>" by blast
  with u(1) un x show ?thesis
    by (intro exI [where x = v]) (simp add: sys_upd_commute)
qed

lemma graph_removed:
  assumes g: "graph {} s" and x: "seat_heap s st = Some x" and mem: "c \<in> set (s_clients x)" and f: "os_frame s t"
    and x': "s_clients x' = removeAll c (s_clients x)"
      "active_client x' = (if active_client x = Some c then None else active_client x)"
      "next_client x' = (if next_client x = Some c then None else next_client x)"
      "vt_bound x' = vt_bound x" "session_cnt x' = session_cnt x"
  shows "graph {c} (t\<lparr>client_heap := (client_heap s)(c \<mapsto> k'), seat_heap := (seat_heap s)(st \<mapsto> x')\<rparr>)"
proof -
  have "graph {c} (t\<lparr>seat_heap := (seat_heap t)(st \<mapsto> x')\<rparr>)"
    by (rule graph_leave [of t st x]) (use g x mem x' in \<open>auto simp: graph_os_frame [OF f] os_frame_sys [OF f]\<close>)
  from graph_loose_upd [OF this, of c k'] show ?thesis by (simp add: sys_upd_commute os_frame_sys [OF f])
qed

lemma reset_vt_frame: "reset_vt E st c b s = Some s' \<Longrightarrow> os_frame s s'"
  by (auto simp: reset_vt_def bind_eq_Some_conv split: if_splits dest: vt_close_frame)

lemma hand_over_ok:
  assumes g: "graph {c} (s\<lparr>seat_heap := (seat_heap s)(st \<mapsto> x\<lparr>active_client :=
      if active_client x = Some c then None else active_client x\<rparr>)\<rparr>)" and E: "send_progress E"
    and x: "seat_heap s st = Some x" "c \<notin> set (s_clients x)"
    and call: "hand_over E st c s = Some (b, s')"
  shows "graph {c} s' \<and> sys_frame s s' \<and> idle_clients s' = idle_clients s \<and> client_heap s' c = client_heap s c
    \<and> (\<exists>a n. seat_heap s' st = Some (x\<lparr>next_client := n, active_client := a\<rparr>)) \<and> vt_view s' = vt_view s"
proof (cases "active_client x = Some c")
  case True
  let ?x = "x\<lparr>active_client := None\<rparr>" and ?t = "s\<lparr>seat_heap := (seat_heap s)(st \<mapsto> x\<lparr>active_client := None\<rparr>)\<rparr>"
  from call x True obtain r where "seat_activate E st ?t = Some (r, s')"
    by (auto simp: hand_over_def bind_eq_Some_conv)
  moreover have "graph {c} ?t" using g True by simp
  ultimately have "graph {c} s'" "within (set (s_clients x)) {st} ?t s'"
      "\<exists>a n. seat_heap s' st = Some (x\<lparr>next_client := n, active_client := a\<rparr>)" "vt_view s' = vt_view ?t"
    using seat_activate_ok [OF _ E, of "{c}" ?t st ?x r s'] by auto
  then show ?thesis
    using x sys_frame_upd_seat [OF x(1), of ?x] vt_view_upd_seat [OF x(1), of ?x] by (auto simp: within_def seat_id_def intro: sys_frame_trans)
next
  case False
  then have "x\<lparr>active_client := if active_client x = Some c then None else active_client x\<rparr> = x" by simp
  then have "s\<lparr>seat_heap := (seat_heap s)(st \<mapsto> x\<lparr>active_client := if active_client x = Some c then None else active_client x\<rparr>)\<rparr> = s"
    using x(1) by (simp add: fun_upd_idem)
  moreover have "\<exists>a n. seat_heap s st = Some (x\<lparr>next_client := n, active_client := a\<rparr>)"
    using x by (intro exI [of _ "active_client x"] exI [of _ "next_client x"]) simp
  ultimately show ?thesis using g call x False by (auto simp: hand_over_def)
qed

lemma seat_remove_client_ok:
  assumes g: "graph {} s" and E: "send_progress E" and k: "client_heap s c = Some k" "c_seat k = Some st"
    and call: "seat_remove_client E c s = Some s'"
  shows "graph {c} s' \<and> sys_frame s s' \<and> idle_clients s' = idle_clients s
    \<and> client_heap s' c = Some (k\<lparr>c_devices := [], c_state := CLIENT_CLOSED, c_seat := None\<rparr>)
    \<and> vt_view s' = (fst (vt_view s), (snd (vt_view s))(c \<mapsto> (None, c_session k)))"
proof -
  obtain x where x: "seat_heap s st = Some x" and mem: "c \<in> set (s_clients x)"
    using graph_client_seat [OF g k] by auto
  let ?k = "k\<lparr>c_devices := []\<rparr>"
  define x1 where "x1 = (if next_client x = Some c then x\<lparr>next_client := None\<rparr> else x)\<lparr>s_clients := removeAll c (s_clients x)\<rparr>"
  obtain t where first: "close_devices E c (unlink_client c (s\<lparr>seat_heap := (seat_heap s)(st \<mapsto>
      if next_client x = Some c then x\<lparr>next_client := None\<rparr> else x)\<rparr>))
    = Some (t\<lparr>client_heap := (client_heap s)(c \<mapsto> ?k), seat_heap := (seat_heap s)(st \<mapsto> x1)\<rparr>)" and f: "os_frame s t"
    using remove_first_part [OF g k x mem, of E] unfolding x1_def by auto
  define s3 where "s3 = t\<lparr>client_heap := (client_heap s)(c \<mapsto> ?k), seat_heap := (seat_heap s)(st \<mapsto> x1)\<rparr>"
  from call k x first obtain b s5 s6 where 5: "hand_over E st c s3 = Some (b, s5)"
    and 6: "reset_vt E st c b s5 = Some s6"
    and s': "upd_client c (\<lambda>k. k\<lparr>c_state := CLIENT_CLOSED, c_seat := None\<rparr>) s6 = Some s'"
    by (auto simp: seat_remove_client_def upd_seat_def bind_eq_Some_conv s3_def)
  have x1: "active_client x1 = active_client x" "s_clients x1 = removeAll c (s_clients x)"
      "next_client x1 = (if next_client x = Some c then None else next_client x)" "vt_bound x1 = vt_bound x"
      "session_cnt x1 = session_cnt x" by (auto simp: x1_def)
  have "graph {c} (s3\<lparr>seat_heap := (seat_heap s3)(st \<mapsto> x1\<lparr>active_client :=
      if active_client x1 = Some c then None else active_client x1\<rparr>)\<rparr>)"
    using graph_removed [OF g x mem f, of "x1\<lparr>active_client := if active_client x1 = Some c then None else active_client x1\<rparr>" ?k]
    by (simp add: s3_def x1 cong: if_cong)
  from hand_over_ok [OF this E _ _ 5]
  have h: "graph {c} s5 \<and> sys_frame s3 s5 \<and> idle_clients s5 = idle_clients s3 \<and> client_heap s5 c = client_heap s3 c \<and> vt_view s5 = vt_view s3"
    by (simp add: s3_def x1)
  note f6 = reset_vt_frame [OF 6]
  have fr: "sys_frame s s3"
    using os_frame_sys_frame [OF f] x k by (simp add: s3_def sys_frame_def client_id_def seat_id_def x1_def)
  have "vt_view s3 = vt_view s" using k x by (auto simp: s3_def vt_view_def x1_def)
  then have v6: "vt_view s6 = vt_view s" using h vt_view_os_frame [OF f6] by simp
  have k6: "client_heap s6 c = Some ?k" using h by (simp add: os_frame_sys [OF f6] s3_def)
  with s' have s'_eq: "s' = s6\<lparr>client_heap := (client_heap s6)(c \<mapsto> ?k\<lparr>c_state := CLIENT_CLOSED, c_seat := None\<rparr>)\<rparr>" by simp
  have "graph {c} s'" unfolding s'_eq using h graph_os_frame [OF f6] by (intro graph_loose_upd) auto
  moreover have "sys_frame s6 s'" unfolding s'_eq by (rule sys_frame_upd_client [OF k6]) (simp add: client_id_def)
  then have "sys_frame s s'" using fr h os_frame_sys_frame [OF f6] by (meson sys_frame_trans)
  moreover have "vt_view s' = (fst (vt_view s), (snd (vt_view s))(c \<mapsto> (None, c_session k)))"
    unfolding s'_eq v6 [symmetric] by (auto simp: vt_view_def)
  ultimately show ?thesis using h s'_eq by (simp add: os_frame_sys [OF f6] os_frame_sys [OF f] s3_def)
qed

end
