(* ===== verification/Client_Inv.thy ===== *)
theory Client_Inv
  imports Seat_Inv
begin

unbundle bit_operations_syntax

text \<open>
  The requests of \<open>seatd/client.c\<close> keep the invariant of theory \<open>Graph\<close>, the sources of the
  poller stay in step with the clients, and the loop over the input buffer takes whole requests.
\<close>

section \<open>Handlers of requests\<close>

text \<open>
  The contract of a handler: it keeps the graph whole, leaves the identity of every client and
  seat alone, including the input that is still to be read, and answers 0 or -1.
\<close>

definition request_ok :: "sys \<Rightarrow> int \<times> sys \<Rightarrow> bool" where
  "request_ok s res \<longleftrightarrow> graph {} (snd res) \<and> sys_frame s (snd res) \<and> (fst res = 0 \<or> fst res = - 1)"

lemma request_ok_fail: "graph {} s \<Longrightarrow> request_ok s (- 1, s)"
  by (simp add: request_ok_def)

lemma request_ok_trans:
  "sys_frame s t \<Longrightarrow> request_ok t res \<Longrightarrow> request_ok s res"
  by (auto simp: request_ok_def intro: sys_frame_trans)

lemma within_sys_frame: "within A T s s' \<Longrightarrow> sys_frame s s'"
  by (simp add: within_def)

lemma client_put_all_request:
  assumes g: "graph {} s" and E: "send_progress E" and k: "client_heap s c = Some k"
    and call: "client_put_all E c bss s = Some res"
  shows "request_ok s res"
proof -
  obtain r s' where res: "res = (r, s')" by force
  have "conn_ok (connection k)" using graph_client_ok [OF g k] by (simp add: client_ok_def)
  from client_put_all_step [OF E k this call [unfolded res]] have "conn_step c s s'" "r = 0 \<or> r = - 1" by auto
  then show ?thesis
    using conn_step_graph [OF g] conn_step_within [of c s s' UNIV UNIV] by (simp add: request_ok_def res within_def)
qed

lemma reply_request:
  assumes "sys_frame s t" and "graph {} t" and "send_progress E" and "client_heap s c = Some k"
    and "client_put_all E c bss t = Some res"
  shows "request_ok s res"
proof -
  from sys_frame_client [OF assms(1,4)] obtain k' where "client_heap t c = Some k'" by auto
  from client_put_all_request [OF assms(2,3) this assms(5)] show ?thesis
    by (rule request_ok_trans [OF assms(1)])
qed

lemmas send_error_request = reply_request [where bss = "[header_bytes SERVER_ERROR 4, encode_int_msg _]",
  folded client_send_error_def]

lemmas reply_header_request = reply_request [where bss = "[header_bytes _ 0]", folded reply_header_def]

locale request =
  fixes E :: env and f :: "nat \<Rightarrow> sys \<Rightarrow> (int \<times> sys) option"
  assumes keeps: "graph {} s \<Longrightarrow> send_progress E \<Longrightarrow> client_heap s c = Some k \<Longrightarrow>
    f c s = Some res \<Longrightarrow> request_ok s res"
begin

lemma empty_msg_keeps:
  assumes "graph {} s" and "send_progress E" and "client_heap s c = Some k" and "handle_empty_msg f c len s = Some res"
  shows "request_ok s res"
  using assms keeps request_ok_fail by (auto simp: handle_empty_msg_def split: if_splits)

end

lemma find_seat_Some:
  assumes "find_seat name sts s = Some (Some st)"
  shows "st \<in> set sts \<and> (\<exists>x. seat_heap s st = Some x \<and> seat_name x = name)"
  using assms by (induction sts) (auto simp: bind_eq_Some_conv split: if_splits)

lemma find_seat_returns:
  assumes "graph L s"
  shows "\<exists>r. server_get_seat name s = Some r"
proof -
  have dom: "\<exists>x. seat_heap s st = Some x" if "st \<in> set (seats s)" for st
    using assms that by (auto simp: graph_def shape_ok_def)
  have "\<exists>r. find_seat name sts s = Some r" if "set sts \<subseteq> set (seats s)" for sts
    using that
  proof (induction sts)
    case (Cons st sts)
    then obtain x where "seat_heap s st = Some x" using dom by auto
    with Cons show ?case by auto
  qed simp
  then show ?thesis by (simp add: server_get_seat_def)
qed

lemma handle_open_seat_keeps:
  assumes g: "graph {} s" and E: "send_progress E" and k: "client_heap s c = Some k"
    and call: "handle_open_seat E c s = Some res"
  shows "request_ok s res"
proof -
  from call obtain found where found: "server_get_seat client_get_seat_name s = Some found"
    by (auto simp: handle_open_seat_def bind_eq_Some_conv)
  show ?thesis
  proof (cases found)
    case None
    with found call g show ?thesis by (auto simp: handle_open_seat_def request_ok_fail)
  next
    case (Some st)
    with found obtain x where x: "seat_heap s st = Some x"
      by (auto simp: server_get_seat_def dest: find_seat_Some)
    from call found Some obtain r s1 where add: "seat_add_client E st c s = Some (r, s1)"
      by (auto simp: handle_open_seat_def bind_eq_Some_conv)
    note add_ok = seat_add_client_ok [OF g k x add]
    show ?thesis
    proof (cases "r = - 1")
      case True
      with call found Some add add_ok show ?thesis by (auto simp: handle_open_seat_def request_ok_def)
    next
      case False
      with add_ok obtain n x1 where g1: "graph {} s1" "sys_frame s s1"
        and k1: "client_heap s1 c = Some (k\<lparr>c_session := n, c_seat := Some st\<rparr>)"
        and x1: "seat_heap s1 st = Some x1" "s_clients x1 = c # s_clients x" by auto
      let ?len = "length client_get_seat_name + 1"
      from call found Some add False obtain r2 s2 where
          put: "client_put_all E c [header_bytes SERVER_SEAT_OPENED (2 + ?len),
            encode_len_msg (of_nat ?len), string_bytes client_get_seat_name @ [0]] s1 = Some (r2, s2)"
        and rest: "(if r2 = - 1 then Some (- 1, s2) else do {
              (_, s) \<leftarrow> seat_open_client E st c s2; Some (0, s) }) = Some res"
        by (auto simp: handle_open_seat_def bind_eq_Some_conv Let_def simp del: client_put_all.simps)
      have ok1: "conn_ok (connection (k\<lparr>c_session := n, c_seat := Some st\<rparr>))"
        using graph_client_ok [OF g1(1) k1] by (simp add: client_ok_def)
      from client_put_all_step [OF E k1 ok1 put] have st2: "conn_step c s1 s2" "r2 = 0 \<or> r2 = - 1" by auto
      have g2: "graph {} s2" "within UNIV UNIV s1 s2"
        using conn_step_graph [OF g1(1) st2(1)] conn_step_within [OF st2(1)] by auto
      have f2: "sys_frame s s2" using g1(2) g2(2) by (auto simp: within_def intro: sys_frame_trans)
      obtain x2 where x2: "seat_heap s2 st = Some x2" "s_clients x2 = c # s_clients x"
        using within_seat [OF g2(2) x1(1)] x1(2) by auto
      show ?thesis
      proof (cases "r2 = - 1")
        case True
        with rest g2 f2 show ?thesis by (auto simp: request_ok_def)
      next
        case False
        with rest obtain r3 s3 where op: "seat_open_client E st c s2 = Some (r3, s3)" and res: "res = (0, s3)"
          by (auto simp: bind_eq_Some_conv)
        from seat_open_client_ok [OF g2(1) E x2(1) _ op] x2(2) f2 res show ?thesis
          by (auto simp: request_ok_def dest: within_sys_frame intro: sys_frame_trans)
      qed
    qed
  qed
qed

lemma handle_close_seat_keeps:
  assumes g: "graph {} s" and E: "send_progress E" and k: "client_heap s c = Some k"
    and call: "handle_close_seat E c s = Some res"
  shows "request_ok s res"
proof (cases "c_seat k")
  case None
  with call k g show ?thesis by (auto simp: handle_close_seat_def request_ok_fail)
next
  case (Some st)
  with call k obtain t where rm: "seat_remove_client E c s = Some t"
    and rep: "reply_header E c SERVER_SEAT_CLOSED (t\<lparr>idle_clients := c # idle_clients t\<rparr>) = Some res"
    by (auto simp: handle_close_seat_def bind_eq_Some_conv)
  note ok = seat_remove_client_ok [OF g E k Some rm]
  let ?k = "k\<lparr>c_devices := [], c_state := CLIENT_CLOSED, c_seat := None\<rparr>"
  have "client_ok k" "c_session k \<noteq> - 1" using graph_client_ok [OF g k] Some by (auto simp: client_ok_def)
  then have "client_ok ?k" by (simp add: client_ok_def devices_ok_def)
  then have "graph {} (t\<lparr>idle_clients := c # idle_clients t\<rparr>)"
    using ok by (intro graph_settle_idle [where k = ?k]) auto
  moreover have "sys_frame s (t\<lparr>idle_clients := c # idle_clients t\<rparr>)"
    using ok sys_frame_idle sys_frame_trans by blast
  ultimately show ?thesis using reply_header_request [OF _ _ E k rep] by blast
qed

lemma handle_ping_keeps:
  assumes "graph {} s" and "send_progress E" and "client_heap s c = Some k" and "handle_ping E c s = Some res"
  shows "request_ok s res"
  using reply_header_request [OF sys_frame_refl assms(1-3)] assms(4) by (simp add: handle_ping_def)

lemma handle_switch_session_keeps:
  assumes g: "graph {} s" and E: "send_progress E" and k: "client_heap s c = Some k"
    and call: "handle_switch_session E c n s = Some res"
  shows "request_ok s res"
proof (cases "c_seat k")
  case None
  with call k g show ?thesis by (auto simp: handle_switch_session_def request_ok_fail)
next
  case (Some st)
  with call k obtain r t where op: "seat_set_next_session E c n s = Some (r, t)"
    and rest: "(if r = - 1 then client_send_error E c (errno t) t
       else reply_header E c SERVER_SESSION_SWITCHED t) = Some res"
    by (auto simp: handle_switch_session_def bind_eq_Some_conv)
  obtain x where "seat_heap s st = Some x" using graph_client_seat [OF g k Some] by auto
  from seat_set_next_session_ok [OF g E k _ Some this op] have "graph {} t" "sys_frame s t"
    by (auto dest: within_sys_frame)
  with rest show ?thesis
    using send_error_request [OF _ _ E k] reply_header_request [OF _ _ E k] by (metis (no_types))
qed

lemma handle_disable_seat_keeps:
  assumes g: "graph {} s" and E: "send_progress E" and k: "client_heap s c = Some k"
    and call: "handle_disable_seat E c s = Some res"
  shows "request_ok s res"
proof (cases "c_seat k")
  case None
  with call k g show ?thesis by (auto simp: handle_disable_seat_def request_ok_fail)
next
  case (Some st)
  with call k obtain r t where op: "seat_ack_disable_client E c s = Some (r, t)"
    and rest: "(if r = - 1 then client_send_error E c (errno t) t
       else reply_header E c SERVER_SEAT_DISABLED t) = Some res"
    by (auto simp: handle_disable_seat_def bind_eq_Some_conv)
  obtain x where "seat_heap s st = Some x" using graph_client_seat [OF g k Some] by auto
  from seat_ack_disable_client_ok [OF g E k _ Some this op] have "graph {} t" "sys_frame s t"
    by (auto dest: within_sys_frame)
  with rest show ?thesis
    using send_error_request [OF _ _ E k] reply_header_request [OF _ _ E k] by (metis (no_types))
qed


lemma seat_find_device_cases:
  assumes "client_heap s c = Some k" and "c_seat k \<noteq> None" and "seat_find_device c n s = Some (r, s')"
  shows "case r of None \<Rightarrow> os_frame s s' | Some i \<Rightarrow> s' = s \<and> i < length (c_devices k) \<and> device_id (c_devices k ! i) = n"
  using assms by (auto simp: seat_find_device_def split: option.splits if_splits dest: find_index_Some)

lemma handle_close_device_keeps:
  assumes g: "graph {} s" and E: "send_progress E" and k: "client_heap s c = Some k"
    and call: "handle_close_device E c n s = Some res"
  shows "request_ok s res"
proof (cases "c_seat k = None")
  case True
  with call k g show ?thesis by (auto simp: handle_close_device_def request_ok_fail)
next
  case False
  with call k obtain dev t where find: "seat_find_device c n s = Some (dev, t)"
    and rest: "(case dev of None \<Rightarrow> (let s = t\<lparr>errno := EBADF\<rparr> in client_send_error E c (errno s) s)
        | Some i \<Rightarrow> do {
            (r, s) \<leftarrow> seat_close_device E c i t;
            if r = - 1 then client_send_error E c (errno s) s
            else reply_header E c SERVER_DEVICE_CLOSED s }) = Some res"
    by (auto simp: handle_close_device_def bind_eq_Some_conv)
  note found = seat_find_device_cases [OF k False find]
  show ?thesis
  proof (cases dev)
    case None
    with found have "os_frame s (t\<lparr>errno := EBADF\<rparr>)" by simp
    then have "sys_frame s (t\<lparr>errno := EBADF\<rparr>)" "graph {} (t\<lparr>errno := EBADF\<rparr>)"
      using g graph_os_frame os_frame_sys_frame by blast+
    with rest None show ?thesis using send_error_request [OF _ _ E k] by (simp add: Let_def)
  next
    case (Some i)
    with found have i: "i < length (c_devices k)" and t: "t = s" by auto
    from seat_close_device_graph [OF g k _ False i, of E] obtain s' where
        "seat_close_device E c i s = Some (0, s')" "graph {} s'" "sys_frame s s'" by (auto dest: within_sys_frame)
    with rest Some t show ?thesis using reply_header_request [OF _ _ E k] by simp
  qed
qed

lemma queue_fd_request:
  assumes g: "graph {} s" and E: "send_progress E" and k: "client_heap s c = Some k"
    and call: "do { (r, cn, s) \<leftarrow> connection_put_fd (connection k) fd s;
              s \<leftarrow> upd_client c (\<lambda>k. k\<lparr>connection := cn\<rparr>) s;
              if r = - 1 then Some (- 1, s) else client_put_all E c bss s } = Some res"
  shows "request_ok s res"
proof -
  have ok: "conn_ok (connection k)" using graph_client_ok [OF g k] by (simp add: client_ok_def)
  from connection_put_fd_ok [OF ok, of fd s] obtain r cn s1 where
      put: "connection_put_fd (connection k) fd s = Some (r, cn, s1)" "conn_ok cn" "os_frame s s1"
        "conn_fd cn = conn_fd (connection k)" "conn_in cn = conn_in (connection k)" by blast
  let ?s = "s1\<lparr>client_heap := (client_heap s)(c \<mapsto> k\<lparr>connection := cn\<rparr>)\<rparr>"
  have "client_heap s1 = client_heap s" by (rule os_frame_sys [OF put(3)])
  then have rest: "(if r = - 1 then Some (- 1, ?s) else client_put_all E c bss ?s) = Some res"
    using call put(1) k by (simp add: upd_client_def cong: if_cong)
  have "conn_step c s ?s" using k ok put by (auto simp: conn_step_def)
  then have s: "graph {} ?s" "sys_frame s ?s"
    using conn_step_graph [OF g] conn_step_within [of c s ?s UNIV UNIV] by (auto simp: within_def)
  show ?thesis
  proof (cases "r = - 1")
    case True
    with rest s show ?thesis by (auto simp: request_ok_def)
  next
    case False
    with rest reply_request [OF s(2,1) E k] show ?thesis by simp
  qed
qed

lemma handle_open_device_keeps:
  assumes g: "graph {} s" and E: "send_progress E" and k: "client_heap s c = Some k"
    and call: "handle_open_device E c path s = Some res"
  shows "request_ok s res"
proof (cases "c_seat k = None")
  case True
  with call k g show ?thesis by (auto simp: handle_open_device_def request_ok_fail)
next
  case False
  with call k obtain dev t where op: "seat_open_device E c path s = Some (dev, t)"
    by (auto simp: handle_open_device_def bind_eq_Some_conv)
  from seat_open_device_ok [OF g k _ False op] obtain ds where t: "graph {} t" "sys_frame s t"
    "client_heap t c = Some (k\<lparr>c_devices := ds\<rparr>)" "dev = None \<or> dev = Some 0 \<and> ds \<noteq> []"
    by (auto dest: within_sys_frame)
  show ?thesis
  proof (cases dev)
    case None
    with call k False op send_error_request [OF t(2,1) E k] show ?thesis
      by (auto simp: handle_open_device_def)
  next
    case (Some i)
    with t(4) obtain d ds' where ds: "ds = d # ds'" and dev: "dev = Some 0" by (cases ds) auto
    let ?k = "k\<lparr>c_devices := ds\<rparr>"
    obtain fd u where dup: "sys_dup E (dev_fd d) t = (fd, u)" by force
    then have "os_frame t u" using sys_frames(5) [of t E "dev_fd d"] by simp
    then have u: "graph {} u" "sys_frame s u" "client_heap u c = Some ?k"
      using t graph_os_frame [of t u "{}"] sys_frame_trans [OF t(2) os_frame_sys_frame] os_frame_sys [of t u] by auto
    from call k False op dev ds dup t(3) have rest: "(if fd = - 1 then do {
              (_, s) \<leftarrow> seat_close_device E c 0 u; client_send_error E c (errno s) s }
            else do {
              (r, cn, s) \<leftarrow> connection_put_fd (connection ?k) fd u;
              s \<leftarrow> upd_client c (\<lambda>k. k\<lparr>connection := cn\<rparr>) s;
              if r = - 1 then Some (- 1, s)
              else client_put_all E c [header_bytes SERVER_DEVICE_OPENED 4, encode_int_msg (device_id d)] s }) = Some res"
      by (simp add: handle_open_device_def nth_opt_def Let_def split del: if_split del: client_put_all.simps cong: if_cong)
    show ?thesis
    proof (cases "fd = - 1")
      case True
      from seat_close_device_graph [OF u(1,3), of 0 E] False ds obtain s' where
          "seat_close_device E c 0 u = Some (0, s')" "graph {} s'" "sys_frame u s'" by (auto dest: within_sys_frame)
      with rest True show ?thesis
        using send_error_request [OF sys_frame_trans [OF u(2)] _ E k] by simp
    next
      case fd: False
      with rest have "request_ok u res" by (intro queue_fd_request [OF u(1) E u(3)]) simp
      then show ?thesis by (rule request_ok_trans [OF u(2)])
    qed
  qed
qed

interpretation open_seat: request E "handle_open_seat E" for E
  by unfold_locales (rule handle_open_seat_keeps)

interpretation close_seat: request E "handle_close_seat E" for E
  by unfold_locales (rule handle_close_seat_keeps)

interpretation disable_seat: request E "handle_disable_seat E" for E
  by unfold_locales (rule handle_disable_seat_keeps)

interpretation ping: request E "handle_ping E" for E
  by unfold_locales (rule handle_ping_keeps)

interpretation open_device: request E "\<lambda>c. handle_open_device E c path" for E path
  by unfold_locales (rule handle_open_device_keeps)

interpretation close_device: request E "\<lambda>c. handle_close_device E c n" for E n
  by unfold_locales (rule handle_close_device_keeps)

interpretation switch_session: request E "\<lambda>c. handle_switch_session E c n" for E n
  by unfold_locales (rule handle_switch_session_keeps)

section \<open>Sources of the poller and clients\<close>

text \<open>
  The event source and the descriptor of each client, and what ties them to the poller: the
  source of a client is live and calls back with that client, and a live source calls back with
  the listening socket or with a client that still exists and knows the source.
\<close>

definition owners :: "sys \<Rightarrow> (nat \<rightharpoonup> nat option \<times> int)" where
  "owners s = (\<lambda>c. map_option (\<lambda>k. (event_source k, conn_fd (connection k))) (client_heap s c))"

definition source_of :: "handler poller \<Rightarrow> nat \<Rightarrow> nat option \<times> int \<Rightarrow> bool" where
  "source_of p c v \<longleftrightarrow> (\<exists>i x. fst v = Some i \<and> find_fd i p = Some x \<and> \<not> es_killed x
     \<and> es_handler x = Client_handle_connection c \<and> es_fd x = snd v)"

definition callback_ok :: "(nat \<rightharpoonup> nat option \<times> int) \<Rightarrow> handler event_source_fd \<Rightarrow> bool" where
  "callback_ok W x \<longleftrightarrow> es_killed x \<or> es_handler x = Server_handle_connection
     \<or> (\<exists>c fd. es_handler x = Client_handle_connection c \<and> W c = Some (Some (es_id x), fd))"

definition signal_ok :: "handler event_source_signal \<Rightarrow> bool" where
  "signal_ok b \<longleftrightarrow> ss_handler b \<in> {Server_handle_vt_rel, Server_handle_vt_acq, Server_handle_kill}"

definition sources_ok :: "nat set \<Rightarrow> handler poller \<Rightarrow> (nat \<rightharpoonup> nat option \<times> int) \<Rightarrow> bool" where
  "sources_ok L p W \<longleftrightarrow> (\<forall>c v. W c = Some v \<longrightarrow> c \<notin> L \<longrightarrow> source_of p c v)
     \<and> (\<forall>x \<in> set (p_fds p). callback_ok W x) \<and> (\<forall>b \<in> set (p_signals p). signal_ok b)"

definition fresh_ok :: "sys \<Rightarrow> bool" where
  "fresh_ok s \<longleftrightarrow> (\<forall>c \<in> dom (client_heap s). c < next_addr s) \<and> (\<forall>st \<in> set (seats s). st < next_addr s)"

definition server_inv :: "sys \<Rightarrow> bool" where
  "server_inv s \<longleftrightarrow> graph {} s \<and> poller_ok (poller s) \<and> sources_ok {} (poller s) (owners s) \<and> fresh_ok s"

lemma sources_okD: "sources_ok L p W \<Longrightarrow> W c = Some v \<Longrightarrow> c \<notin> L \<Longrightarrow> source_of p c v"
  unfolding sources_ok_def by blast

lemma callback_ok_upd:
  assumes "callback_ok W x" and "\<And>fd. W c \<noteq> Some (Some (es_id x), fd)"
  shows "callback_ok (W(c := v)) x"
proof -
  from assms(1) consider "es_killed x \<or> es_handler x = Server_handle_connection"
    | c' fd' where "es_handler x = Client_handle_connection c'" "W c' = Some (Some (es_id x), fd')"
    unfolding callback_ok_def by blast
  then show ?thesis
  proof cases
    case 2
    then have "c' \<noteq> c" using assms(2) by auto
    with 2 show ?thesis by (simp add: callback_ok_def)
  qed (auto simp: callback_ok_def)
qed

lemma owners_sys_frame: "sys_frame s s' \<Longrightarrow> owners s' = owners s"
proof
  fix c assume "sys_frame s s'"
  then have "map_option client_id (client_heap s' c) = map_option client_id (client_heap s c)"
    by (simp add: sys_frame_def)
  then show "owners s' c = owners s c"
    by (cases "client_heap s c"; cases "client_heap s' c") (auto simp: owners_def client_id_def)
qed

lemma sys_frame_dom: "sys_frame s s' \<Longrightarrow> dom (client_heap s') = dom (client_heap s)"
  by (auto simp: sys_frame_def dom_def) (metis map_option_is_None not_None_eq)+

lemma server_inv_frame: "server_inv s \<Longrightarrow> sys_frame s s' \<Longrightarrow> graph {} s' \<Longrightarrow> server_inv s'"
  using owners_sys_frame [of s s'] sys_frame_dom [of s s']
  by (auto simp: server_inv_def fresh_ok_def sys_frame_def)

lemma server_inv_os_frame: "server_inv s \<Longrightarrow> os_frame s t \<Longrightarrow> server_inv t"
  using server_inv_frame [of s t] os_frame_sys_frame [of s t] graph_os_frame [of s t "{}"]
  by (simp add: server_inv_def)

text \<open>The bytes that a client has sent and the server has not looked at.\<close>

definition input :: "sys \<Rightarrow> nat \<Rightarrow> bytes" where
  "input s c = (case client_heap s c of None \<Rightarrow> [] | Some k \<Rightarrow> contents (conn_in (connection k)))"

lemma input_Some: "client_heap s c = Some k \<Longrightarrow> input s c = contents (conn_in (connection k))"
  by (simp add: input_def)

lemma input_sys_frame: "sys_frame s s' \<Longrightarrow> input s' c = input s c"
proof -
  assume "sys_frame s s'"
  then have "map_option client_id (client_heap s' c) = map_option client_id (client_heap s c)"
    by (simp add: sys_frame_def)
  then show ?thesis
    by (cases "client_heap s c"; cases "client_heap s' c") (auto simp: input_def client_id_def)
qed

text \<open>What serving a client leaves alone.\<close>

definition serve_frame :: "sys \<Rightarrow> sys \<Rightarrow> bool" where
  "serve_frame s s' \<longleftrightarrow> owners s' = owners s \<and> next_addr s' = next_addr s \<and> seats s' = seats s
     \<and> running s' = running s \<and> map es_id (p_fds (poller s')) = map es_id (p_fds (poller s))"

lemma serve_frame_refl [simp]: "serve_frame s s"
  by (simp add: serve_frame_def)

lemma serve_frame_trans [trans]: "serve_frame s t \<Longrightarrow> serve_frame t u \<Longrightarrow> serve_frame s u"
  by (simp add: serve_frame_def)

lemma sys_frame_serve: "sys_frame s s' \<Longrightarrow> serve_frame s s'"
  using owners_sys_frame [of s s'] by (simp add: serve_frame_def sys_frame_def)

lemma owners_client: "owners s' = owners s \<Longrightarrow> client_heap s c = Some k \<Longrightarrow>
  \<exists>k'. client_heap s' c = Some k' \<and> event_source k' = event_source k \<and> conn_fd (connection k') = conn_fd (connection k)"
  by (cases "client_heap s' c") (auto simp: owners_def dest!: fun_cong [where x = c])

lemma serve_frame_client: "serve_frame s s' \<Longrightarrow> client_heap s c = Some k \<Longrightarrow> \<exists>k'. client_heap s' c = Some k'"
  using owners_client [of s' s c k] by (auto simp: serve_frame_def)

lemma server_inv_source:
  assumes "server_inv s" and "client_heap s c = Some k"
  shows "\<exists>i x. event_source k = Some i \<and> find_fd i (poller s) = Some x \<and> \<not> es_killed x
    \<and> es_handler x = Client_handle_connection c \<and> es_fd x = conn_fd (connection k)"
proof -
  have "owners s c = Some (event_source k, conn_fd (connection k))" using assms(2) by (simp add: owners_def)
  with assms(1) show ?thesis by (fastforce simp: server_inv_def sources_ok_def source_of_def)
qed

text \<open>Changing the mask of a source.\<close>

lemma sources_ok_update:
  assumes "sources_ok L p W"
  shows "sources_ok L ((set_fd i (\<lambda>x. x\<lparr>es_mask := m\<rparr>) p)\<lparr>dirty := True\<rparr>) W"
proof -
  let ?q = "(set_fd i (\<lambda>x. x\<lparr>es_mask := m\<rparr>) p)\<lparr>dirty := True\<rparr>"
  have f: "find_fd j ?q = (if i = j then map_option (\<lambda>x. x\<lparr>es_mask := m\<rparr>) (find_fd j p) else find_fd j p)" for j
    using find_fd_set_fd [of "\<lambda>x. x\<lparr>es_mask := m\<rparr>" j i p] by (simp add: find_fd_def)
  have "source_of ?q c v" if "source_of p c v" for c v
    using that f by (auto simp: source_of_def)
  moreover have "callback_ok W x" if "x \<in> set (p_fds ?q)" "\<forall>x \<in> set (p_fds p). callback_ok W x" for x
    using that by (auto dest!: set_fd_elem simp: callback_ok_def)
  ultimately show ?thesis using assms by (auto simp: sources_ok_def)
qed

lemma owners_poller [simp]: "owners (s\<lparr>poller := p\<rparr>) = owners s"
  by (simp add: owners_def)

lemma graph_poller [simp]: "graph L (s\<lparr>poller := p\<rparr>) = graph L s"
  by (simp add: graph_def)

lemma input_poller [simp]: "input (s\<lparr>poller := p\<rparr>) c = input s c"
  by (simp add: input_def)

lemma event_source_update_inv:
  assumes inv: "server_inv s" and k: "client_heap s c = Some k" and i: "event_source k = Some i"
  shows "\<exists>s'. event_source_fd_update i m s = Some s' \<and> server_inv s' \<and> serve_frame s s' \<and> input s' = input s"
proof -
  from server_inv_source [OF inv k] i obtain x where x: "find_fd i (poller s) = Some x" by auto
  from inv have p: "poller_ok (poller s)" "sources_ok {} (poller s) (owners s)" by (auto simp: server_inv_def)
  let ?p = "(set_fd i (\<lambda>x. x\<lparr>es_mask := m\<rparr>) (poller s))\<lparr>dirty := True\<rparr>"
  have e: "event_source_fd_update i m s = Some (s\<lparr>poller := ?p\<rparr>)"
    using x by (simp add: event_source_fd_update_def)
  from event_source_fd_update_ok [OF p(1) x, of m] e
  have "poller_ok ?p" "map es_id (p_fds ?p) = map es_id (p_fds (poller s))"
    by (metis option.inject pstate.select_convs(1) pstate.surjective pstate.update_convs(1))+
  with e inv sources_ok_update [OF p(2), of i m] show ?thesis
    by (auto simp: server_inv_def fresh_ok_def serve_frame_def fun_eq_iff)
qed


section \<open>Requests from the wire\<close>

lemma client_get_cases:
  assumes "client_heap s c = Some k" and "conn_ok (connection k)" and "client_get c n s = Some (r, s')"
  shows "case r of None \<Rightarrow> s' = s\<lparr>errno := EAGAIN\<rparr> \<and> length (input s c) < n
    | Some bs \<Rightarrow> \<exists>cn. s' = s\<lparr>client_heap := (client_heap s)(c \<mapsto> k\<lparr>connection := cn\<rparr>)\<rparr> \<and> conn_ok cn
        \<and> conn_fd cn = conn_fd (connection k) \<and> input s c = bs @ contents (conn_in cn) \<and> length bs = n
        \<and> connection_get (connection k) n s = Some (Some bs, cn, s)"
proof -
  from assms(1,3) obtain cn s1 where get: "connection_get (connection k) n s = Some (r, cn, s1)"
    and upd: "upd_client c (\<lambda>k. k\<lparr>connection := cn\<rparr>) s1 = Some s'"
    by (auto simp: client_get_def bind_eq_Some_conv simp del: upd_client_Some)
  note ok = connection_get_conn_ok [OF assms(2) get]
  show ?thesis
  proof (cases r)
    case None
    with get ok have "s1 = s\<lparr>errno := EAGAIN\<rparr>" by (auto simp: connection_get_ok [OF assms(2)] split: if_splits)
    with None ok upd assms(1) show ?thesis by (simp add: input_def fun_upd_idem)
  next
    case (Some bs)
    with ok upd assms(1) get show ?thesis by (auto simp: input_def)
  qed
qed

lemma set_connection_inv:
  assumes inv: "server_inv s" and k: "client_heap s c = Some k"
    and cn: "conn_ok cn" "conn_fd cn = conn_fd (connection k)"
  defines "s' \<equiv> s\<lparr>client_heap := (client_heap s)(c \<mapsto> k\<lparr>connection := cn\<rparr>)\<rparr>"
  shows "server_inv s'" and "serve_frame s s'"
proof -
  have "client_ok (k\<lparr>connection := cn\<rparr>)"
    using inv cn graph_client_ok [OF _ k] by (auto simp: server_inv_def client_ok_def)
  then have "graph {} s'"
    using inv k graph_upd_client [OF _ k] by (auto simp: server_inv_def s'_def cview_def)
  moreover have o: "owners s' = owners s" using k cn by (auto simp: owners_def s'_def)
  moreover have "dom (client_heap s') = dom (client_heap s)" using k by (auto simp: s'_def)
  ultimately show "server_inv s'" using inv by (simp add: server_inv_def fresh_ok_def s'_def)
  show "serve_frame s s'" using o by (simp add: serve_frame_def s'_def)
qed

text \<open>A request of \<open>n\<close> bytes of payload, of which a handler that succeeds takes all.\<close>

definition served :: "nat \<Rightarrow> nat \<Rightarrow> sys \<Rightarrow> int \<times> sys \<Rightarrow> bool" where
  "served c n s res \<longleftrightarrow> server_inv (snd res) \<and> serve_frame s (snd res) \<and> (fst res = 0 \<or> fst res = - 1)
     \<and> (fst res = 0 \<longrightarrow> input (snd res) c = drop n (input s c)) \<and> (\<exists>m. input (snd res) c = drop m (input s c))"

lemma drop_any: "\<exists>m. xs = drop m xs"
  by (rule exI [of _ 0]) simp

lemma served_request:
  "server_inv s \<Longrightarrow> request_ok s res \<Longrightarrow> served c 0 s res"
  using server_inv_frame [of s "snd res"] sys_frame_serve [of s "snd res"] input_sys_frame [of s "snd res" c]
  by (auto simp: request_ok_def served_def drop_any)

lemma served_fail: "server_inv s \<Longrightarrow> served c n s (- 1, s)"
  by (simp add: served_def drop_any)

text \<open>Taking \<open>n\<close> bytes first.\<close>

lemma client_get_served:
  assumes inv: "server_inv s" and k: "client_heap s c = Some k" and get: "client_get c n s = Some (r, s1)"
    and none: "r = None \<Longrightarrow> res = (- 1, s1)"
    and some: "\<And>bs k'. r = Some bs \<Longrightarrow> server_inv s1 \<Longrightarrow> client_heap s1 c = Some k' \<Longrightarrow>
      input s1 c = drop n (input s c) \<Longrightarrow> served c m s1 res"
  shows "served c (n + m) s res"
proof -
  have ok: "conn_ok (connection k)"
    using inv graph_client_ok [OF _ k] by (auto simp: server_inv_def client_ok_def)
  note c = client_get_cases [OF k ok get]
  show ?thesis
  proof (cases r)
    case None
    have "sys_frame s (s\<lparr>errno := EAGAIN\<rparr>)" by (rule os_frame_sys_frame) (simp add: os_frame_errno)
    with None c none inv show ?thesis
      using server_inv_frame [OF inv, of s1] by (auto simp: served_def sys_frame_serve input_def server_inv_def drop_any)
  next
    case (Some bs)
    with c obtain cn where s1: "s1 = s\<lparr>client_heap := (client_heap s)(c \<mapsto> k\<lparr>connection := cn\<rparr>)\<rparr>"
      and cn: "conn_ok cn" "conn_fd cn = conn_fd (connection k)" and inp: "input s c = bs @ contents (conn_in cn)"
      and n: "length bs = n" by auto
    have i: "input s1 c = drop n (input s c)" using inp s1 n by (simp add: input_def)
    from set_connection_inv [OF inv k cn] s1 have "server_inv s1" "serve_frame s s1" by auto
    with some [OF Some _ _ i] s1 have "served c m s1 res" by auto
    with \<open>serve_frame s s1\<close> i show ?thesis
      by (auto simp: served_def add.commute intro: serve_frame_trans)
  qed
qed

context request
begin

lemma empty_msg_served:
  assumes "server_inv s" and "send_progress E" and "client_heap s c = Some k" and "handle_empty_msg f c len s = Some res"
  shows "served c len s res"
proof (cases "len = 0")
  case True
  with assms have "request_ok s res" by (intro empty_msg_keeps) (auto simp: server_inv_def)
  with served_request assms(1) True show ?thesis by blast
next
  case False
  with assms served_fail show ?thesis by (auto simp: handle_empty_msg_def)
qed

lemma after_get_served:
  assumes "server_inv s" and "send_progress E" and "client_heap s c = Some k" and "f c s = Some res"
  shows "served c 0 s res"
  using keeps assms by (intro served_request) (auto simp: server_inv_def)

end

lemma handle_int_msg_served:
  assumes inv: "server_inv s" and E: "send_progress E" and k: "client_heap s c = Some k"
    and f: "\<And>n. request E (\<lambda>c. f c n)" and call: "handle_int_msg f c len s = Some res"
  shows "served c len s res"
proof (cases "len = 4")
  case False
  with call inv show ?thesis by (auto simp: handle_int_msg_def served_fail)
next
  case True
  with call obtain r s1 where get: "client_get c 4 s = Some (r, s1)"
    and rest: "(case r of None \<Rightarrow> Some (- 1, s1) | Some bs \<Rightarrow> f c (decode_int_msg bs) s1) = Some res"
    by (auto simp: handle_int_msg_def bind_eq_Some_conv)
  have "served c (4 + 0) s res"
  proof (rule client_get_served [OF inv k get])
    fix bs k' assume "r = Some bs" "server_inv s1" "client_heap s1 c = Some k'"
    then show "served c 0 s1 res" using request.after_get_served [OF f _ E] rest by auto
  qed (use rest in auto)
  with True show ?thesis by simp
qed

lemma handle_open_device_msg_served:
  assumes inv: "server_inv s" and E: "send_progress E" and k: "client_heap s c = Some k"
    and call: "handle_open_device_msg E c len s = Some res"
  shows "served c len s res"
proof (cases "2 > len")
  case True
  with call inv show ?thesis by (auto simp: handle_open_device_msg_def served_fail)
next
  case False
  define body where "body bs s1 = (let path_len = unat (decode_len_msg bs) in
       if path_len \<noteq> len - 2 then Some (- 1, s1)
       else if path_len > MAX_PATH_LEN then Some (- 1, s1)
       else do {
         (path, s) \<leftarrow> client_get c path_len s1;
         (case path of None \<Rightarrow> Some (- 1, s)
          | Some path \<Rightarrow>
              if path_len = 0 \<or> strnlen path path_len \<noteq> path_len - 1 then Some (- 1, s)
              else handle_open_device E c (bytes_string (takeWhile (\<lambda>b. b \<noteq> 0) path)) s) })" for bs s1
  from False call obtain r s1 where get: "client_get c 2 s = Some (r, s1)"
    and rest: "(case r of None \<Rightarrow> Some (- 1, s1) | Some bs \<Rightarrow> body bs s1) = Some res"
    by (auto simp: handle_open_device_msg_def bind_eq_Some_conv body_def cong: option.case_cong)
  have "served c (len - 2) s1 res" if s1: "server_inv s1" "client_heap s1 c = Some k1" and b: "body bs s1 = Some res" for bs k1
  proof (cases "unat (decode_len_msg bs) \<noteq> len - 2 \<or> unat (decode_len_msg bs) > MAX_PATH_LEN")
    case True
    with b s1 show ?thesis by (auto simp: body_def Let_def served_fail split: if_splits)
  next
    case ok: False
    with b obtain path s2 where get2: "client_get c (len - 2) s1 = Some (path, s2)"
      and rest2: "(case path of None \<Rightarrow> Some (- 1, s2) | Some path \<Rightarrow>
            if len - 2 = 0 \<or> strnlen path (len - 2) \<noteq> len - 2 - 1 then Some (- 1, s2)
            else handle_open_device E c (bytes_string (takeWhile (\<lambda>b. b \<noteq> 0) path)) s2) = Some res"
      by (auto simp: body_def Let_def bind_eq_Some_conv cong: option.case_cong if_cong)
    have "served c (len - 2 + 0) s1 res"
    proof (rule client_get_served [OF s1 get2])
      fix bs k' assume "path = Some bs" "server_inv s2" "client_heap s2 c = Some k'"
      with rest2 show "served c 0 s2 res"
        using open_device.after_get_served [OF _ E] served_fail by (auto split: if_splits)
    qed (use rest2 in auto)
    then show ?thesis by simp
  qed
  then have "served c (2 + (len - 2)) s res" using rest by (intro client_get_served [OF inv k get]) auto
  moreover have "2 + (len - 2) = len" using False by simp
  ultimately show ?thesis by metis
qed

lemma client_flush_served:
  assumes inv: "server_inv s" and E: "send_progress E" and k: "client_heap s c = Some k"
    and call: "client_flush E c s = Some res"
  shows "served c 0 s res"
proof -
  from call obtain r s1 where fl: "client_conn_flush E c s = Some (r, s1)"
    by (auto simp: client_flush_def bind_eq_Some_conv)
  have g: "graph {} s" using inv by (simp add: server_inv_def)
  have "conn_ok (connection k)" using graph_client_ok [OF g k] by (simp add: client_ok_def)
  from client_conn_flush_step [OF E k this fl] have st: "conn_step c s s1" by simp
  then have f: "graph {} s1" "sys_frame s s1"
    using conn_step_graph [OF g] conn_step_within [of c s s1 UNIV UNIV] by (auto simp: within_def)
  then have inv1: "server_inv s1" "serve_frame s s1" "input s1 c = input s c"
    using server_inv_frame [OF inv] sys_frame_serve input_sys_frame by auto
  obtain cn where k1: "client_heap s1 c = Some (k\<lparr>connection := cn\<rparr>)" using conn_step_client [OF st k] by auto
  show ?thesis
  proof (cases "r = - 1 \<and> errno s1 = EAGAIN")
    case True
    obtain i where i: "event_source (k\<lparr>connection := cn\<rparr>) = Some i" using server_inv_source [OF inv1(1) k1] by auto
    from event_source_update_inv [OF inv1(1) k1 i, of "EVENT_READABLE OR EVENT_WRITABLE"] obtain s2 where
        "event_source_fd_update i (EVENT_READABLE OR EVENT_WRITABLE) s1 = Some s2" "server_inv s2" "serve_frame s1 s2"
        "input s2 = input s1" by auto
    with call fl True k1 i inv1 show ?thesis
      by (auto simp: client_flush_def served_def drop_any intro: serve_frame_trans)
  next
    case False
    with call fl inv1 show ?thesis by (auto simp: client_flush_def served_def drop_any split: if_splits)
  qed
qed

lemma served_trans:
  "served c n s (0, t) \<Longrightarrow> served c 0 t res \<Longrightarrow> served c n s res"
  by (auto simp: served_def intro: serve_frame_trans)

lemma switch_opcode_served:
  assumes inv: "server_inv s" and E: "send_progress E" and k: "client_heap s c = Some k"
    and call: "switch_opcode E c op len s = Some res"
  shows "served c len s res"
  using call open_seat.empty_msg_served [OF inv E k] close_seat.empty_msg_served [OF inv E k]
    disable_seat.empty_msg_served [OF inv E k] ping.empty_msg_served [OF inv E k]
    handle_open_device_msg_served [OF inv E k] served_fail [OF inv]
    handle_int_msg_served [OF inv E k close_device.request_axioms] handle_int_msg_served [OF inv E k switch_session.request_axioms]
  by (auto simp: switch_opcode_def split: if_splits)

lemma client_handle_opcode_served:
  assumes inv: "server_inv s" and E: "send_progress E" and k: "client_heap s c = Some k"
    and call: "client_handle_opcode E c op len s = Some res"
  shows "served c len s res"
proof -
  from call obtain r t where h: "switch_opcode E c op len s = Some (r, t)"
    and rest: "(if r \<noteq> - 1 then client_flush E c t else Some (r, t)) = Some res"
    unfolding client_handle_opcode_def bind_eq_Some_conv by auto
  have t: "served c len s (r, t)" by (rule switch_opcode_served [OF inv E k h])
  show ?thesis
  proof (cases "r = - 1")
    case True
    with t rest show ?thesis by auto
  next
    case False
    with t have r: "r = 0" by (auto simp: served_def)
    obtain k' where "client_heap t c = Some k'" using t serve_frame_client [OF _ k] by (auto simp: served_def)
    moreover have "server_inv t" using t by (simp add: served_def)
    moreover have "client_flush E c t = Some res" using rest False by simp
    ultimately have "served c 0 t res" using client_flush_served [OF _ E] by blast
    with t show ?thesis unfolding r by (rule served_trans)
  qed
qed


section \<open>The loop over the input\<close>

text \<open>The loop with the frames taken from the stream beforehand.\<close>

fun serve_frames :: "env \<Rightarrow> nat \<Rightarrow> (u16 \<times> bytes) list \<Rightarrow> sys \<Rightarrow> (bool \<times> sys) option" where
  "serve_frames E c [] s = Some (True, if length (input s c) < 4 then s\<lparr>errno := EAGAIN\<rparr> else s)"
| "serve_frames E c ((op, p) # fs) s = do {
     (_, s) \<leftarrow> client_get c 4 s;
     (r, s) \<leftarrow> client_handle_opcode E c op (length p) s;
     if r = - 1 then Some (False, s) else serve_frames E c fs s }"

lemma client_get_eq:
  assumes inv: "server_inv s" and k: "client_heap s c = Some k"
  shows "client_get c n s = (if n \<le> length (input s c) then
      Some (Some (take n (input s c)), s\<lparr>client_heap := (client_heap s)(c \<mapsto>
        k\<lparr>connection := (connection k)\<lparr>conn_in := connection_buffer_consume (conn_in (connection k)) n\<rparr>\<rparr>)\<rparr>)
    else Some (None, s\<lparr>errno := EAGAIN\<rparr>))"
proof -
  have "conn_ok (connection k)"
    using inv graph_client_ok [OF _ k] by (auto simp: server_inv_def client_ok_def)
  then show ?thesis
    using k by (simp add: client_get_def connection_get_ok upd_client_def input_def fun_upd_idem)
qed

lemma message_loop_eq:
  assumes "server_inv s" and E: "send_progress E" and "client_heap s c = Some k"
  shows "message_loop E c s = serve_frames E c (fst (frames (input s c))) s"
  using assms(1,3)
proof (induction "length (input s c)" arbitrary: s k rule: less_induct)
  case less
  note inv = less.prems(1) and k = less.prems(2)
  have ok: "conn_ok (connection k)"
    using inv graph_client_ok [OF _ k] by (auto simp: server_inv_def client_ok_def)
  show ?case
  proof (cases "length (input s c) < 4")
    case True
    then show ?thesis
      by (simp add: message_loop.simps [of E c s] client_get_eq [OF inv k] frames.simps [of "input s c"])
  next
    case len: False
    let ?cn = "(connection k)\<lparr>conn_in := connection_buffer_consume (conn_in (connection k)) 4\<rparr>"
    let ?t = "s\<lparr>client_heap := (client_heap s)(c \<mapsto> k\<lparr>connection := ?cn\<rparr>)\<rparr>"
    let ?h = "decode_header (take 4 (input s c))"
    have get: "client_get c 4 s = Some (Some (take 4 (input s c)), ?t)" using len by (simp add: client_get_eq [OF inv k])
    have cget: "connection_get (connection k) 4 s = Some (Some (take 4 (input s c)), ?cn, s)"
      using len k by (simp add: connection_get_ok [OF ok] input_def)
    have cn: "conn_ok ?cn" "conn_fd ?cn = conn_fd (connection k)" "contents (conn_in ?cn) = drop 4 (input s c)"
      using connection_get_conn_ok [OF ok cget] k len
      by (auto simp: input_def) (metis append_eq_conv_conj append_take_drop_id)
    have inv': "server_inv ?t" using set_connection_inv [OF inv k cn(1,2)] by simp
    have inp: "input ?t c = drop 4 (input s c)" using cn(3) by (simp add: input_def)
    have pend: "connection_pending ?cn = length (input s c) - 4"
      using cn(3) by (simp add: connection_pending_def flip: length_contents)
    show ?thesis
    proof (cases "length (input s c) - 4 < unat (msg_size ?h)")
      case True
      have "s\<lparr>client_heap := (client_heap s)(c \<mapsto> k\<lparr>connection := connection_restore ?cn 4\<rparr>)\<rparr> = s"
        using connection_restore_get [OF ok cget] k by (simp add: fun_upd_idem)
      then show ?thesis using True len pend
        by (simp add: message_loop.simps [of E c s] get upd_client_def frames.simps [of "input s c"])
    next
      case False
      let ?n = "unat (msg_size ?h)"
      have fr: "frames (input s c) = ((opcode ?h, take ?n (drop 4 (input s c))) # fst (frames (drop (4 + ?n) (input s c))),
          snd (frames (drop (4 + ?n) (input s c))))"
        using False len by (simp add: frames.simps [of "input s c"] Let_def split_def)
      have n: "length (take ?n (drop 4 (input s c))) = ?n" using False by simp
      have "message_loop E c s = do { (r, s) \<leftarrow> client_handle_opcode E c (opcode ?h) ?n ?t;
            if r = - 1 then Some (False, s) else message_loop E c s }"
        using False pend by (simp add: message_loop.simps [of E c s] get Let_def)
      moreover have "(if r = - 1 then Some (False, s') else message_loop E c s') =
          (if r = - 1 then Some (False, s') else serve_frames E c (fst (frames (drop (4 + ?n) (input s c)))) s')"
        if call: "client_handle_opcode E c (opcode ?h) ?n ?t = Some (r, s')" for r s'
      proof (cases "r = - 1")
        case r: False
        have sv: "served c ?n ?t (r, s')" by (rule client_handle_opcode_served [OF inv' E _ call]) simp
        with r have "input s' c = drop (4 + ?n) (input s c)" "server_inv s'"
          using inp by (auto simp: served_def add.commute)
        moreover have "\<exists>k'. client_heap s' c = Some k'"
          using sv serve_frame_client [of ?t s' c] by (auto simp: served_def)
        ultimately show ?thesis using less.hyps [of s'] len by auto
      qed simp
      ultimately show ?thesis unfolding fr using n get
        by (cases "client_handle_opcode E c (opcode ?h) ?n ?t") auto
    qed
  qed
qed

section \<open>Destroying a client\<close>

text \<open>
  A client goes with its source, if it has one: \<open>server_add_client\<close> destroys a client for which
  no source could be made.
\<close>

definition own_source :: "handler poller \<Rightarrow> nat \<Rightarrow> nat option \<Rightarrow> bool" where
  "own_source p c src \<longleftrightarrow> (\<forall>i. src = Some i \<longrightarrow> (\<exists>x. find_fd i p = Some x \<and> \<not> es_killed x
     \<and> es_handler x = Client_handle_connection c))"

definition kill_source :: "nat option \<Rightarrow> handler poller \<Rightarrow> handler poller" where
  "kill_source src p = (case src of None \<Rightarrow> p
     | Some i \<Rightarrow> set_fd i (\<lambda>x. x\<lparr>es_killed := True\<rparr>)
         (p\<lparr>fd_event_sources := size_decr (fd_event_sources p), dirty := True\<rparr>))"

lemma sources_ok_kill:
  assumes ok: "sources_ok {c} p W" and own: "own_source p c src" and W: "W c = Some (src, fd)"
  shows "sources_ok {} (kill_source src p) (W(c := None))"
proof -
  let ?p = "kill_source src p"
  have "source_of ?p c' v" if v: "W c' = Some v" "c' \<noteq> c" for c' v
  proof -
    have "source_of p c' v" using sources_okD [OF ok v(1)] v(2) by simp
    then obtain j x where x: "fst v = Some j" "find_fd j p = Some x" "\<not> es_killed x"
        "es_handler x = Client_handle_connection c'" "es_fd x = snd v"
      by (auto simp: source_of_def)
    then have "src \<noteq> Some j" using own v(2) by (auto simp: own_source_def)
    then have "find_fd j ?p = Some x"
      using x(2) find_fd_set_fd [of "\<lambda>x. x\<lparr>es_killed := True\<rparr>" j _ "p\<lparr>fd_event_sources := _, dirty := True\<rparr>"]
      by (cases src) (auto simp: kill_source_def find_fd_def)
    with x show ?thesis by (auto simp: source_of_def)
  qed
  moreover have "callback_ok (W(c := None)) x" if x: "x \<in> set (p_fds ?p)" for x
  proof (cases "es_killed x")
    case False
    have y: "x \<in> set (p_fds p) \<and> src \<noteq> Some (es_id x)"
    proof (cases src)
      case (Some i)
      with x obtain y where "y \<in> set (p_fds p)" "x = (if es_id y = i then y\<lparr>es_killed := True\<rparr> else y)"
        by (auto simp: kill_source_def set_fd_def)
      with Some False show ?thesis by (cases "es_id y = i") simp_all
    qed (use x in \<open>simp add: kill_source_def\<close>)
    with ok have "callback_ok W x" unfolding sources_ok_def by blast
    with y W show ?thesis by (intro callback_ok_upd) auto
  qed (simp add: callback_ok_def)
  moreover have "p_signals ?p = p_signals p" by (simp add: kill_source_def split: option.splits)
  ultimately show ?thesis using ok by (auto simp: sources_ok_def)
qed

lemma poller_ok_kill:
  assumes "poller_ok p" and "own_source p c src"
  shows "poller_ok (kill_source src p) \<and> map es_id (p_fds (kill_source src p)) = map es_id (p_fds p)"
proof (cases src)
  case (Some i)
  with assms(2) obtain x where x: "find_fd i p = Some x" "\<not> es_killed x" by (auto simp: own_source_def)
  let ?s = "\<lparr>errno = 0, trace = [], poller = p, global_poller = True\<rparr>"
  from event_source_fd_destroy_ok [of ?s i x] assms(1) x obtain q where
      "event_source_fd_destroy i ?s = Some (?s\<lparr>poller := q\<rparr>)" "poller_ok q" "map es_id (p_fds q) = map es_id (p_fds p)"
    by auto
  moreover have "event_source_fd_destroy i ?s = Some (?s\<lparr>poller := kill_source src p\<rparr>)"
    using x Some by (simp add: event_source_fd_destroy_def kill_source_def)
  ultimately show ?thesis by simp
qed (use assms in \<open>simp add: kill_source_def\<close>)

text \<open>The part of \<open>client_destroy\<close> that works on the seat and the lists.\<close>

lemma detach_ok:
  assumes g: "graph {} s" and E: "send_progress E" and k: "client_heap s c = Some k"
    and rm: "(if c_seat k \<noteq> None then seat_remove_client E c s else Some s) = Some t"
  shows "graph {c} (unlink_client c t) \<and> sys_frame s (unlink_client c t)
    \<and> (\<exists>k'. client_heap (unlink_client c t) c = Some k' \<and> c_devices k' = [] \<and> client_id k' = client_id k
       \<and> connection k' = connection k)
    \<and> set (idle_clients (unlink_client c t)) \<subseteq> set (idle_clients s)
    \<and> vt_view (unlink_client c t) = (fst (vt_view s), (snd (vt_view s))(c \<mapsto> (None, c_session k)))"
proof (cases "c_seat k")
  case None
  with rm have t: "t = s" by simp
  note idle = idle_not_member [OF g k None]
  have "unlink_client c s = s\<lparr>idle_clients := removeAll c (idle_clients s)\<rparr>" by (rule unlink_not_member) (rule idle)
  moreover have "c_devices k = []" using graph_client_ok [OF g k] None by (simp add: client_ok_def)
  moreover have "vt_view s = (fst (vt_view s), (snd (vt_view s))(c \<mapsto> (None, c_session k)))"
    using k None by (auto simp: vt_view_def)
  moreover have "vt_view (s\<lparr>idle_clients := l\<rparr>) = vt_view s" for l by (simp add: vt_view_def)
  ultimately show ?thesis
    using graph_unsettle_idle [OF g idle(1)] k t sys_frame_unlink [of s c] by auto
next
  case (Some st)
  then have ok: "graph {c} t" "sys_frame s t" "idle_clients t = idle_clients s" "client_heap t c = Some (k\<lparr>c_devices := [], c_state := CLIENT_CLOSED, c_seat := None\<rparr>)"
      "vt_view t = (fst (vt_view s), (snd (vt_view s))(c \<mapsto> (None, c_session k)))"
    using seat_remove_client_ok [OF g E k Some] rm by auto
  then have "\<forall>st. c \<notin> members (seat_heap t) st" "c \<notin> set (idle_clients t)"
    by (auto simp: graph_def shape_ok_def)
  then have "unlink_client c t = t" using unlink_not_member [of c t] by simp
  with ok show ?thesis by (simp add: client_id_def)
qed

definition destroyed :: "env \<Rightarrow> nat \<Rightarrow> sys \<Rightarrow> sys \<Rightarrow> bool" where
  "destroyed E c s s' \<longleftrightarrow> server_inv s' \<and> owners s' = (owners s)(c := None) \<and> next_addr s' = next_addr s
     \<and> seats s' = seats s \<and> running s' = (running s \<and> \<not> libseat_build E)
     \<and> map es_id (p_fds (poller s')) = map es_id (p_fds (poller s))
     \<and> set (idle_clients s') \<subseteq> set (idle_clients s)
     \<and> vt_view s' = (fst (vt_view s), (snd (vt_view s))(c := None))"

lemma client_destroy_finish:
  assumes g: "graph {c} s" and p: "poller_ok (poller s)" "sources_ok {c} (poller s) (owners s)" "fresh_ok s"
    and k: "client_heap s c = Some k" "conn_ok (connection k)" "c_devices k = []"
    and own: "own_source (poller s) c (event_source k)"
  shows "\<exists>s'. do {
     s \<leftarrow> (case event_source k of None \<Rightarrow> Some s
           | Some i \<Rightarrow> do {
               s \<leftarrow> event_source_fd_destroy i s;
               upd_client c (\<lambda>k. k\<lparr>event_source := None\<rparr>) s });
     k \<leftarrow> client_heap s c;
     (cn, s) \<leftarrow> connection_close_fds E (connection k) s;
     oassert (c_devices k = []);
     Some (s\<lparr>client_heap := (client_heap s)(c := None)\<rparr>) } = Some s'
   \<and> server_inv s' \<and> owners s' = (owners s)(c := None) \<and> next_addr s' = next_addr s \<and> seats s' = seats s
   \<and> running s' = running s \<and> map es_id (p_fds (poller s')) = map es_id (p_fds (poller s))
   \<and> client_heap s' = (client_heap s)(c := None) \<and> idle_clients s' = idle_clients s
   \<and> vt_view s' = (fst (vt_view s), (snd (vt_view s))(c := None))"
proof -
  let ?k = "k\<lparr>event_source := None\<rparr>" and ?p = "kill_source (event_source k) (poller s)"
  let ?t = "s\<lparr>poller := ?p, client_heap := (client_heap s)(c \<mapsto> ?k)\<rparr>"
  have 1: "(case event_source k of None \<Rightarrow> Some s
           | Some i \<Rightarrow> do {
               s \<leftarrow> event_source_fd_destroy i s;
               upd_client c (\<lambda>k. k\<lparr>event_source := None\<rparr>) s }) = Some ?t"
  proof (cases "event_source k")
    case None
    then have "s\<lparr>poller := ?p, client_heap := (client_heap s)(c \<mapsto> ?k)\<rparr> = s"
      using k(1) by (simp add: kill_source_def fun_upd_idem)
    with None show ?thesis by simp
  next
    case (Some i)
    with own obtain x where "find_fd i (poller s) = Some x" by (auto simp: own_source_def)
    with Some k(1) show ?thesis by (simp add: event_source_fd_destroy_def kill_source_def upd_client_def)
  qed
  from connection_close_fds_ok [OF k(2), of E ?t] obtain cn u where
      2: "connection_close_fds E (connection k) ?t = Some (cn, u)" and f: "os_frame ?t u" by blast
  note u = os_frame_sys [OF f]
  let ?s = "u\<lparr>client_heap := (client_heap u)(c := None)\<rparr>"
  have h: "client_heap ?s = (client_heap s)(c := None)" using u(7) by simp
  have o: "owners ?s = (owners s)(c := None)" unfolding owners_def h by auto
  have "graph {c} ?t" using graph_loose_upd [OF g, of c ?k] by (simp add: graph_def)
  then have "graph {c} u" using graph_os_frame [OF f] by simp
  then have "graph {} ?s" by (rule graph_free)
  moreover have "owners s c = Some (event_source k, conn_fd (connection k))" using k(1) by (simp add: owners_def)
  then have "sources_ok {} ?p (owners ?s)" unfolding o by (rule sources_ok_kill [OF p(2) own])
  moreover have "fresh_ok ?s" using p(3) u h by (auto simp: fresh_ok_def)
  ultimately have "server_inv ?s" using poller_ok_kill [OF p(1) own] u by (simp add: server_inv_def)
  moreover have "map es_id (p_fds (poller ?s)) = map es_id (p_fds (poller s))"
    using poller_ok_kill [OF p(1) own] u(1) by simp
  moreover have "vt_view ?s = (fst (vt_view s), (snd (vt_view s))(c := None))"
    using h u(6) by (auto simp: vt_view_def)
  ultimately show ?thesis using 1 2 k(3) u h o by simp
qed

lemma client_destroy_ok:
  assumes g: "graph {} s" and p: "poller_ok (poller s)" "sources_ok {c} (poller s) (owners s)" "fresh_ok s"
    and E: "send_progress E" and k: "client_heap s c = Some k" and own: "own_source (poller s) c (event_source k)"
    and call: "client_destroy E c s = Some s'"
  shows "destroyed E c s s'"
proof -
  let ?fd = "conn_fd (connection k)"
  let ?s0 = "if libseat_build E then s\<lparr>running := False\<rparr> else s"
  define s1 where "s1 = (if ?fd \<noteq> - 1 then sys_close E ?fd ?s0 else ?s0)"
  define k1 where "k1 = k\<lparr>connection := (connection k)\<lparr>conn_fd := - 1\<rparr>\<rparr>"
  define s2 where "s2 = s1\<lparr>client_heap := (client_heap s)(c \<mapsto> k1)\<rparr>"
  have f1: "os_frame ?s0 s1" by (simp add: s1_def sys_frames(2))
  have h1: "client_heap s1 = client_heap s" using os_frame_sys(7) [OF f1] by (simp split: if_splits)
  have s2: "poller s2 = poller s" "seats s2 = seats s" "next_addr s2 = next_addr s"
      "running s2 = (running s \<and> \<not> libseat_build E)" "client_heap s2 = (client_heap s)(c \<mapsto> k1)"
      "idle_clients s2 = idle_clients s"
    using os_frame_sys [OF f1] by (auto simp: s2_def split: if_splits)
  have conn: "conn_ok (connection k)" using graph_client_ok [OF g k] by (simp add: client_ok_def)
  have "graph {} s1" using g graph_os_frame [OF f1, of "{}"] by (auto simp: graph_def)
  moreover have "client_ok k1" using graph_client_ok [OF g k] by (simp add: client_ok_def k1_def conn_ok_def)
  ultimately have g2: "graph {} s2"
    unfolding s2_def h1 [symmetric] using k h1 by (intro graph_upd_client) (auto simp: cview_def k1_def)
  have o2: "owners s2 = (owners s)(c \<mapsto> (event_source k, - 1))"
    by (auto simp: owners_def s2(5) k1_def)
  have "(if ?fd \<noteq> - 1 then upd_client c (\<lambda>k. k\<lparr>connection := (connection k)\<lparr>conn_fd := - 1\<rparr>\<rparr>) (sys_close E ?fd ?s0) else Some ?s0)
      = Some s2"
    using h1 k by (auto simp: s1_def s2_def k1_def upd_client_def fun_upd_idem split: if_splits)
  with call k obtain t where
      rm: "(if c_seat k1 \<noteq> None then seat_remove_client E c s2 else Some s2) = Some t"
    and rest: "do {
     k \<leftarrow> client_heap (unlink_client c t) c;
     s \<leftarrow> (case event_source k of None \<Rightarrow> Some (unlink_client c t)
           | Some i \<Rightarrow> do {
               s \<leftarrow> event_source_fd_destroy i (unlink_client c t);
               upd_client c (\<lambda>k. k\<lparr>event_source := None\<rparr>) s });
     k \<leftarrow> client_heap s c;
     (cn, s) \<leftarrow> connection_close_fds E (connection k) s;
     oassert (c_devices k = []);
     Some (s\<lparr>client_heap := (client_heap s)(c := None)\<rparr>) } = Some s'"
    by (auto simp: client_destroy_def Let_def k1_def bind_eq_Some_conv)
  let ?u = "unlink_client c t"
  have k2: "client_heap s2 c = Some k1" by (simp add: s2(5))
  from detach_ok [OF g2 E k2 rm] obtain k' where u: "graph {c} ?u" "sys_frame s2 ?u" and
    k': "client_heap ?u c = Some k'" "c_devices k' = []" "client_id k' = client_id k1" "connection k' = connection k1"
    and idle: "set (idle_clients ?u) \<subseteq> set (idle_clients s2)"
    and vu: "vt_view ?u = (fst (vt_view s2), (snd (vt_view s2))(c \<mapsto> (None, c_session k1)))" by blast
  have "vt_view s1 = vt_view s" using vt_view_os_frame [OF f1] by (simp add: vt_view_def)
  then have "vt_view s2 = vt_view s" using k by (auto simp: s2_def vt_view_def k1_def)
  then have v: "fst (vt_view ?u) = fst (vt_view s)" "(snd (vt_view ?u))(c := None) = (snd (vt_view s))(c := None)" using vu by auto
  have o: "owners ?u = (owners s)(c \<mapsto> (event_source k, - 1))" using owners_sys_frame [OF u(2)] o2 by simp
  have pu: "poller ?u = poller s" using u(2) s2(1) by (simp add: sys_frame_def)
  have ev: "event_source k' = event_source k" using k'(3) by (simp add: client_id_def k1_def)
  have ow: "owners s c = Some (event_source k, ?fd)" using k by (simp add: owners_def)
  have "sources_ok {c} (poller ?u) (owners ?u)"
    using p(2) ow unfolding pu o by (fastforce simp: sources_ok_def callback_ok_def)
  moreover have "fresh_ok ?u"
    using p(3) u(2) k sys_frame_dom [OF u(2)] s2 by (auto simp: fresh_ok_def sys_frame_def)
  moreover have "conn_ok (connection k')" using conn k'(4) by (simp add: k1_def conn_ok_def)
  moreover have "own_source (poller ?u) c (event_source k')" using own ev pu by simp
  ultimately show ?thesis
    using client_destroy_finish [OF u(1) _ _ _ k'(1) _ k'(2), of E] p(1) pu rest k'(1) o u(2) s2 idle v
    by (auto simp: destroyed_def sys_frame_def)
qed


lemma client_destroy_inv:
  assumes inv: "server_inv s" and E: "send_progress E" and k: "client_heap s c = Some k"
    and call: "client_destroy E c s = Some s'"
  shows "destroyed E c s s'"
proof (rule client_destroy_ok [OF _ _ _ _ E k _ call])
  show "own_source (poller s) c (event_source k)"
    using server_inv_source [OF inv k] by (auto simp: own_source_def)
  show "sources_ok {c} (poller s) (owners s)" using inv by (auto simp: server_inv_def sources_ok_def)
qed (use inv in \<open>simp_all add: server_inv_def\<close>)

section \<open>The callback of a client\<close>

lemma client_on_writable_inv:
  assumes inv: "server_inv s" and E: "send_progress E" and k: "client_heap s c = Some k"
    and call: "client_on_writable E c s = Some (go, s')"
  shows "server_inv s' \<and> serve_frame s s' \<and> input s' c = input s c"
proof -
  from call obtain r s1 where fl: "client_conn_flush E c s = Some (r, s1)"
    by (auto simp: client_on_writable_def bind_eq_Some_conv)
  have g: "graph {} s" using inv by (simp add: server_inv_def)
  have "conn_ok (connection k)" using graph_client_ok [OF g k] by (simp add: client_ok_def)
  from client_conn_flush_step [OF E k this fl] have st: "conn_step c s s1" by simp
  then have f: "graph {} s1" "sys_frame s s1"
    using conn_step_graph [OF g] conn_step_within [of c s s1 UNIV UNIV] by (auto simp: within_def)
  then have inv1: "server_inv s1" "serve_frame s s1" "input s1 c = input s c"
    using server_inv_frame [OF inv] sys_frame_serve input_sys_frame by auto
  obtain cn where k1: "client_heap s1 c = Some (k\<lparr>connection := cn\<rparr>)" using conn_step_client [OF st k] by auto
  obtain i where i: "event_source (k\<lparr>connection := cn\<rparr>) = Some i" using server_inv_source [OF inv1(1) k1] by auto
  from event_source_update_inv [OF inv1(1) k1 i, of EVENT_READABLE] obtain s2 where
      "event_source_fd_update i EVENT_READABLE s1 = Some s2" "server_inv s2" "serve_frame s1 s2" "input s2 = input s1" by auto
  with call fl k1 i inv1 show ?thesis
    by (auto simp: client_on_writable_def split: if_splits intro: serve_frame_trans)
qed

lemma serve_frames_inv:
  assumes "server_inv s" and E: "send_progress E" and "client_heap s c = Some k"
    and "input s c = concat (map (\<lambda>(op, p). header_bytes op (length p) @ p) fs) @ rest"
    and "serve_frames E c fs s = Some (go, s')"
  shows "server_inv s' \<and> serve_frame s s' \<and> (go \<longrightarrow> input s' c = rest)"
  using assms(1,3,4,5)
proof (induction fs arbitrary: s k)
  case Nil
  have f: "os_frame s s'" using Nil(4) os_frame_errno [of s EAGAIN] by (auto split: if_splits)
  then have "sys_frame s s'" "graph {} s'"
    using Nil(1) graph_os_frame [OF f, of "{}"] os_frame_sys_frame by (auto simp: server_inv_def)
  then show ?case
    using Nil server_inv_frame [OF Nil(1), of s'] sys_frame_serve [of s s'] input_sys_frame [of s s'] by auto
next
  case (Cons f fs)
  obtain op p where f: "f = (op, p)" by force
  have len: "4 \<le> length (input s c)" using Cons.prems(3) f by simp
  obtain bs s1 where get: "client_get c 4 s = Some (Some bs, s1)"
    using client_get_eq [OF Cons.prems(1,2), of 4] len by auto
  have ok: "conn_ok (connection k)"
    using Cons.prems(1) graph_client_ok [OF _ Cons.prems(2)] by (auto simp: server_inv_def client_ok_def)
  from client_get_cases [OF Cons.prems(2) ok get] obtain cn where
      s1: "s1 = s\<lparr>client_heap := (client_heap s)(c \<mapsto> k\<lparr>connection := cn\<rparr>)\<rparr>"
    and cn: "conn_ok cn" "conn_fd cn = conn_fd (connection k)" "input s c = bs @ contents (conn_in cn)" "length bs = 4" by auto
  have i1: "input s1 c = drop 4 (input s c)" using cn(3,4) unfolding s1 by (simp add: input_def [of "s\<lparr>client_heap := _\<rparr>"])
  from set_connection_inv [OF Cons.prems(1,2) cn(1,2)] s1 have inv1: "server_inv s1" "serve_frame s s1" by auto
  have k1: "client_heap s1 c = Some (k\<lparr>connection := cn\<rparr>)" using s1 by simp
  from Cons.prems(4) get f obtain r s2 where op: "client_handle_opcode E c op (length p) s1 = Some (r, s2)"
    and rest: "(if r = - 1 then Some (False, s2) else serve_frames E c fs s2) = Some (go, s')"
    by (auto simp: bind_eq_Some_conv)
  note sv = client_handle_opcode_served [OF inv1(1) E k1 op]
  show ?case
  proof (cases "r = - 1")
    case True
    with sv rest inv1 show ?thesis by (auto simp: served_def intro: serve_frame_trans)
  next
    case False
    with sv have s2: "server_inv s2" "serve_frame s1 s2" "input s2 c = drop (length p) (input s1 c)"
      by (auto simp: served_def)
    then obtain k2 where k2: "client_heap s2 c = Some k2" using serve_frame_client [OF _ k1] by auto
    have "input s2 c = concat (map (\<lambda>(op, p). header_bytes op (length p) @ p) fs) @ rest"
      using s2(3) i1 Cons.prems(3) f by simp
    from Cons.IH [OF s2(1) k2 this] False rest inv1 s2 show ?thesis by (auto intro: serve_frame_trans)
  qed
qed

lemma message_loop_inv:
  assumes inv: "server_inv s" and E: "send_progress E" and k: "client_heap s c = Some k"
    and call: "message_loop E c s = Some (go, s')"
  shows "server_inv s' \<and> serve_frame s s' \<and> (go \<longrightarrow> input s' c = snd (frames (input s c)))"
  using serve_frames_inv [OF inv E k, of "fst (frames (input s c))" "snd (frames (input s c))"]
    frames_split [of "input s c"] call message_loop_eq [OF inv E k] by simp

lemma client_on_readable_inv:
  assumes inv: "server_inv s" and E: "send_progress E" "recv_bounded E" and k: "client_heap s c = Some k"
    and call: "client_on_readable E c s = Some (go, s')"
  shows "server_inv s' \<and> serve_frame s s'"
proof -
  from call k obtain len cn s1 where rd: "connection_read E (connection k) s = Some (len, cn, s1)"
    by (auto simp: client_on_readable_def bind_eq_Some_conv)
  have g: "graph {} s" using inv by (simp add: server_inv_def)
  have ok: "conn_ok (connection k)" using graph_client_ok [OF g k] by (simp add: client_ok_def)
  from connection_read_ok [OF ok E(2) rd] have cn: "conn_ok cn" "conn_fd cn = conn_fd (connection k)" and f: "os_frame s s1"
    by auto
  have k1: "client_heap s1 c = Some k" using os_frame_sys [OF f] k by simp
  have inv1: "server_inv s1" "serve_frame s s1"
    using server_inv_frame [OF inv os_frame_sys_frame [OF f]] graph_os_frame [OF f] g sys_frame_serve [OF os_frame_sys_frame [OF f]] by auto
  let ?s = "s1\<lparr>client_heap := (client_heap s1)(c \<mapsto> k\<lparr>connection := cn\<rparr>)\<rparr>"
  from set_connection_inv [OF inv1(1) k1 cn] have s2: "server_inv ?s" "serve_frame s ?s"
    using inv1(2) by (auto intro: serve_frame_trans)
  from call k rd k1 have "(if len = - 1 \<and> errno ?s \<noteq> EAGAIN then Some (False, ?s)
     else if len = 0 then Some (False, ?s) else message_loop E c ?s) = Some (go, s')"
    by (simp add: client_on_readable_def upd_client_def)
  with s2 message_loop_inv [OF s2(1) E(1), of c "k\<lparr>connection := cn\<rparr>"] show ?thesis
    by (auto split: if_splits intro: serve_frame_trans)
qed

text \<open>A callback serves its client or destroys it.\<close>

lemma client_handle_connection_inv:
  assumes inv: "server_inv s" and E: "send_progress E" "recv_bounded E" and k: "client_heap s c = Some k"
    and call: "client_handle_connection E m c s = Some (r, s')"
  shows "server_inv s' \<and> (r = 0 \<and> serve_frame s s' \<or> r = - 1 \<and> (\<exists>t. serve_frame s t \<and> destroyed E c t s'))"
proof -
  define body where "body = (if m AND EVENT_ERROR \<noteq> 0 then Some (False, s)
        else if m AND EVENT_HANGUP \<noteq> 0 then Some (False, s)
        else do {
          (go, s) \<leftarrow> (if m AND EVENT_WRITABLE \<noteq> 0 then client_on_writable E c s else Some (True, s));
          if \<not> go then Some (False, s)
          else if m AND EVENT_READABLE \<noteq> 0 then client_on_readable E c s else Some (True, s) })"
  from call obtain go t where b: "body = Some (go, t)"
    and rest: "(if go then Some (0, t) else do { s \<leftarrow> client_destroy E c t; Some (- 1, s) }) = Some (r, s')"
    unfolding client_handle_connection_def body_def [symmetric] by (auto simp: bind_eq_Some_conv)
  have t: "server_inv t \<and> serve_frame s t"
  proof (cases "m AND EVENT_ERROR \<noteq> 0 \<or> m AND EVENT_HANGUP \<noteq> 0")
    case True
    with b inv show ?thesis by (auto simp: body_def split: if_splits)
  next
    case False
    with b obtain go1 s1 where w: "(if m AND EVENT_WRITABLE \<noteq> 0 then client_on_writable E c s else Some (True, s)) = Some (go1, s1)"
      and rd: "(if \<not> go1 then Some (False, s1)
          else if m AND EVENT_READABLE \<noteq> 0 then client_on_readable E c s1 else Some (True, s1)) = Some (go, t)"
      unfolding body_def by (auto simp: bind_eq_Some_conv simp del: if_split split del: if_split)
    from w have s1: "server_inv s1" "serve_frame s s1"
      using client_on_writable_inv [OF inv E(1) k] inv by (auto split: if_splits)
    obtain k1 where "client_heap s1 c = Some k1" using serve_frame_client [OF s1(2) k] by auto
    with rd s1 client_on_readable_inv [OF s1(1) E] show ?thesis
      by (auto split: if_splits intro: serve_frame_trans)
  qed
  obtain k1 where k1: "client_heap t c = Some k1" using serve_frame_client [OF _ k] t by blast
  show ?thesis
  proof (cases go)
    case False
    with rest obtain s2 where "client_destroy E c t = Some s2" "s' = s2" "r = - 1" by (auto simp: bind_eq_Some_conv)
    with client_destroy_inv [OF _ E(1) k1] t show ?thesis by (auto simp: destroyed_def)
  qed (use rest t in auto)
qed

end
