(* ===== verification/Server_Inv.thy ===== *)
theory Server_Inv
  imports Client_Inv
begin

unbundle bit_operations_syntax

text \<open>
  The callbacks of \<open>seatd/server.c\<close> keep the invariant of the server, and with the interfaces of
  theory \<open>Poller\<close> so does every round of the event loop.
\<close>

section \<open>Signals\<close>

lemma server_get_seat_Some:
  "server_get_seat name s = Some (Some st) \<Longrightarrow> \<exists>x. seat_heap s st = Some x \<and> seat_name x = name"
  by (auto simp: server_get_seat_def dest: find_seat_Some)

lemma server_handle_vt_acq_frame:
  assumes g: "graph {} s" and E: "send_progress E" and call: "server_handle_vt_acq E s = Some (r, s')"
  shows "graph {} s' \<and> sys_frame s s'"
proof -
  from call obtain found where f: "server_get_seat ''seat0'' s = Some found"
    by (auto simp: server_handle_vt_acq_def bind_eq_Some_conv)
  show ?thesis
  proof (cases found)
    case None
    with f call g show ?thesis by (simp add: server_handle_vt_acq_def)
  next
    case (Some st)
    with f obtain x where x: "seat_heap s st = Some x" by (auto dest: server_get_seat_Some)
    from Some f call obtain r1 where "seat_vt_activate E st s = Some (r1, s')"
      by (auto simp: server_handle_vt_acq_def bind_eq_Some_conv)
    from seat_vt_activate_ok [OF g E x this] show ?thesis by (auto dest: within_sys_frame)
  qed
qed

lemma server_handle_vt_rel_frame:
  assumes g: "graph {} s" and E: "send_progress E" and call: "server_handle_vt_rel E s = Some (r, s')"
  shows "graph {} s' \<and> sys_frame s s'"
proof -
  from call obtain found where f: "server_get_seat ''seat0'' s = Some found"
    by (auto simp: server_handle_vt_rel_def bind_eq_Some_conv)
  show ?thesis
  proof (cases found)
    case None
    with f call g show ?thesis by (simp add: server_handle_vt_rel_def)
  next
    case (Some st)
    with f obtain x where x: "seat_heap s st = Some x" by (auto dest: server_get_seat_Some)
    from Some f call obtain r1 where "seat_vt_release E st s = Some (r1, s')"
      by (auto simp: server_handle_vt_rel_def bind_eq_Some_conv)
    from seat_vt_release_ok [OF g E x this] show ?thesis by (auto dest: within_sys_frame)
  qed
qed

text \<open>The invariant together with what the kernel is assumed to do.\<close>

definition server_ok :: "env \<Rightarrow> sys \<Rightarrow> bool" where
  "server_ok E s \<longleftrightarrow> send_progress E \<and> recv_bounded E \<and> server_inv s"

lemma server_inv_running [simp]: "server_inv (s\<lparr>running := b\<rparr>) = server_inv s"
  by (simp add: server_inv_def graph_def fresh_ok_def owners_def)

lemma call_signal_ok:
  assumes ok: "server_ok E s" and call: "call_signal E sig h s = Some (r, s')"
  shows "server_ok E s' \<and> poller s' = poller s"
proof -
  from ok have g: "graph {} s" and E: "send_progress E" and inv: "server_inv s"
    by (auto simp: server_ok_def server_inv_def)
  show ?thesis
  proof (cases h)
    case Server_handle_vt_rel
    with call have "server_handle_vt_rel E s = Some (r, s')" by (simp add: call_signal_def)
    from server_handle_vt_rel_frame [OF g E this] ok show ?thesis
      using server_inv_frame [OF inv] by (auto simp: server_ok_def sys_frame_def)
  next
    case Server_handle_vt_acq
    with call have "server_handle_vt_acq E s = Some (r, s')" by (simp add: call_signal_def)
    from server_handle_vt_acq_frame [OF g E this] ok show ?thesis
      using server_inv_frame [OF inv] by (auto simp: server_ok_def sys_frame_def)
  qed (use call ok in \<open>auto simp: call_signal_def server_handle_kill_def server_ok_def\<close>)
qed

lemma live_fds_signals [simp]: "live_fds (p\<lparr>p_signals := bs\<rparr>) = live_fds p"
  by (simp add: live_fds_def)

lemma find_fd_signals [simp]: "find_fd i (p\<lparr>p_signals := bs\<rparr>) = find_fd i p"
  by (simp add: find_fd_def)

lemma server_inv_signals:
  assumes "server_inv s" and "map ss_id bs = map ss_id (p_signals (poller s))"
    and "map ss_handler bs = map ss_handler (p_signals (poller s))"
  shows "server_inv (s\<lparr>poller := (poller s)\<lparr>p_signals := bs\<rparr>\<rparr>)"
proof -
  have ids: "ss_id ` set bs = ss_id ` set (p_signals (poller s))" "ss_handler ` set bs = ss_handler ` set (p_signals (poller s))"
    using assms(2,3) by (metis list.set_map)+
  have "\<forall>b \<in> set (p_signals (poller s)). ss_id b < p_supply (poller s)"
    using assms(1) by (simp add: server_inv_def poller_ok_def)
  then have 1: "\<forall>b \<in> set bs. ss_id b < p_supply (poller s)" using ids(1) by (metis image_iff)
  have "\<forall>b \<in> set (p_signals (poller s)). signal_ok b" using assms(1) by (simp add: server_inv_def sources_ok_def)
  then have 2: "\<forall>b \<in> set bs. signal_ok b" unfolding signal_ok_def using ids(2) by (metis image_iff)
  have "poller_ok ((poller s)\<lparr>p_signals := bs\<rparr>)"
    using assms(1,2) 1 unfolding server_inv_def poller_ok_def by auto
  moreover have "sources_ok {} ((poller s)\<lparr>p_signals := bs\<rparr>) (owners s)"
    using assms(1) 2 by (simp add: server_inv_def sources_ok_def source_of_def)
  ultimately show ?thesis using assms(1) by (simp add: server_inv_def fresh_ok_def)
qed

interpretation signals: signal_callbacks "call_signal E" "server_ok E" for E
proof
  fix s b i sig r s'
  assume ok: "server_ok E s"
  then show "poller_ok (poller s)" by (simp add: server_ok_def server_inv_def)
  have "map ss_id (map (\<lambda>b. if ss_id b = i then b\<lparr>ss_raised := False\<rparr> else b) bs) = map ss_id bs"
    "map ss_handler (map (\<lambda>b. if ss_id b = i then b\<lparr>ss_raised := False\<rparr> else b) bs) = map ss_handler bs"
    for bs :: "handler event_source_signal list" by simp_all
  with ok server_inv_signals show "server_ok E (s\<lparr>poller := (poller s)\<lparr>p_signals :=
      map (\<lambda>b. if ss_id b = i then b\<lparr>ss_raised := False\<rparr> else b) (p_signals (poller s))\<rparr>\<rparr>)"
    unfolding server_ok_def by blast
  assume "call_signal E sig (ss_handler b) s = Some (r, s')"
  from call_signal_ok [OF ok this] show "server_ok E s' \<and> map ss_id (p_signals (poller s')) = map ss_id (p_signals (poller s))
      \<and> map es_id (p_fds (poller s')) = map es_id (p_fds (poller s))" by simp
qed

lemma signal_handler_inv: "server_inv s \<Longrightarrow> server_inv (signal_handler E sig s)"
proof (cases "global_poller s")
  case True
  assume inv: "server_inv s"
  let ?f = "map (\<lambda>b. if ss_signal b = sig then b\<lparr>ss_raised := True\<rparr> else b)"
  let ?s = "s\<lparr>poller := (poller s)\<lparr>p_signals := ?f (p_signals (poller s))\<rparr>\<rparr>"
  have "map ss_id (?f bs) = map ss_id bs" "map ss_handler (?f bs) = map ss_handler bs"
    for bs :: "handler event_source_signal list" by simp_all
  with inv have inv': "server_inv ?s" by (intro server_inv_signals) blast+
  obtain r t where t: "sys_write E (snd (signal_fds (poller ?s))) [0] ?s = (r, t)" by force
  then have "os_frame ?s t" using sys_frames(14) [of ?s E "snd (signal_fds (poller ?s))" "[0]"] by simp
  then have f: "os_frame ?s (t\<lparr>errno := errno s\<rparr>)" by simp
  have "signal_handler E sig s = t\<lparr>errno := errno s\<rparr>" using True t by (simp add: signal_handler_def Let_def)
  with server_inv_os_frame [OF inv' f] show ?thesis by simp
qed (simp add: signal_handler_def)


section \<open>New connections\<close>

lemma set_nonblock_frame: "os_frame s (snd (set_nonblock E fd s))"
proof -
  have step: "os_frame s t" if "sys_fcntl E fd c u = (r, t)" "os_frame s u" for c u r t
    using that sys_frames(6) [of u E fd c] by (auto intro: os_frame_trans)
  show ?thesis
    by (auto simp: set_nonblock_def Let_def split: prod.splits dest!: step)
qed

lemma get_peer_frame: "os_frame s (snd (get_peer E fd s))"
proof -
  obtain r t where "sys_getpeer E fd s = (r, t)" by force
  moreover from this have "os_frame s t" using sys_frames(7) [of s E fd] by simp
  ultimately show ?thesis
    by (auto simp: get_peer_def split: platform.splits sum.splits)
qed

lemma zero_connection_ok: "conn_ok (zero_connection fd)"
  by (simp add: conn_ok_def zero_connection_def zero_buffer_def cb_ok_def connection_buffer_size_def)

definition new_client :: "int \<Rightarrow> int \<Rightarrow> int \<Rightarrow> int \<Rightarrow> client" where
  "new_client fd pid uid gid = \<lparr>event_source = None, connection = zero_connection fd, c_pid = pid, c_uid = uid,
     c_gid = gid, c_seat = None, c_session = - 1, c_state = CLIENT_NEW, c_devices = []\<rparr>"

lemma new_client_ok: "client_ok (new_client fd pid uid gid)"
  by (simp add: client_ok_def new_client_def zero_connection_ok devices_ok_def)

lemma client_create_cases:
  assumes call: "client_create E fd s = (r, s')"
  shows "r = None \<and> os_frame s s' \<or> (\<exists>t pid uid gid. r = Some (next_addr s) \<and> os_frame s t
    \<and> s' = t\<lparr>next_addr := Suc (next_addr s), idle_clients := next_addr s # idle_clients s,
        client_heap := (client_heap s)(next_addr s \<mapsto> new_client fd pid uid gid)\<rparr>)"
proof -
  obtain peer s1 where 1: "get_peer E fd s = (peer, s1)" by force
  have f1: "os_frame s s1" using get_peer_frame [of s E fd] 1 by simp
  show ?thesis
  proof (cases peer)
    case None
    with call 1 f1 show ?thesis by (simp add: client_create_def)
  next
    case (Some ids)
    obtain pid uid gid where ids: "ids = (pid, uid, gid)" by (cases ids)
    obtain ok s2 where 2: "sys_alloc E s1 = (ok, s2)" by force
    have f2: "os_frame s s2" using sys_alloc_frame [of s1 E] 2 f1 by (auto intro: os_frame_trans)
    note u = os_frame_sys [OF f2]
    from call 1 2 Some ids f2 u show ?thesis
      by (cases ok) (auto simp: client_create_def Let_def new_client_def)
  qed
qed

text \<open>A new client without a source yet.\<close>

lemma create_inv:
  fixes fd pid uid gid
  assumes inv: "server_inv s"
  defines "c \<equiv> next_addr s"
  defines "s' \<equiv> s\<lparr>next_addr := Suc c, idle_clients := c # idle_clients s,
      client_heap := (client_heap s)(c \<mapsto> new_client fd pid uid gid)\<rparr>"
  shows "graph {} s'" and "sources_ok {c} (poller s') (owners s')" and "fresh_ok s'"
    and "owners s' = (owners s)(c \<mapsto> (None, fd))"
proof -
  let ?k = "new_client fd pid uid gid"
  have new: "client_heap s c = None" using inv by (force simp: server_inv_def fresh_ok_def c_def)
  have g: "graph {} s" using inv by (simp add: server_inv_def)
  let ?t = "s\<lparr>client_heap := (client_heap s)(c \<mapsto> ?k)\<rparr>"
  have "graph {c} ?t" using graph_loose_upd [OF graph_fresh [OF g new]] by simp
  then have "graph {} (?t\<lparr>idle_clients := c # idle_clients ?t\<rparr>)"
    by (rule graph_settle_idle [where k = ?k]) (simp_all add: new_client_ok, simp add: new_client_def)
  then show "graph {} s'" by (simp add: graph_def s'_def)
  show o: "owners s' = (owners s)(c \<mapsto> (None, fd))"
    by (auto simp: owners_def s'_def new_client_def zero_connection_def)
  have "owners s c = None" using new by (simp add: owners_def)
  then show "sources_ok {c} (poller s') (owners s')"
    using inv unfolding o by (auto simp: server_inv_def sources_ok_def s'_def intro: callback_ok_upd)
  show "fresh_ok s'" using inv by (auto simp: server_inv_def fresh_ok_def s'_def c_def less_Suc_eq)
qed

lemma sources_ok_add:
  assumes ok: "sources_ok {c} p W" and W: "W c = Some (None, fd)"
    and i: "i \<notin> es_id ` set (p_fds p)" and sig: "p_signals q = p_signals p"
    and q: "p_fds q = \<lparr>es_id = i, es_handler = Client_handle_connection c, es_fd = fd, es_mask = m,
      es_killed = False, es_pollfd_idx = - 1\<rparr> # p_fds p"
  shows "sources_ok {} q (W(c \<mapsto> (Some i, fd)))"
proof -
  have f: "find_fd j q = (if j = i then Some \<lparr>es_id = i, es_handler = Client_handle_connection c, es_fd = fd,
      es_mask = m, es_killed = False, es_pollfd_idx = - 1\<rparr> else find_fd j p)" for j
    by (auto simp: find_fd_def q)
  have "source_of q c' v" if v: "(W(c \<mapsto> (Some i, fd))) c' = Some v" for c' v
  proof (cases "c' = c")
    case True
    with v f show ?thesis by (auto simp: source_of_def)
  next
    case False
    with v have "source_of p c' v" using sources_okD [OF ok] by auto
    then obtain j x where x: "fst v = Some j" "find_fd j p = Some x" "\<not> es_killed x"
        "es_handler x = Client_handle_connection c'" "es_fd x = snd v" by (auto simp: source_of_def)
    have "j \<noteq> i" using find_fd_Some [OF x(2)] i by auto
    with x f show ?thesis by (auto simp: source_of_def)
  qed
  moreover have "callback_ok (W(c \<mapsto> (Some i, fd))) x" if "x \<in> set (p_fds p)" for x
    using ok that W by (intro callback_ok_upd) (auto simp: sources_ok_def)
  moreover have "callback_ok (W(c \<mapsto> (Some i, fd))) (hd (p_fds q))" by (simp add: callback_ok_def q)
  ultimately show ?thesis using ok unfolding sources_ok_def sig q by auto
qed

lemma poller_add_fd_frame:
  assumes "poller_add_fd E fd m h s = (r, s')"
  shows "\<exists>t. os_frame s t \<and> s' = t\<lparr>poller := poller s'\<rparr> \<and> p_signals (poller s') = p_signals (poller s)"
proof -
  obtain ok s1 where a: "sys_alloc E s = (ok, s1)" by force
  have f: "os_frame s s1" using sys_alloc_frame [of s E] a by simp
  with a assms os_frame_poller [OF f] show ?thesis
    by (cases ok) (auto simp: poller_add_fd_def Let_def intro!: exI [of _ s1])
qed


lemma add_source_inv:
  assumes inv: "server_inv s" and E: "send_progress E"
  defines "c \<equiv> next_addr s"
  assumes s2: "s2 = s\<lparr>next_addr := Suc c, idle_clients := c # idle_clients s,
      client_heap := (client_heap s)(c \<mapsto> new_client fd pid uid gid)\<rparr>"
    and add_fd: "poller_add_fd E fd EVENT_READABLE (Client_handle_connection c) s2 = (src, s3)"
    and rest: "do { s \<leftarrow> upd_client c (\<lambda>k. k\<lparr>event_source := src\<rparr>) s3;
      if src = None then do { s \<leftarrow> client_destroy E c s; Some (- 1, s) } else Some (0, s) } = Some (r, s')"
  shows "server_inv s' \<and> (\<exists>new. map es_id (p_fds (poller s')) = new @ map es_id (p_fds (poller s)))"
proof -
  let ?k = "new_client fd pid uid gid"
  have new: "graph {} s2" "sources_ok {c} (poller s2) (owners s2)" "fresh_ok s2" "owners s2 = (owners s)(c \<mapsto> (None, fd))"
    unfolding s2 c_def by (rule create_inv [OF inv])+
  have p: "poller s2 = poller s" and pok: "poller_ok (poller s2)" using inv s2 by (auto simp: server_inv_def)
  from poller_add_fd_frame [OF add_fd] obtain u where fu: "os_frame s2 u" and s3: "s3 = u\<lparr>poller := poller s3\<rparr>"
    and sig: "p_signals (poller s3) = p_signals (poller s2)" by blast
  note add = poller_add_fd_ok [OF pok add_fd]
  have h3: "client_heap s3 = client_heap s2" "seats s3 = seats s2" "next_addr s3 = next_addr s2"
      "idle_clients s3 = idle_clients s2" "seat_heap s3 = seat_heap s2"
    using os_frame_sys [OF fu] by (subst s3, simp)+
  have k: "client_heap s3 c = Some ?k" using h3(1) s2 by simp
  let ?s = "s3\<lparr>client_heap := (client_heap s3)(c \<mapsto> ?k\<lparr>event_source := src\<rparr>)\<rparr>"
  have g: "graph {} s3" using new(1) h3 by (simp add: graph_def)
  have rest: "(if src = None then do { s \<leftarrow> client_destroy E c ?s; Some (- 1, s) } else Some (0, ?s)) = Some (r, s')"
    using rest k by (simp add: upd_client_def)
  show ?thesis
  proof (cases src)
    case None
    then have "?s = s3" using k by (simp add: new_client_def fun_upd_idem)
    with rest None have d: "client_destroy E c s3 = Some s'" by (auto simp: bind_eq_Some_conv)
    have p3: "poller s3 = poller s2" using add(2) None by simp
    have "destroyed E c s3 s'"
    proof (rule client_destroy_ok [OF g _ _ _ E k _ d])
      show "sources_ok {c} (poller s3) (owners s3)" using new(2) h3(1) p3 by (simp add: owners_def)
      show "fresh_ok s3" using new(3) h3 by (simp add: fresh_ok_def)
      show "own_source (poller s3) c (event_source ?k)" by (simp add: own_source_def new_client_def)
    qed (use pok p3 in simp)
    with p p3 show ?thesis by (auto simp: destroyed_def)
  next
    case (Some i)
    with rest have s': "s' = ?s" by simp
    have "owners s2 c = Some (None, fd)" using new(4) by simp
    with sources_ok_add [OF new(2) _ _ sig] add(2) Some
    have "sources_ok {} (poller s3) ((owners s2)(c \<mapsto> (Some i, fd)))" by auto
    moreover have "owners ?s = (owners s2)(c \<mapsto> (Some i, fd))"
      using Some h3(1) by (auto simp: owners_def new_client_def zero_connection_def)
    moreover have "graph {} ?s" using g k
      by (rule graph_upd_client) (use new_client_ok [of fd pid uid gid] in \<open>auto simp: cview_def client_ok_def\<close>)
    moreover have "fresh_ok ?s" using new(3) h3 k by (auto simp: fresh_ok_def)
    ultimately have "server_inv ?s" using add(1) by (simp add: server_inv_def)
    with s' add(2) Some p show ?thesis by auto
  qed
qed

lemma server_add_client_inv:
  assumes inv: "server_inv s" and E: "send_progress E" and call: "server_add_client E fd s = Some (r, s')"
  shows "server_inv s' \<and> (\<exists>new. map es_id (p_fds (poller s')) = new @ map es_id (p_fds (poller s)))"
proof -
  obtain r1 s1 where 1: "set_nonblock E fd s = (r1, s1)" by force
  have f1: "os_frame s s1" using set_nonblock_frame [of s E fd] 1 by simp
  have frame: "server_inv t \<and> poller t = poller s" if "os_frame s t" for t
    using server_inv_os_frame [OF inv that] os_frame_sys(1) [OF that] by simp
  show ?thesis
  proof (cases "r1 = 0")
    case False
    then have "s' = sys_close E fd s1" using call 1 by (simp add: server_add_client_def)
    with frame [OF os_frame_trans [OF f1 sys_frames(2)]] show ?thesis by auto
  next
    case True
    obtain r2 s2 where 2: "client_create E fd s1 = (r2, s2)" by force
    from client_create_cases [OF 2] show ?thesis
    proof (elim disjE conjE exE)
      assume "r2 = None" "os_frame s1 s2"
      then have "s' = sys_close E fd s2" using call 1 2 True by (simp add: server_add_client_def)
      moreover have "os_frame s (sys_close E fd s2)"
        by (rule os_frame_trans [OF os_frame_trans [OF f1 \<open>os_frame s1 s2\<close>] sys_frames(2)])
      ultimately show ?thesis using frame [of s'] by simp
    next
      fix t pid uid gid
      assume r2: "r2 = Some (next_addr s1)" and f: "os_frame s1 t"
        and s2: "s2 = t\<lparr>next_addr := Suc (next_addr s1), idle_clients := next_addr s1 # idle_clients s1,
          client_heap := (client_heap s1)(next_addr s1 \<mapsto> new_client fd pid uid gid)\<rparr>"
      have t: "server_inv t" "poller t = poller s" using frame [OF os_frame_trans [OF f1 f]] by auto
      obtain src s3 where 3: "poller_add_fd E fd EVENT_READABLE (Client_handle_connection (next_addr s1)) s2 = (src, s3)" by force
      have s1: "next_addr s1 = next_addr t" "idle_clients s1 = idle_clients t" "client_heap s1 = client_heap t"
        using os_frame_sys [OF f] by auto
      have "do { s \<leftarrow> upd_client (next_addr t) (\<lambda>k. k\<lparr>event_source := src\<rparr>) s3;
          if src = None then do { s \<leftarrow> client_destroy E (next_addr t) s; Some (- 1, s) } else Some (0, s) } = Some (r, s')"
        using call 1 2 True r2 3 unfolding s1 by (simp add: server_add_client_def)
      with add_source_inv [OF t(1) E s2 [unfolded s1] 3 [unfolded s1]] t(2) show ?thesis by simp
    qed
  qed
qed

lemma server_handle_connection_inv:
  assumes inv: "server_inv s" and E: "send_progress E" and call: "server_handle_connection E fd m s = Some (r, s')"
  shows "server_inv s' \<and> (\<exists>new. map es_id (p_fds (poller s')) = new @ map es_id (p_fds (poller s)))"
proof -
  obtain nfd s1 where a: "sys_accept E fd s = (nfd, s1)" by force
  have f: "os_frame s s1" using sys_frames(8) [of s E fd] a by simp
  have s1: "server_inv s1" "poller s1 = poller s" using server_inv_os_frame [OF inv f] os_frame_sys(1) [OF f] by auto
  have sd: "server_inv (sys_shutdown E fd s)" "poller (sys_shutdown E fd s) = poller s"
    using server_inv_os_frame [OF inv sys_frames(9)] os_frame_sys(1) [OF sys_frames(9)] by auto
  show ?thesis
    using call a s1 sd inv server_add_client_inv [OF s1(1) E, of nfd]
    by (auto simp: server_handle_connection_def bind_eq_Some_conv split: if_splits)
qed

interpretation fds: fd_callbacks "call_fd E" "server_ok E" for E
proof
  fix s x fd m r s'
  assume ok: "server_ok E s"
  then show "poller_ok (poller s)" by (simp add: server_ok_def server_inv_def)
  assume x: "x \<in> set (p_fds (poller s))" "\<not> es_killed x" and call: "call_fd E fd m (es_handler x) s = Some (r, s')"
  from ok have inv: "server_inv s" and E: "send_progress E" "recv_bounded E" by (auto simp: server_ok_def)
  from x inv have cb: "callback_ok (owners s) x" by (simp add: server_inv_def sources_ok_def)
  with x(2) consider "es_handler x = Server_handle_connection"
    | c k where "es_handler x = Client_handle_connection c" "client_heap s c = Some k"
    by (auto simp: callback_ok_def owners_def)
  then have "server_inv s' \<and> (\<exists>new. map es_id (p_fds (poller s')) = new @ map es_id (p_fds (poller s)))"
  proof cases
    case 1
    with call server_handle_connection_inv [OF inv E(1)] show ?thesis by (simp add: call_fd_def)
  next
    case 2
    with call have "client_handle_connection E m c s = Some (r, s')" by (simp add: call_fd_def)
    from client_handle_connection_inv [OF inv E 2(2) this] show ?thesis
      by (auto simp: destroyed_def serve_frame_def)
  qed
  with ok show "server_ok E s'" "\<exists>new. map es_id (p_fds (poller s')) = new @ map es_id (p_fds (poller s))"
    by (auto simp: server_ok_def)
qed

section \<open>A round of the event loop\<close>

lemma find_fd_iff:
  assumes "distinct (map es_id (p_fds p))"
  shows "find_fd i p = Some x \<longleftrightarrow> x \<in> set (p_fds p) \<and> es_id x = i"
proof
  assume x: "x \<in> set (p_fds p) \<and> es_id x = i"
  then obtain y where y: "find_fd i p = Some y" using find_fd_exists [of i p] by auto
  then have "y \<in> set (p_fds p)" "es_id y = i" using find_fd_Some by auto
  with x assms have "y = x" by (metis distinct_map inj_onD)
  with y show "find_fd i p = Some x" by simp
qed (use find_fd_Some in auto)

lemma number_from_mem: "x \<in> set xs \<Longrightarrow> \<exists>j. x\<lparr>es_pollfd_idx := j\<rparr> \<in> set (number_from n xs)"
  by (induction xs arbitrary: n) fastforce+

lemma sources_ok_regenerate:
  assumes ok: "sources_ok L p W" and p: "poller_ok p" "poller_ok q"
    and q: "p_fds q = number_from 1 (live_fds p)" "set (p_signals q) \<subseteq> set (p_signals p)"
  shows "sources_ok L q W"
proof -
  have d: "distinct (map es_id (p_fds q))" using p(2) by (simp add: poller_ok_def)
  have "source_of q c v" if "W c = Some v" "c \<notin> L" for c v
  proof -
    from sources_okD [OF ok that] obtain i x where x: "fst v = Some i" "find_fd i p = Some x" "\<not> es_killed x"
        "es_handler x = Client_handle_connection c" "es_fd x = snd v" by (auto simp: source_of_def)
    from find_fd_Some [OF x(2)] x(3) have "x \<in> set (live_fds p)" and i: "es_id x = i" by (auto simp: live_fds_def)
    then obtain j where "x\<lparr>es_pollfd_idx := j\<rparr> \<in> set (p_fds q)" using number_from_mem q(1) by metis
    then have "find_fd i q = Some (x\<lparr>es_pollfd_idx := j\<rparr>)" using find_fd_iff [OF d] i by simp
    with x show ?thesis by (auto simp: source_of_def)
  qed
  moreover have "callback_ok W x" if "x \<in> set (p_fds q)" for x
  proof -
    from that q(1) obtain y j where "y \<in> set (live_fds p)" "x = y\<lparr>es_pollfd_idx := j\<rparr>"
      by (auto dest: number_from_elem)
    then show ?thesis using ok by (auto simp: sources_ok_def callback_ok_def live_fds_def)
  qed
  ultimately show ?thesis using ok q(2) unfolding sources_ok_def by blast
qed

lemma regenerate_inv:
  assumes inv: "server_inv s" and call: "regenerate E s = Some (r, s')"
  shows "server_inv s'"
proof -
  let ?p = "poller s"
  have p: "poller_ok ?p" using inv by (simp add: server_inv_def)
  have p': "poller_ok (poller s')" by (rule regenerate_ok(1) [OF p call])
  from regenerate_cases [OF p, of E] show ?thesis
  proof (elim disjE exE conjE)
    fix s1 assume "regenerate E s = Some (- 1, s1)" "os_frame s s1"
    with call server_inv_os_frame [OF inv] show ?thesis by simp
  next
    fix s1 rest assume f: "os_frame s s1" and "regenerate E s = Some (0, s1\<lparr>poller := ?p\<lparr>p_fds := number_from 1 (live_fds ?p),
          pollfds := \<lparr>pfd_fd = fst (signal_fds ?p), pfd_events = POLLIN, pfd_revents = 0\<rparr>
            # map pollfd_of (live_fds ?p) @ rest,
          p_signals := filter (\<lambda>b. \<not> ss_killed b) (p_signals ?p)\<rparr>\<rparr>)"
    with call have s': "s' = s1\<lparr>poller := poller s'\<rparr>" and q: "p_fds (poller s') = number_from 1 (live_fds ?p)"
      "set (p_signals (poller s')) \<subseteq> set (p_signals ?p)" by auto
    have inv1: "server_inv s1" by (rule server_inv_os_frame [OF inv f])
    have "sources_ok {} (poller s) (owners s1)" using inv1 os_frame_sys(1) [OF f] by (simp add: server_inv_def)
    from sources_ok_regenerate [OF this p p' q] have "sources_ok {} (poller s') (owners s1)" .
    with inv1 p' have "server_inv (s1\<lparr>poller := poller s'\<rparr>)" by (simp add: server_inv_def fresh_ok_def)
    with s' show ?thesis by simp
  qed
qed

lemma length_set_revents [simp]: "length (set_revents rs ps) = length ps"
  by (induction rs ps rule: set_revents.induct) auto

lemma server_inv_pollfds:
  assumes "server_inv s" and "length fs = length (pollfds (poller s))"
  shows "server_inv (s\<lparr>poller := (poller s)\<lparr>pollfds := fs\<rparr>\<rparr>)"
proof -
  have "poller_ok ((poller s)\<lparr>pollfds := fs\<rparr>)"
    using assms unfolding server_inv_def poller_ok_def live_fds_def by auto
  moreover have "sources_ok {} ((poller s)\<lparr>pollfds := fs\<rparr>) (owners s)"
    using assms(1) by (simp add: server_inv_def sources_ok_def source_of_def find_fd_def)
  ultimately show ?thesis using assms(1) by (simp add: server_inv_def fresh_ok_def)
qed

lemma server_inv_clean:
  assumes "server_inv s" and "fd_event_sources (poller s) \<le> length (pollfds (poller s))"
  shows "server_inv (s\<lparr>poller := (poller s)\<lparr>dirty := False\<rparr>\<rparr>)"
proof -
  have "poller_ok ((poller s)\<lparr>dirty := False\<rparr>)"
    using assms unfolding server_inv_def poller_ok_def live_fds_def by auto
  moreover have "sources_ok {} ((poller s)\<lparr>dirty := False\<rparr>) (owners s)"
    using assms(1) by (simp add: server_inv_def sources_ok_def source_of_def find_fd_def)
  ultimately show ?thesis using assms(1) by (simp add: server_inv_def fresh_ok_def)
qed

lemma first_elem_map: "first_elem key xs = first_elem (\<lambda>a. a) (map key xs)"
  by (cases xs) (simp_all add: first_elem_def)

lemma dispatch_eq:
  assumes "server_ok E s"
  shows "dispatch_signals (call_signal E) (first_elem ss_id (p_signals (poller s))) s
      = dispatch_each (dispatch_signal (call_signal E)) (map ss_id (p_signals (poller s))) s"
    and "dispatch_fds (call_fd E) (first_elem es_id (p_fds (poller s))) s
      = dispatch_each (dispatch_fd (call_fd E)) (map es_id (p_fds (poller s))) s"
  using signals.dispatch_signals_each [OF assms, of "[]"] fds.dispatch_fds_each [OF assms, of "[]"]
  by (simp_all add: first_elem_map [of ss_id] first_elem_map [of es_id])

lemma server_ok_os_frame: "server_ok E s \<Longrightarrow> os_frame s t \<Longrightarrow> server_ok E t"
  using server_inv_os_frame by (auto simp: server_ok_def)

lemma dispatch_inv:
  assumes ok: "server_ok E s" and call: "dispatch E (call_signal E) (call_fd E) s = Some s'"
  shows "server_ok E s'"
proof -
  from call obtain p0 t where "nth_opt (pollfds (poller s)) 0 = Some p0"
    and sig: "(if pfd_revents p0 AND POLLIN \<noteq> 0 then do {
             s \<leftarrow> drain_signals E (fst (signal_fds (poller s))) s;
             dispatch_signals (call_signal E) (first_elem ss_id (p_signals (poller s))) s }
           else Some s) = Some t"
    and fds: "dispatch_fds (call_fd E) (first_elem es_id (p_fds (poller t))) t = Some s'"
    by (auto simp: dispatch_def bind_eq_Some_conv simp del: if_split split del: if_split)
  have t: "server_ok E t"
  proof (cases "pfd_revents p0 AND POLLIN \<noteq> 0")
    case True
    with sig obtain u where u: "drain_signals E (fst (signal_fds (poller s))) s = Some u"
      and d: "dispatch_signals (call_signal E) (first_elem ss_id (p_signals (poller u))) u = Some t"
      by (auto simp: bind_eq_Some_conv)
    have "server_ok E u" by (rule server_ok_os_frame [OF ok drain_signals_frame [OF u]])
    with d signals.dispatch_signals_inv show ?thesis by (metis dispatch_eq(1))
  qed (use sig ok in simp)
  with fds fds.dispatch_each_inv show ?thesis by (metis dispatch_eq(2))
qed

lemma poller_poll_inv:
  assumes ok: "server_ok E s" and call: "poller_poll E (call_signal E) (call_fd E) s = Some (r, s')"
  shows "server_ok E s'"
proof -
  from call obtain r1 s1 where g: "(if dirty (poller s) then regenerate E s else Some (0, s)) = Some (r1, s1)"
    by (auto simp: poller_poll_def bind_eq_Some_conv simp del: if_split split del: if_split)
  have 1: "server_ok E s1" using ok g regenerate_inv [of s E] by (auto simp: server_ok_def split: if_splits)
  show ?thesis
  proof (cases "r1 = - 1")
    case True
    with call g 1 show ?thesis by (auto simp: poller_poll_def)
  next
    case False
    let ?s = "s1\<lparr>poller := (poller s1)\<lparr>dirty := False\<rparr>\<rparr>"
    from call g False obtain q t where len: "fd_event_sources (poller s1) \<le> length (pollfds (poller s1))"
      and pl: "poll_retry E (map (\<lambda>q. (pfd_fd q, pfd_events q)) (take (fd_event_sources (poller s1)) (pollfds (poller s1)))) ?s = Some (q, t)"
      and rest: "(case q of Inl _ \<Rightarrow> Some (- 1, t)
        | Inr rs \<Rightarrow> do {
            let s = t\<lparr>poller := (poller t)\<lparr>pollfds := set_revents rs (pollfds (poller t))\<rparr>\<rparr>;
            s \<leftarrow> dispatch E (call_signal E) (call_fd E) s;
            Some (0, s) }) = Some (r, s')"
      by (auto simp: poller_poll_def bind_eq_Some_conv Let_def)
    have "server_ok E ?s" using 1 server_inv_clean [OF _ len] by (simp add: server_ok_def)
    then have t: "server_ok E t" using server_ok_os_frame poll_retry_frame [OF pl] by blast
    show ?thesis
    proof (cases q)
      case (Inl e)
      with rest t show ?thesis by simp
    next
      case (Inr rs)
      have "server_ok E (t\<lparr>poller := (poller t)\<lparr>pollfds := set_revents rs (pollfds (poller t))\<rparr>\<rparr>)"
        using t server_inv_pollfds [of t] by (simp add: server_ok_def)
      with rest Inr dispatch_inv show ?thesis by (auto simp: Let_def bind_eq_Some_conv)
    qed
  qed
qed

section \<open>Start\<close>

lemma poller_add_signal_inv:
  assumes inv: "server_inv s" and call: "poller_add_signal E sig h s = (r, s')"
    and h: "h \<in> {Server_handle_vt_rel, Server_handle_vt_acq, Server_handle_kill}"
  shows "server_inv s' \<and> seats s' = seats s \<and> seat_heap s' = seat_heap s \<and> client_heap s' = client_heap s
    \<and> idle_clients s' = idle_clients s \<and> p_fds (poller s') = p_fds (poller s)"
proof -
  obtain ok s1 where a: "sys_alloc E s = (ok, s1)" by force
  have f: "os_frame s s1" using sys_alloc_frame [of s E] a by simp
  show ?thesis
  proof (cases ok)
    case False
    with call a server_inv_os_frame [OF inv f] os_frame_sys [OF f] show ?thesis by (auto simp: poller_add_signal_def)
  next
    case True
    let ?s2 = "sys_sigaction sig True s1"
    have f2: "os_frame s ?s2" using f sys_sigaction_frame by (rule os_frame_trans)
    have inv2: "server_inv ?s2" by (rule server_inv_os_frame [OF inv f2])
    let ?p = "poller ?s2"
    let ?b = "\<lparr>ss_id = p_supply ?p, ss_handler = h, ss_signal = sig, ss_raised = False, ss_killed = False\<rparr>"
    let ?q = "?p\<lparr>p_signals := ?b # p_signals ?p, p_supply := Suc (p_supply ?p)\<rparr>"
    have "poller_ok ?q" using inv2 unfolding server_inv_def poller_ok_def live_fds_def
      by (auto simp: less_Suc_eq)
    moreover have "sources_ok {} ?q (owners ?s2)"
      using inv2 h by (auto simp: server_inv_def sources_ok_def source_of_def find_fd_def signal_ok_def)
    ultimately have "server_inv (?s2\<lparr>poller := ?q\<rparr>)" using inv2 by (simp add: server_inv_def fresh_ok_def)
    with call a True os_frame_sys [OF f2] show ?thesis by (auto simp: poller_add_signal_def Let_def)
  qed
qed

lemma add_signals_inv:
  assumes "server_inv s" and "\<forall>(sig, h) \<in> set hs. h \<in> {Server_handle_vt_rel, Server_handle_vt_acq, Server_handle_kill}"
    and "add_signals E hs s = (ok, s')"
  shows "server_inv s' \<and> seats s' = seats s \<and> seat_heap s' = seat_heap s \<and> client_heap s' = client_heap s
    \<and> idle_clients s' = idle_clients s \<and> p_fds (poller s') = p_fds (poller s)"
  using assms
proof (induction hs arbitrary: s)
  case (Cons x hs)
  obtain sig h where x: "x = (sig, h)" by force
  obtain r s1 where 1: "poller_add_signal E sig h s = (r, s1)" by force
  with poller_add_signal_inv [OF Cons.prems(1) 1] Cons x show ?case by (auto split: if_splits)
qed simp

lemma graph_new_seat:
  assumes inv: "server_inv s" and x: "s_clients x = []" "active_client x = None" "next_client x = None" "session_cnt x = 0"
  defines "st \<equiv> next_addr s"
  shows "server_inv (s\<lparr>next_addr := Suc st, seat_heap := (seat_heap s)(st \<mapsto> x), seats := st # seats s\<rparr>)"
proof -
  let ?V = "view (client_heap s)"
  have new: "st \<notin> set (seats s)" using inv by (auto simp: server_inv_def fresh_ok_def st_def)
  have sh: "shape_ok {} (seats s) (idle_clients s) (seat_heap s) ?V" using inv by (simp add: server_inv_def graph_def)
  have none: "seat_heap s st = None" using sh new by (auto simp: shape_ok_def)
  have m: "members ((seat_heap s)(st \<mapsto> x)) st' = members (seat_heap s) st'" for st'
    using none x(1) by (simp add: members_def)
  have "seat_ok st x ?V" using x by (simp add: seat_ok_def INT_MAX_def)
  then have "shape_ok {} (st # seats s) (idle_clients s) ((seat_heap s)(st \<mapsto> x)) ?V"
    using sh new unfolding shape_ok_def m by auto
  moreover have "\<forall>c \<in> dom (client_heap s). c < Suc (next_addr s)" "\<forall>st \<in> set (seats s). st < Suc (next_addr s)"
    using inv unfolding server_inv_def fresh_ok_def by (meson less_SucI)+
  ultimately show ?thesis using inv by (simp add: server_inv_def graph_def fresh_ok_def owners_def st_def)
qed

lemma seat_create_cases:
  assumes "seat_create E name vt s = (r, s')"
  shows "r = None \<and> os_frame s s' \<or> (\<exists>t x. os_frame s t \<and> r = Some (next_addr t)
    \<and> s' = t\<lparr>next_addr := Suc (next_addr t), seat_heap := (seat_heap t)(next_addr t \<mapsto> x)\<rparr>
    \<and> s_clients x = [] \<and> active_client x = None \<and> next_client x = None \<and> session_cnt x = 0
    \<and> seat_name x = name \<and> vt_bound x = vt)"
proof -
  obtain ok s1 where 1: "sys_alloc E s = (ok, s1)" by force
  obtain ok2 s2 where 2: "sys_alloc E s1 = (ok2, s2)" by force
  have f: "os_frame s s1" "os_frame s s2"
    using sys_alloc_frame [of s E] sys_alloc_frame [of s1 E] 1 2 by (auto intro: os_frame_trans)
  with assms 1 2 show ?thesis
    by (cases ok; cases ok2) (auto simp: seat_create_def Let_def intro!: exI [of _ s2])
qed

lemma server_init_inv:
  assumes s: "client_heap s = Map.empty" "seat_heap s = Map.empty" and call: "server_init E s = Some (0, s')"
  shows "server_inv s' \<and> running s'"
proof -
  obtain r s1 where 1: "poller_init E s = Some (r, s1)" using call by (auto simp: server_init_def bind_eq_Some_conv)
  note init = poller_init_ok [OF 1]
  have m: "client_heap s1 = Map.empty" "seat_heap s1 = Map.empty"
    using init s by (cases s; cases s1; simp)+
  have r: "r = 0" using call 1 init by (auto simp: server_init_def)
  let ?s = "s1\<lparr>seats := [], idle_clients := []\<rparr>"
  have inv: "server_inv ?s"
    using init r m by (simp add: server_inv_def graph_def shape_ok_def view_def fresh_ok_def sources_ok_def owners_def)
  let ?hs = "[(SIGUSR1, Server_handle_vt_rel), (SIGUSR2, Server_handle_vt_acq), (SIGINT, Server_handle_kill), (SIGTERM, Server_handle_kill)]"
  obtain ok s2 where 2: "add_signals E ?hs ?s = (ok, s2)" by force
  have i2: "server_inv s2" using add_signals_inv [OF inv _ 2] by simp
  let ?vt = "env_var E ''SEATD_VTBOUND'' = None \<or> env_var E ''SEATD_VTBOUND'' = Some ''1''"
  obtain st s3 where 3: "seat_create E ''seat0'' ?vt s2 = (st, s3)" by force
  have ok: "ok" "st \<noteq> None"
    using call 1 2 3 r by (auto simp: server_init_def Let_def bind_eq_Some_conv split: if_splits option.splits)
  then have s': "s' = s3\<lparr>seats := the st # seats s3, running := True\<rparr>"
    using call 1 2 3 r by (auto simp: server_init_def Let_def)
  from seat_create_cases [OF 3] ok(2) obtain t x where f: "os_frame s2 t" and st: "st = Some (next_addr t)"
    and s3: "s3 = t\<lparr>next_addr := Suc (next_addr t), seat_heap := (seat_heap t)(next_addr t \<mapsto> x)\<rparr>"
    and x: "s_clients x = []" "active_client x = None" "next_client x = None" "session_cnt x = 0" by auto
  from graph_new_seat [OF server_inv_os_frame [OF i2 f] x] s3 st
  have "server_inv (s3\<lparr>seats := the st # seats s3\<rparr>)" by simp
  then have "server_inv (s3\<lparr>seats := the st # seats s3, running := True\<rparr>)" by (metis server_inv_running)
  with s' show ?thesis by simp
qed

section \<open>Runs of the server\<close>

text \<open>
  The states that a run goes through: after the start, the listening socket is added, signals
  arrive between any two rounds of the loop, and the library that embeds the server adds a
  connection of its own.
\<close>

inductive reachable :: "env \<Rightarrow> sys \<Rightarrow> bool" for E where
  init: "os_frame boot s0 \<Longrightarrow> server_init E s0 = Some (0, s) \<Longrightarrow> reachable E s"
| listen: "reachable E s \<Longrightarrow> poller_add_fd E fd EVENT_READABLE Server_handle_connection s = (src, s') \<Longrightarrow> reachable E s'"
| connect: "reachable E s \<Longrightarrow> server_add_client E fd s = Some (r, s') \<Longrightarrow> reachable E s'"
| signal: "reachable E s \<Longrightarrow> reachable E (signal_handler E sig s)"
| poll: "reachable E s \<Longrightarrow> poller_poll E (call_signal E) (call_fd E) s = Some (r, s') \<Longrightarrow> reachable E s'"

lemma listen_inv:
  assumes inv: "server_inv s" and call: "poller_add_fd E fd EVENT_READABLE Server_handle_connection s = (src, s')"
  shows "server_inv s'"
proof -
  from poller_add_fd_frame [OF call] obtain t where f: "os_frame s t" and s': "s' = t\<lparr>poller := poller s'\<rparr>"
    and sig: "p_signals (poller s') = p_signals (poller s)" by blast
  have p: "poller_ok (poller s)" and src: "sources_ok {} (poller s) (owners s)" using inv by (auto simp: server_inv_def)
  note add = poller_add_fd_ok [OF p call]
  have "sources_ok {} (poller s') (owners s)"
  proof (cases src)
    case (Some i)
    then have q: "p_fds (poller s') = \<lparr>es_id = i, es_handler = Server_handle_connection, es_fd = fd, es_mask = EVENT_READABLE,
        es_killed = False, es_pollfd_idx = - 1\<rparr> # p_fds (poller s)" and i: "i \<notin> es_id ` set (p_fds (poller s))"
      using add(2) by auto
    have "find_fd j (poller s') = Some x" if "find_fd j (poller s) = Some x" for j x
      using that q i find_fd_Some [OF that] by (auto simp: find_fd_def)
    then show ?thesis using src unfolding sources_ok_def sig q by (force simp: source_of_def callback_ok_def)
  qed (use add(2) src in simp)
  moreover have "server_inv t" "owners t = owners s"
    using server_inv_os_frame [OF inv f] owners_sys_frame [OF os_frame_sys_frame [OF f]] by auto
  ultimately have "server_inv (t\<lparr>poller := poller s'\<rparr>)" using add(1) by (simp add: server_inv_def fresh_ok_def)
  with s' show ?thesis by simp
qed

lemma reachable_server_inv:
  assumes "reachable E s" and E: "send_progress E" "recv_bounded E"
  shows "server_inv s"
  using assms(1)
proof induction
  case (init s0 s)
  then show ?case using server_init_inv [of s0 E s] by (cases s0) (simp add: boot_def os_frame_def)
next
  case (poll s r s')
  then show ?case using poller_poll_inv [of E s r s'] E by (simp add: server_ok_def)
qed (use listen_inv server_add_client_inv [OF _ E(1)] signal_handler_inv in blast)+

section \<open>Shutdown\<close>

lemma owners_dom: "dom (owners s) = dom (client_heap s)"
  by (auto simp: owners_def)

lemma finite_clients: "server_inv s \<Longrightarrow> finite (dom (client_heap s))"
  by (rule finite_subset [of _ "{..< next_addr s}"]) (auto simp: server_inv_def fresh_ok_def)

lemma destroyed_fewer:
  assumes "server_inv s" and "client_heap s c = Some k" and "destroyed E c s s'"
  shows "card (dom (client_heap s')) < card (dom (client_heap s))"
proof -
  have "dom (client_heap s') = dom (client_heap s) - {c}"
    using assms(3) owners_dom [of s] owners_dom [of s'] by (auto simp: destroyed_def)
  moreover have "c \<in> dom (client_heap s)" using assms(2) by auto
  ultimately show ?thesis using card_Diff1_less [OF finite_clients [OF assms(1)]] by metis
qed

lemma destroy_idle_ok:
  assumes "server_inv s" and E: "send_progress E" and "destroy_idle E s = Some s'"
  shows "server_inv s' \<and> idle_clients s' = [] \<and> seats s' = seats s"
  using assms(1,3)
proof (induction "card (dom (client_heap s))" arbitrary: s rule: less_induct)
  case less
  show ?case
  proof (cases "idle_clients s")
    case Nil
    with less.prems show ?thesis by (simp add: destroy_idle.simps [of E s])
  next
    case (Cons c cs)
    then obtain k where k: "client_heap s c = Some k"
      using graph_idle_client [of "{}" s c] less.prems(1) by (auto simp: server_inv_def)
    from less.prems(2) Cons obtain s1 where d: "client_destroy E c s = Some s1" and rest: "destroy_idle E s1 = Some s'"
      by (auto simp: destroy_idle.simps [of E s] bind_eq_Some_conv)
    note ds = client_destroy_inv [OF less.prems(1) E k d]
    with less.hyps [OF destroyed_fewer [OF less.prems(1) k ds] _ rest] show ?thesis by (auto simp: destroyed_def)
  qed
qed

lemma destroy_clients_ok:
  assumes "server_inv s" and E: "send_progress E" and "destroy_clients E st s = Some s'" and "idle_clients s = []"
  shows "server_inv s' \<and> idle_clients s' = [] \<and> seats s' = seats s \<and> (\<exists>x. seat_heap s' st = Some x \<and> s_clients x = [])"
  using assms(1,3,4)
proof (induction "card (dom (client_heap s))" arbitrary: s rule: less_induct)
  case less
  from less.prems(2) obtain x where x: "seat_heap s st = Some x"
    by (auto simp: destroy_clients.simps [of E st s] bind_eq_Some_conv)
  show ?case
  proof (cases "s_clients x")
    case Nil
    with less.prems x show ?thesis by (simp add: destroy_clients.simps [of E st s])
  next
    case (Cons c cs)
    then obtain k where k: "client_heap s c = Some k"
      using graph_member [of "{}" s st x c] less.prems(1) x by (auto simp: server_inv_def)
    from less.prems(2) x Cons k obtain s1 where d: "client_destroy E c s = Some s1" and rest: "destroy_clients E st s1 = Some s'"
      by (auto simp: destroy_clients.simps [of E st s] bind_eq_Some_conv)
    note ds = client_destroy_inv [OF less.prems(1) E k d]
    with less.hyps [OF destroyed_fewer [OF less.prems(1) k ds] _ rest] less.prems(3) show ?thesis by (auto simp: destroyed_def)
  qed
qed

lemma graph_drop_seat:
  assumes inv: "server_inv s" and x: "seat_heap s st = Some x" "s_clients x = []"
  shows "server_inv (s\<lparr>seats := removeAll st (seats s), seat_heap := (seat_heap s)(st := None)\<rparr>)"
proof -
  have m: "members ((seat_heap s)(st := None)) st' = members (seat_heap s) st'" for st'
    using x by (simp add: members_def)
  have "shape_ok {} (removeAll st (seats s)) (idle_clients s) ((seat_heap s)(st := None)) (view (client_heap s))"
    using inv unfolding server_inv_def graph_def shape_ok_def m by (auto simp: distinct_removeAll)
  then show ?thesis using inv by (simp add: server_inv_def graph_def fresh_ok_def owners_def)
qed

lemma destroy_seats_ok:
  assumes "server_inv s" and E: "send_progress E" and "destroy_seats E s = Some s'" and "idle_clients s = []"
  shows "server_inv s' \<and> idle_clients s' = [] \<and> seats s' = []"
  using assms(1,3,4)
proof (induction "length (seats s)" arbitrary: s rule: less_induct)
  case less
  show ?case
  proof (cases "seats s")
    case Nil
    with less.prems show ?thesis by (simp add: destroy_seats.simps [of E s])
  next
    case (Cons st sts)
    with less.prems(2) obtain s1 where d: "destroy_clients E st s = Some s1"
      and rest: "destroy_seats E (s1\<lparr>seats := removeAll st (seats s1), seat_heap := (seat_heap s1)(st := None)\<rparr>) = Some s'"
      by (auto simp: destroy_seats.simps [of E s] seat_destroy_def bind_eq_Some_conv)
    from destroy_clients_ok [OF less.prems(1) E d less.prems(3)] obtain x where
        s1: "server_inv s1" "idle_clients s1 = []" "seats s1 = seats s" "seat_heap s1 st = Some x" "s_clients x = []" by blast
    have "length (removeAll st (seats s1)) < length (seats s)"
      using s1(3) Cons by (simp add: le_imp_less_Suc)
    with less.hyps [OF _ graph_drop_seat [OF s1(1,4,5)] rest] s1 show ?thesis by simp
  qed
qed

lemma reset_signals_frame: "os_frame s (reset_signals bs s)"
  by (induction bs arbitrary: s) (auto intro: os_frame_trans sys_sigaction_frame)

lemma server_finish_ok:
  assumes inv: "server_inv s" and E: "send_progress E" and call: "server_finish E s = Some s'"
  shows "client_heap s' = Map.empty \<and> seat_heap s' = Map.empty \<and> seats s' = [] \<and> idle_clients s' = []
    \<and> p_fds (poller s') = [] \<and> p_signals (poller s') = [] \<and> \<not> global_poller s'"
proof -
  from call obtain s1 s2 where 1: "destroy_idle E s = Some s1" and 2: "destroy_seats E s1 = Some s2"
    and s': "s' = poller_finish s2" by (auto simp: server_finish_def bind_eq_Some_conv)
  from destroy_idle_ok [OF inv E 1] have i1: "server_inv s1" "idle_clients s1 = []" by auto
  from destroy_seats_ok [OF i1(1) E 2 i1(2)] have i2: "server_inv s2" "idle_clients s2 = []" "seats s2 = []" by auto
  then have sh: "shape_ok {} [] [] (seat_heap s2) (view (client_heap s2))" by (simp add: server_inv_def graph_def)
  then have S: "seat_heap s2 = Map.empty" by (simp add: shape_ok_def)
  have "client_heap s2 c = None" for c
  proof (rule ccontr)
    assume "client_heap s2 c \<noteq> None"
    then obtain k where k: "client_heap s2 c = Some k" by auto
    have g: "graph {} s2" using i2 by (simp add: server_inv_def)
    show False
    proof (cases "c_seat k")
      case None
      then show False using idle_not_member(1) [OF g k] i2(2) by simp
    next
      case (Some st)
      then show False using graph_client_seat [OF g k] S by simp
    qed
  qed
  then have "client_heap s2 = Map.empty" by (rule ext)
  with S i2 s' os_frame_sys [OF reset_signals_frame [of s2 "p_signals (poller s2)"]] show ?thesis
    by (simp add: poller_finish_def Let_def)
qed

end
