(* ===== verification/Progress.thy ===== *)
theory Progress
  imports Server_Inv
begin

unbundle bit_operations_syntax

text \<open>
  Requests are answered: in a state that keeps the invariant no handler of \<open>seatd/client.c\<close> and no
  operation of \<open>seatd/seat.c\<close> that it calls fails an assertion, follows a dangling pointer,
  overflows a counter or loops, as long as the terminals are known and the counters have room.
\<close>

section \<open>Connections\<close>

lemma graph_conn_ok: "graph L s \<Longrightarrow> client_heap s c = Some k \<Longrightarrow> c \<notin> L \<Longrightarrow> conn_ok (connection k)"
  using graph_client_ok by (auto simp: client_ok_def)

lemma client_put_returns:
  assumes E: "kernel_ok E" and k: "client_heap s c = Some k" "conn_ok (connection k)"
  shows "\<exists>r s'. client_put E c bs s = Some (r, s')"
proof -
  from connection_put_returns [OF k(2) kernel_okD(1,2) [OF E], of bs s] obtain r cn s1 where
      put: "connection_put E (connection k) bs s = Some (r, cn, s1)" by blast
  then have "os_frame s s1" using connection_put_ok [OF k(2) kernel_okD(1) [OF E]] by blast
  with put k(1) show ?thesis by (auto simp: client_put_def upd_client_def dest: os_frame_sys(7))
qed

lemma client_conn_flush_returns:
  assumes E: "kernel_ok E" and k: "client_heap s c = Some k" "conn_ok (connection k)"
  shows "\<exists>r s'. client_conn_flush E c s = Some (r, s')"
proof -
  from connection_flush_returns [OF k(2) kernel_okD(1,2) [OF E], of s] obtain r cn s1 where
      fl: "connection_flush E (connection k) s = Some (r, cn, s1)" by blast
  then have "os_frame s s1" using connection_flush_ok [OF k(2) kernel_okD(1) [OF E]] by (auto simp: flushed_def)
  with fl k(1) show ?thesis by (auto simp: client_conn_flush_def upd_client_def dest: os_frame_sys(7))
qed

lemma client_put_all_returns:
  assumes E: "kernel_ok E" and k: "client_heap s c = Some k" "conn_ok (connection k)"
  shows "\<exists>r s'. client_put_all E c bss s = Some (r, s')"
  using k
proof (induction bss arbitrary: s k)
  case (Cons bs bss)
  from client_put_returns [OF E Cons.prems, of bs] obtain r s1 where put: "client_put E c bs s = Some (r, s1)" by blast
  have st: "conn_step c s s1" using client_put_step [OF kernel_okD(1) [OF E] Cons.prems put] by simp
  then obtain cn where "client_heap s1 c = Some (k\<lparr>connection := cn\<rparr>)" "conn_ok cn"
    using conn_step_client [OF _ Cons.prems(1)] by blast
  with Cons.IH [of s1 "k\<lparr>connection := cn\<rparr>"] put show ?case by auto
qed simp

lemma client_send_event_returns:
  assumes E: "kernel_ok E" and k: "client_heap s c = Some k" "conn_ok (connection k)"
  shows "\<exists>r s'. client_send_event E op c s = Some (r, s')"
proof -
  from client_put_returns [OF E k, of "header_bytes op 0"] obtain r s1 where
      put: "client_put E c (header_bytes op 0) s = Some (r, s1)" by blast
  have st: "conn_step c s s1" using client_put_step [OF kernel_okD(1) [OF E] k put] by simp
  then obtain cn where "client_heap s1 c = Some (k\<lparr>connection := cn\<rparr>)" "conn_ok cn"
    using conn_step_client [OF _ k(1)] by blast
  with client_conn_flush_returns [OF E, of s1 c "k\<lparr>connection := cn\<rparr>"] put show ?thesis
    by (auto simp: client_send_event_def split_def)
qed

section \<open>Operations of a seat\<close>

text \<open>
  The terminal of a seat that follows virtual terminals is known, and so are those of its
  clients: the code asserts that the number of a terminal that it opens is not negative.
\<close>

definition vt_safe :: "nat \<Rightarrow> sys \<Rightarrow> bool" where
  "vt_safe st s \<longleftrightarrow> (\<forall>x. seat_heap s st = Some x \<longrightarrow> vt_bound x \<longrightarrow> 0 \<le> cur_vt x
     \<and> (\<forall>c \<in> set (s_clients x). \<forall>k. client_heap s c = Some k \<longrightarrow> 0 \<le> c_session k))"

lemma vt_safe_os_frame: "os_frame s s' \<Longrightarrow> vt_safe st s' = vt_safe st s"
  by (simp add: vt_safe_def os_frame_sys)

lemma seat_open_client_returns:
  assumes g: "graph L s" and E: "kernel_ok E" and x: "seat_heap s st = Some x" and mem: "c \<in> set (s_clients x)"
    and vt: "vt_safe st s"
  shows "\<exists>r s'. seat_open_client E st c s = Some (r, s')"
proof -
  obtain k where k: "client_heap s c = Some k" "c_seat k = Some st" "client_ok k" "c \<notin> L"
    using graph_member [OF g x mem] by auto
  have v: "vt_bound x \<longrightarrow> 0 \<le> cur_vt x \<and> 0 \<le> c_session k" using vt x k mem by (auto simp: vt_safe_def)
  show ?thesis
  proof (cases "c_state k \<noteq> CLIENT_NEW \<and> c_state k \<noteq> CLIENT_DISABLED \<or> active_client x \<noteq> None")
    case True
    with k x show ?thesis by (auto simp: seat_open_client_def)
  next
    case False
    obtain r1 s1 where 1: "(if vt_bound x then vt_open E (c_session k) s else Some (0, s)) = Some (r1, s1)"
      using v vt_returns(1) [of "c_session k" E s] by (cases "vt_bound x") auto
    have f1: "os_frame s s1" using 1 vt_open_frame by (auto split: if_splits)
    obtain ds s2 where ds: "each_device (seat_activate_device E) (c_devices k) s1 = Some (ds, s2)" "os_frame s1 s2"
      using activate_all_ok [of "c_devices k" E s1] k(3) by (auto simp: client_ok_def)
    have f2: "os_frame s s2" using f1 ds(2) by (rule os_frame_trans)
    let ?t = "s2\<lparr>client_heap := (client_heap s)(c \<mapsto> k\<lparr>c_devices := ds, c_state := CLIENT_ACTIVE\<rparr>),
      seat_heap := (seat_heap s)(st \<mapsto> x\<lparr>active_client := Some c\<rparr>)\<rparr>"
    obtain r2 s3 where 2: "client_send_enable_seat E c ?t = Some (r2, s3)"
      using client_send_event_returns [OF E, of ?t c _ SERVER_ENABLE_SEAT] k(3)
      by (auto simp: client_send_enable_seat_def client_ok_def)
    obtain r3 s4 where 3: "(if vt_bound x then vt_close E (cur_vt x) u else Some (0, u)) = Some (r3 u, s4 u)" for u
    proof -
      have "\<exists>r s4. (if vt_bound x then vt_close E (cur_vt x) u else Some (0, u)) = Some (r, s4)" for u
        using v vt_returns(2) [of "cur_vt x" E u] by auto
      then show ?thesis using that by metis
    qed
    show ?thesis using False k x 1 ds 2 3
      by (simp add: seat_open_client_def upd_client_def upd_seat_def os_frame_sys [OF f2] split_def)
  qed
qed

lemma find_client_returns:
  assumes "\<forall>c \<in> set cs. client_heap s c \<noteq> None"
  shows "\<exists>r. find_client P cs s = Some r"
  using assms by (induction cs) auto

lemma seat_clients_exist:
  "graph L s \<Longrightarrow> seat_heap s st = Some x \<Longrightarrow> \<forall>c \<in> set (s_clients x). client_heap s c \<noteq> None"
  using graph_member by blast

lemma seat_activate_returns:
  assumes g: "graph L s" and E: "kernel_ok E" and x: "seat_heap s st = Some x" and vt: "vt_safe st s"
  shows "\<exists>r s'. seat_activate E st s = Some (r, s')"
proof (cases "active_client x = None")
  case act: True
  note op = seat_open_client_returns [OF g E x _ vt]
  show ?thesis
  proof (cases "next_client x")
    case (Some c)
    let ?s1 = "s\<lparr>seat_heap := (seat_heap s)(st \<mapsto> x\<lparr>next_client := None\<rparr>)\<rparr>"
    have "graph L ?s1" by (rule graph_upd_seat [OF g x]) auto
    moreover have "c \<in> set (s_clients x)" using graph_seat_ok [OF g x] Some by (simp add: seat_ok_def)
    moreover have "vt_safe st ?s1" using vt x by (simp add: vt_safe_def)
    ultimately show ?thesis
      using seat_open_client_returns [OF _ E, of L ?s1 st "x\<lparr>next_client := None\<rparr>" c] x act Some
      by (simp add: seat_activate_def upd_seat_def)
  next
    case None
    obtain found where f: "find_client (\<lambda>k. c_session k = cur_vt x) (s_clients x) s = Some found"
      using find_client_returns [OF seat_clients_exist [OF g x]] by blast
    have "\<exists>r s'. (case found of None \<Rightarrow> Some (- 1, s) | Some c \<Rightarrow> seat_open_client E st c s) = Some (r, s')"
      using op f find_client_Some [of _ "s_clients x" s] by (cases found) auto
    moreover have "s_clients x \<noteq> [] \<Longrightarrow> \<exists>r s'. seat_open_client E st (hd (s_clients x)) s = Some (r, s')"
      using op by simp
    ultimately show ?thesis using x act None f by (auto simp: seat_activate_def)
  qed
qed (use x in \<open>simp add: seat_activate_def\<close>)

lemma hand_over_returns:
  assumes g: "graph {c} (s\<lparr>seat_heap := (seat_heap s)(st \<mapsto> x\<lparr>active_client :=
      if active_client x = Some c then None else active_client x\<rparr>)\<rparr>)" and E: "kernel_ok E"
    and x: "seat_heap s st = Some x" and vt: "vt_safe st s"
  shows "\<exists>b s'. hand_over E st c s = Some (b, s')"
proof (cases "active_client x = Some c")
  case True
  let ?t = "s\<lparr>seat_heap := (seat_heap s)(st \<mapsto> x\<lparr>active_client := None\<rparr>)\<rparr>"
  have "vt_safe st ?t" using vt x by (simp add: vt_safe_def)
  with seat_activate_returns [OF _ E, of "{c}" ?t st "x\<lparr>active_client := None\<rparr>"] g True x show ?thesis
    by (auto simp: hand_over_def upd_seat_def)
qed (use x in \<open>auto simp: hand_over_def\<close>)


lemma seat_remove_client_returns:
  assumes g: "graph {} s" and E: "kernel_ok E" and k: "client_heap s c = Some k" "c_seat k = Some st"
    and vt: "vt_safe st s"
  shows "\<exists>s'. seat_remove_client E c s = Some s'"
proof -
  obtain x where x: "seat_heap s st = Some x" and mem: "c \<in> set (s_clients x)"
    using graph_client_seat [OF g k] by auto
  let ?k = "k\<lparr>c_devices := []\<rparr>"
  define x1 where "x1 = (if next_client x = Some c then x\<lparr>next_client := None\<rparr> else x)\<lparr>s_clients := removeAll c (s_clients x)\<rparr>"
  obtain t where first: "close_devices E c (unlink_client c (s\<lparr>seat_heap := (seat_heap s)(st \<mapsto>
      if next_client x = Some c then x\<lparr>next_client := None\<rparr> else x)\<rparr>))
    = Some (t\<lparr>client_heap := (client_heap s)(c \<mapsto> ?k), seat_heap := (seat_heap s)(st \<mapsto> x1)\<rparr>)" and f: "os_frame s t"
    using remove_first_part [OF g k x mem, of E] unfolding x1_def by auto
  define s3 where "s3 = t\<lparr>client_heap := (client_heap s)(c \<mapsto> ?k), seat_heap := (seat_heap s)(st \<mapsto> x1)\<rparr>"
  have x1: "active_client x1 = active_client x" "s_clients x1 = removeAll c (s_clients x)"
      "next_client x1 = (if next_client x = Some c then None else next_client x)" "vt_bound x1 = vt_bound x"
      "session_cnt x1 = session_cnt x" "cur_vt x1 = cur_vt x" by (auto simp: x1_def)
  have g3: "graph {c} (s3\<lparr>seat_heap := (seat_heap s3)(st \<mapsto> x1\<lparr>active_client :=
      if active_client x1 = Some c then None else active_client x1\<rparr>)\<rparr>)"
    using graph_removed [OF g x mem f, of "x1\<lparr>active_client := if active_client x1 = Some c then None else active_client x1\<rparr>" ?k]
    by (simp add: s3_def x1 cong: if_cong)
  have s3: "seat_heap s3 st = Some x1" by (simp add: s3_def)
  have "vt_safe st s3" using vt x by (auto simp: vt_safe_def s3_def x1)
  from hand_over_returns [OF g3 E s3 this] obtain b s5 where 5: "hand_over E st c s3 = Some (b, s5)" by blast
  from hand_over_ok [OF g3 kernel_okD(1) [OF E] s3 _ 5] obtain a n where
      s5: "seat_heap s5 st = Some (x1\<lparr>next_client := n, active_client := a\<rparr>)" "client_heap s5 c = Some ?k"
    by (auto simp: x1 s3_def)
  have v: "vt_bound x \<longrightarrow> 0 \<le> cur_vt x \<and> 0 \<le> c_session k" using vt x k mem by (auto simp: vt_safe_def)
  have "\<exists>s6. reset_vt E st c b s5 = Some s6"
    using s5 v vt_returns(2) [of "cur_vt x" E s5] vt_returns(2) [of "c_session k" E s5]
    by (cases "vt_bound x") (auto simp: reset_vt_def x1 cong: if_cong)
  then obtain s6 where 6: "reset_vt E st c b s5 = Some s6" by blast
  have "client_heap s6 c = Some ?k" using s5 os_frame_sys [OF reset_vt_frame [OF 6]] by simp
  with k x first 5 6 show ?thesis
    by (simp add: seat_remove_client_def upd_seat_def upd_client_def s3_def [symmetric])
qed

lemma scan_devices_returns:
  assumes "\<forall>d \<in> set ds. device_id d < INT_MAX" and "n \<le> INT_MAX"
  shows "\<exists>r. scan_devices p ds n m = Some r"
  using assms
proof (induction ds arbitrary: n m)
  case (Cons d ds)
  then show ?case by (auto simp: int_incr_def)
qed simp

lemma seat_open_device_returns:
  assumes g: "graph L s" and k: "client_heap s c = Some k" "c \<notin> L" "c_seat k = Some st"
    and d: "\<forall>d \<in> set (c_devices k). device_id d < INT_MAX \<and> ref_cnt d < INT_MAX"
  shows "\<exists>r s'. seat_open_device E c path s = Some (r, s')"
proof -
  obtain x where x: "seat_heap s st = Some x" and mem: "c \<in> set (s_clients x)"
    using graph_client_seat [OF g k(1,3,2)] by auto
  show ?thesis
  proof (cases "c_state k = CLIENT_ACTIVE")
    case False
    with k x show ?thesis by (simp add: seat_open_device_def)
  next
    case True
    then have act: "active_client x = Some c" using graph_member [OF g x mem] k(1) by (auto simp: active_state_def)
    obtain rp s1 where 1: "sys_realpath E path s = (rp, s1)" by force
    have "os_frame s s1" using sys_frames(4) [of s E path] 1 by simp
    then have h: "client_heap s1 = client_heap s" by (rule os_frame_sys)
    have new: "\<exists>r s'. open_new_device E c p ty i s1 = Some (r, s')" if "ty \<noteq> SEAT_DEVICE_TYPE_NORMAL" for p ty i
    proof -
      obtain fd s2 where 2: "sys_open E p [O_RDWR, O_NOCTTY, O_NOFOLLOW, O_CLOEXEC, O_NONBLOCK] s1 = (fd, s2)" by force
      obtain q s3 where 3: "(if ty = SEAT_DEVICE_TYPE_DRM then drm_set_master E fd s2 else (0, s2)) = (q, s3)" by force
      obtain a s4 where 4: "sys_alloc E s3 = (a, s4)" by force
      obtain a' s5 where 5: "sys_alloc E s4 = (a', s5)" by force
      have "os_frame s1 s2" "os_frame s2 s3" "os_frame s3 s4" "os_frame s4 s5"
        using sys_frames(1) [of s1 E p "[O_RDWR, O_NOCTTY, O_NOFOLLOW, O_CLOEXEC, O_NONBLOCK]"] sys_alloc_frame [of s3 E] sys_alloc_frame [of s4 E] device_frames(1) [of s2 E fd] 2 3 4 5
        by (auto split: if_splits)
      then have "client_heap s5 c = Some k" using os_frame_sys(7) h k(1) by metis
      with that 2 3 4 5 show ?thesis by (auto simp: open_new_device_def upd_client_def)
    qed
    show ?thesis
    proof (cases rp)
      case (Inl e)
      with 1 True k x act show ?thesis by (simp add: seat_open_device_def)
    next
      case (Inr p)
      show ?thesis
      proof (cases "device_class E p")
        case None
        with 1 Inr True k x act show ?thesis by (simp add: seat_open_device_def)
      next
        case (Some ty)
        then have ty: "ty \<noteq> SEAT_DEVICE_TYPE_NORMAL" by (auto simp: device_class_def split: if_splits)
        obtain r where r: "scan_devices p (c_devices k) 1 0 = Some r"
          using scan_devices_returns [of "c_devices k" 1 p 0] d by (auto simp: INT_MAX_def)
        have "ref_cnt (c_devices k ! i) < INT_MAX" if "r = Inl i" for i
          using scan_devices_ok [OF r] that d by auto
        then show ?thesis
          using 1 Inr Some True k x act r new [OF ty] h
          by (cases r) (auto simp: seat_open_device_def upd_client_def int_incr_def)
      qed
    qed
  qed
qed


lemma seat_disable_client_returns:
  assumes g: "graph L s" and E: "kernel_ok E" and k: "client_heap s c = Some k" "c \<notin> L" "c_seat k = Some st"
  shows "\<exists>r s'. seat_disable_client E c s = Some (r, s')"
proof (cases "c_state k = CLIENT_ACTIVE")
  case True
  obtain x where x: "seat_heap s st = Some x" and mem: "c \<in> set (s_clients x)"
    using graph_client_seat [OF g k(1,3,2)] by auto
  have act: "active_client x = Some c" using graph_member [OF g x mem] k(1) True by (auto simp: active_state_def)
  have ok: "client_ok k" using graph_client_ok [OF g k(1,2)] .
  obtain ds s1 where ds: "each_device (seat_deactivate_device E) (c_devices k) s = Some (ds, s1)" and f: "os_frame s s1"
    using deactivate_all_ok [of "c_devices k" E s] ok by (auto simp: client_ok_def)
  let ?t = "s1\<lparr>client_heap := (client_heap s)(c \<mapsto> k\<lparr>c_devices := ds, c_state := CLIENT_PENDING_DISABLE\<rparr>)\<rparr>"
  obtain r s2 where "client_send_disable_seat E c ?t = Some (r, s2)"
    using client_send_event_returns [OF E, of ?t c _ SERVER_DISABLE_SEAT] ok
    by (auto simp: client_send_disable_seat_def client_ok_def)
  with True k x act ds show ?thesis
    by (simp add: seat_disable_client_def upd_client_def os_frame_sys [OF f])
qed (use k in \<open>simp add: seat_disable_client_def\<close>)

lemma seat_ack_disable_client_returns:
  assumes g: "graph {} s" and E: "kernel_ok E" and k: "client_heap s c = Some k" "c_seat k = Some st"
    and vt: "vt_safe st s"
  shows "\<exists>r s'. seat_ack_disable_client E c s = Some (r, s')"
proof (cases "c_state k = CLIENT_PENDING_DISABLE")
  case True
  obtain x where x: "seat_heap s st = Some x" and mem: "c \<in> set (s_clients x)"
    using graph_client_seat [OF g k] by auto
  have act: "active_client x = Some c" using graph_member [OF g x mem] k(1) True by (auto simp: active_state_def)
  let ?k = "k\<lparr>c_state := CLIENT_DISABLED\<rparr>" and ?x = "x\<lparr>active_client := None\<rparr>"
  let ?t = "s\<lparr>client_heap := (client_heap s)(c \<mapsto> ?k), seat_heap := (seat_heap s)(st \<mapsto> ?x)\<rparr>"
  have "client_ok ?k" using graph_client_ok [OF g k(1)] k(2) by (auto simp: client_ok_def)
  then have "graph {} ?t"
    using graph_set_active [OF g k(1) x mem, of ?k None] act by (simp add: active_state_def)
  moreover have "vt_safe st ?t" using vt x k(1) by (auto simp: vt_safe_def)
  ultimately obtain r s' where "seat_activate E st ?t = Some (r, s')"
    using seat_activate_returns [OF _ E, of "{}" ?t st ?x] by auto
  with True k x act show ?thesis
    by (simp add: seat_ack_disable_client_def upd_client_def upd_seat_def)
qed (use k in \<open>simp add: seat_ack_disable_client_def\<close>)

lemma vt_switch_returns:
  "seat_heap s st = Some x \<Longrightarrow> 0 \<le> cur_vt x \<Longrightarrow> \<exists>r s'. vt_switch E st vt s = Some (r, s')"
  using terminal_open_returns [of "cur_vt x" E s] by (auto simp: vt_switch_def split_def)

lemma seat_set_next_session_returns:
  assumes g: "graph {} s" and E: "kernel_ok E" and k: "client_heap s c = Some k" "c_seat k = Some st"
    and vt: "vt_safe st s"
  shows "\<exists>r s'. seat_set_next_session E c n s = Some (r, s')"
proof (cases "c_state k = CLIENT_ACTIVE")
  case True
  obtain x where x: "seat_heap s st = Some x" and mem: "c \<in> set (s_clients x)"
    using graph_client_seat [OF g k] by auto
  have act: "active_client x = Some c" using graph_member [OF g x mem] k(1) True by (auto simp: active_state_def)
  have v: "vt_bound x \<Longrightarrow> \<exists>r s'. vt_switch E st n s = Some (r, s')"
    using vt_switch_returns [OF x] vt x by (auto simp: vt_safe_def)
  obtain found where f: "find_client (\<lambda>k. c_session k = n) (s_clients x) s = Some found"
    using find_client_returns [OF seat_clients_exist [OF g x]] by blast
  have "\<exists>r s'. seat_disable_client E c (s\<lparr>seat_heap := (seat_heap s)(st \<mapsto> x\<lparr>next_client := Some t\<rparr>)\<rparr>) = Some (r, s')"
    if "found = Some t" for t
  proof -
    have "t \<in> set (s_clients x)" using find_client_Some f that by blast
    then have "graph {} (s\<lparr>seat_heap := (seat_heap s)(st \<mapsto> x\<lparr>next_client := Some t\<rparr>)\<rparr>)"
      by (intro graph_upd_seat [OF g x]) auto
    from seat_disable_client_returns [OF this E _ _ k(2)] k(1) show ?thesis by simp
  qed
  with True k x act f v show ?thesis
    by (cases found) (auto simp: seat_set_next_session_def upd_seat_def)
qed (use k in \<open>simp add: seat_set_next_session_def\<close>)

section \<open>Requests\<close>

text \<open>
  Enough room in the counters for one more request: each of them is a C \<open>int\<close> that the code
  increments without a check.
\<close>

definition roomy :: "client \<Rightarrow> bool" where
  "roomy k \<longleftrightarrow> (\<forall>d \<in> set (c_devices k). device_id d < INT_MAX \<and> ref_cnt d < INT_MAX)"

definition steady :: "sys \<Rightarrow> bool" where
  "steady s \<longleftrightarrow> (\<forall>st x. seat_heap s st = Some x \<longrightarrow> vt_safe st s \<and> session_cnt x < INT_MAX)
     \<and> (\<forall>c k. client_heap s c = Some k \<longrightarrow> roomy k)"

lemma seat_update_vt_cases:
  assumes E: "kernel_ok E" and x: "seat_heap s st = Some x"
  shows "\<exists>t y. seat_update_vt E st s = Some t \<and> seat_heap t st = Some y \<and> client_heap t = client_heap s
    \<and> (y = x \<or> (\<exists>vt \<ge> - 1. y = x\<lparr>cur_vt := vt\<rparr>))"
proof -
  obtain fd s1 where 1: "terminal_open E 0 s = Some (fd, s1)" using terminal_open_returns [of 0 E s] by auto
  have f1: "os_frame s s1" by (rule terminal_open_frame [OF 1])
  obtain vt s2 where 2: "terminal_current_vt E fd s1 = (vt, s2)" by force
  have f2: "os_frame s s2" using os_frame_trans [OF f1 terminal_current_vt_frame [of s1 E fd]] 2 by simp
  have "- 1 \<le> vt"
  proof -
    have "0 \<le> v" if "k_ioctl E tr fd r = Inr v" for tr r v using E that by (auto simp: kernel_ok_def)
    then show ?thesis using 2
      by (fastforce simp: terminal_current_vt_def sys_ioctl_def Let_def split: if_splits sum.splits)
  qed
  moreover have "seat_heap (sys_close E fd (s2\<lparr>seat_heap := H\<rparr>)) = H" "client_heap (sys_close E fd (s2\<lparr>seat_heap := H\<rparr>)) = client_heap s" for H
    using os_frame_sys(6,7) [OF sys_frames(2) [of "s2\<lparr>seat_heap := H\<rparr>" E fd]] os_frame_sys [OF f2] by auto
  ultimately show ?thesis using 1 2 x os_frame_sys [OF f1] os_frame_sys [OF f2]
    by (cases "fd = - 1") (auto simp: seat_update_vt_def upd_seat_def)
qed


lemma assign_session_returns:
  assumes g: "graph {} s" and E: "kernel_ok E" and k: "client_heap s c = Some k" and x: "seat_heap s st = Some x"
    and vt: "vt_safe st s" and room: "session_cnt x < INT_MAX"
  shows "\<exists>r s1. assign_session E st c s = Some (r, s1) \<and> (r = 0 \<longrightarrow> (\<exists>y k'. seat_heap s1 st = Some y
    \<and> client_heap s1 = (client_heap s)(c \<mapsto> k') \<and> s_clients y = s_clients x \<and> vt_bound y = vt_bound x
    \<and> (vt_bound x \<longrightarrow> 0 \<le> cur_vt y \<and> 0 \<le> c_session k')))"
proof (cases "vt_bound x")
  case True
  from seat_update_vt_cases [OF E x] obtain t y where t: "seat_update_vt E st s = Some t" "seat_heap t st = Some y"
      "client_heap t = client_heap s" and y: "y = x \<or> (\<exists>vt \<ge> - 1. y = x\<lparr>cur_vt := vt\<rparr>)" by blast
  have y': "s_clients y = s_clients x" "vt_bound y" "cur_vt y \<noteq> - 1 \<longrightarrow> 0 \<le> cur_vt y" "active_client y = active_client x"
    using y True vt x by (auto simp: vt_safe_def)
  obtain found where f: "(if active_client y \<noteq> None then find_client (\<lambda>k. c_session k = cur_vt y) (s_clients y) t else Some None) = Some found"
    using find_client_returns [of "s_clients y" t "\<lambda>k. c_session k = cur_vt y"] seat_clients_exist [OF g x] t(3) y'(1)
    by (cases "active_client y") auto
  show ?thesis using True x t f k y'
    by (cases "cur_vt y = - 1"; cases "found = None") (auto simp: assign_session_def upd_client_def)
next
  case False
  then show ?thesis using x k room by (auto simp: assign_session_def int_incr_def upd_client_def upd_seat_def)
qed

lemma seat_add_client_returns:
  assumes g: "graph {} s" and E: "kernel_ok E" and k: "client_heap s c = Some k" and x: "seat_heap s st = Some x"
    and vt: "vt_safe st s" and room: "session_cnt x < INT_MAX"
  shows "\<exists>r s'. seat_add_client E st c s = Some (r, s') \<and> (r = 0 \<longrightarrow> vt_safe st s')"
proof (cases "c_seat k = None")
  case seat: True
  have "\<exists>busy. (case active_client x of None \<Rightarrow> Some False
        | Some a \<Rightarrow> if vt_bound x then do { ka \<leftarrow> client_heap s a; Some (c_state ka \<noteq> CLIENT_PENDING_DISABLE) }
                    else Some False) = Some busy"
  proof (cases "active_client x")
    case (Some a)
    then have "a \<in> set (s_clients x)" using graph_seat_ok [OF g x] by (simp add: seat_ok_def)
    then show ?thesis using Some seat_clients_exist [OF g x] by auto
  qed auto
  then obtain busy where busy: "(case active_client x of None \<Rightarrow> Some False
        | Some a \<Rightarrow> if vt_bound x then do { ka \<leftarrow> client_heap s a; Some (c_state ka \<noteq> CLIENT_PENDING_DISABLE) }
                    else Some False) = Some busy" by blast
  from assign_session_returns [OF g E k x vt room] obtain r s1 where as: "assign_session E st c s = Some (r, s1)"
    and post: "r = 0 \<longrightarrow> (\<exists>y k'. seat_heap s1 st = Some y
    \<and> client_heap s1 = (client_heap s)(c \<mapsto> k') \<and> s_clients y = s_clients x \<and> vt_bound y = vt_bound x
    \<and> (vt_bound x \<longrightarrow> 0 \<le> cur_vt y \<and> 0 \<le> c_session k'))" by blast
  have r: "r = 0 \<or> r = - 1" by (rule assign_session_cases [OF g k x as]) auto
  have "\<exists>s2. link_client st c s1 = Some s2 \<and> vt_safe st s2" if r0: "r = 0"
  proof -
    from post r0 obtain y k' where y: "seat_heap s1 st = Some y" "client_heap s1 = (client_heap s)(c \<mapsto> k')"
      "s_clients y = s_clients x" "vt_bound y = vt_bound x" "vt_bound x \<longrightarrow> 0 \<le> cur_vt y \<and> 0 \<le> c_session k'" by blast
    then show ?thesis using vt x
      by (auto simp: link_client_def upd_client_def upd_seat_def unlink_client_def vt_safe_def)
  qed
  with seat k x busy as r show ?thesis
    by (cases "busy \<or> c_session k \<noteq> - 1") (auto simp: seat_add_client_def)
qed (use k in \<open>auto simp: seat_add_client_def\<close>)

lemma steadyD:
  assumes "steady s" and "seat_heap s st = Some x"
  shows "vt_safe st s" "session_cnt x < INT_MAX"
  using assms by (auto simp: steady_def)

lemma vt_safe_conn_step: "conn_step c s s' \<Longrightarrow> vt_safe st s \<Longrightarrow> vt_safe st s'"
  by (auto simp: conn_step_def vt_safe_def os_frame_sys split: if_splits)

lemma handle_open_seat_returns:
  assumes g: "graph {} s" and E: "kernel_ok E" and k: "client_heap s c = Some k" and st: "steady s"
  shows "\<exists>r s'. handle_open_seat E c s = Some (r, s')"
proof -
  obtain found where f: "server_get_seat client_get_seat_name s = Some found" using find_seat_returns [OF g] by blast
  show ?thesis
  proof (cases found)
    case None
    with f show ?thesis by (simp add: handle_open_seat_def)
  next
    case (Some st)
    with f obtain x where x: "seat_heap s st = Some x" by (auto dest: server_get_seat_Some)
    note sd = steadyD [OF assms(4) x]
    from seat_add_client_returns [OF g E k x sd] obtain r s1 where
        add: "seat_add_client E st c s = Some (r, s1)" "r = 0 \<longrightarrow> vt_safe st s1" by blast
    note ok = seat_add_client_ok [OF g k x add(1)]
    show ?thesis
    proof (cases "r = - 1")
      case True
      with f Some add show ?thesis by (simp add: handle_open_seat_def)
    next
      case False
      with ok obtain n x1 where g1: "graph {} s1" and k1: "client_heap s1 c = Some (k\<lparr>c_session := n, c_seat := Some st\<rparr>)"
        and x1: "seat_heap s1 st = Some x1" "s_clients x1 = c # s_clients x" and r: "r = 0" by auto
      have c1: "conn_ok (connection (k\<lparr>c_session := n, c_seat := Some st\<rparr>))" using graph_conn_ok [OF g1 k1] by simp
      let ?len = "length client_get_seat_name + 1"
      obtain r2 s2 where put: "client_put_all E c [header_bytes SERVER_SEAT_OPENED (2 + ?len),
            encode_len_msg (of_nat ?len), string_bytes client_get_seat_name @ [0]] s1 = Some (r2, s2)"
        using client_put_all_returns [OF E k1 c1] by blast
      have st2: "conn_step c s1 s2" using client_put_all_step [OF kernel_okD(1) [OF E] k1 c1 put] by simp
      have g2: "graph {} s2" "vt_safe st s2"
        using conn_step_graph [OF g1 st2] vt_safe_conn_step [OF st2] add(2) r by auto
      obtain x2 where "seat_heap s2 st = Some x2" "s_clients x2 = c # s_clients x"
        using within_seat [OF conn_step_within [OF st2, of UNIV UNIV] x1(1)] x1(2) by auto
      then obtain r3 s3 where "seat_open_client E st c s2 = Some (r3, s3)"
        using seat_open_client_returns [OF g2(1) E _ _ g2(2), of x2 c] by auto
      with f Some add False put show ?thesis
        by (auto simp: handle_open_seat_def Let_def simp del: client_put_all.simps)
    qed
  qed
qed


lemma reply_returns:
  assumes E: "kernel_ok E" and g: "graph {} t" and f: "sys_frame s t" and k: "client_heap s c = Some k"
  shows "\<exists>r s'. client_put_all E c bss t = Some (r, s')"
proof -
  from sys_frame_client [OF f k] obtain k' where "client_heap t c = Some k'" by auto
  with client_put_all_returns [OF E] graph_conn_ok [OF g] show ?thesis by blast
qed

lemma answer_returns:
  assumes E: "kernel_ok E" and g: "graph {} t" and f: "sys_frame s t" and k: "client_heap s c = Some k"
  shows "\<exists>r s'. client_send_error E c e t = Some (r, s')" and "\<exists>r s'. reply_header E c op t = Some (r, s')"
  using reply_returns [OF E g f k] by (auto simp: client_send_error_def reply_header_def simp del: client_put_all.simps)

lemma handle_close_seat_returns:
  assumes g: "graph {} s" and E: "kernel_ok E" and k: "client_heap s c = Some k" and st: "steady s"
  shows "\<exists>r s'. handle_close_seat E c s = Some (r, s')"
proof (cases "c_seat k")
  case (Some st)
  obtain x where x: "seat_heap s st = Some x" using graph_client_seat [OF g k Some] by auto
  from seat_remove_client_returns [OF g E k Some steadyD(1) [OF assms(4) x]] obtain t where
      rm: "seat_remove_client E c s = Some t" by blast
  note ok = seat_remove_client_ok [OF g kernel_okD(1) [OF E] k Some rm]
  let ?k = "k\<lparr>c_devices := [], c_state := CLIENT_CLOSED, c_seat := None\<rparr>"
  have "conn_ok (connection ?k)" using graph_conn_ok [OF g k] by simp
  then obtain r s' where "reply_header E c SERVER_SEAT_CLOSED (t\<lparr>idle_clients := c # idle_clients t\<rparr>) = Some (r, s')"
    using client_put_all_returns [OF E, of "t\<lparr>idle_clients := c # idle_clients t\<rparr>" c ?k "[header_bytes SERVER_SEAT_CLOSED 0]"] ok
    unfolding reply_header_def by auto
  with k Some rm show ?thesis by (simp add: handle_close_seat_def)
qed (use k in \<open>simp add: handle_close_seat_def\<close>)

lemma handle_open_device_returns:
  assumes g: "graph {} s" and E: "kernel_ok E" and k: "client_heap s c = Some k" and st: "steady s"
  shows "\<exists>r s'. handle_open_device E c path s = Some (r, s')"
proof (cases "c_seat k = None")
  case False
  then obtain sid where sid: "c_seat k = Some sid" by auto
  have "roomy k" using st k by (simp add: steady_def)
  with seat_open_device_returns [OF g k _ sid, of E path] obtain dev t where
      op: "seat_open_device E c path s = Some (dev, t)" by (auto simp: roomy_def)
  from seat_open_device_ok [OF g k _ False op] obtain ds where t: "graph {} t" "sys_frame s t"
    "client_heap t c = Some (k\<lparr>c_devices := ds\<rparr>)" "dev = None \<or> dev = Some 0 \<and> ds \<noteq> []"
    by (auto dest: within_sys_frame)
  show ?thesis
  proof (cases dev)
    case None
    with answer_returns(1) [OF E t(1,2) k] op k False show ?thesis by (simp add: handle_open_device_def)
  next
    case (Some i)
    with t(4) obtain d ds' where ds: "ds = d # ds'" and dev: "dev = Some 0" by (cases ds) auto
    obtain fd u where dup: "sys_dup E (dev_fd d) t = (fd, u)" by force
    then have fu: "os_frame t u" using sys_frames(5) [of t E "dev_fd d"] by simp
    then have u: "graph {} u" "sys_frame s u" "client_heap u c = Some (k\<lparr>c_devices := ds\<rparr>)"
      using t graph_os_frame [OF fu] sys_frame_trans [OF t(2) os_frame_sys_frame [OF fu]] os_frame_sys [OF fu] by auto
    show ?thesis
    proof (cases "fd = - 1")
      case True
      from seat_close_device_graph [OF u(1,3), of 0 E] False ds obtain s' where
          cl: "seat_close_device E c 0 u = Some (0, s')" "graph {} s'" "sys_frame u s'" by (auto dest: within_sys_frame)
      with answer_returns(1) [OF E cl(2) sys_frame_trans [OF u(2) cl(3)] k] op k False dev ds dup True t(3) show ?thesis
        by (simp add: handle_open_device_def nth_opt_def)
    next
      case fd: False
      have ok: "conn_ok (connection k)" by (rule graph_conn_ok [OF g k]) simp
      from connection_put_fd_ok [OF ok, of fd u] obtain r cn s1 where
          put: "connection_put_fd (connection k) fd u = Some (r, cn, s1)" "conn_ok cn" "os_frame u s1" by blast
      let ?s = "s1\<lparr>client_heap := (client_heap u)(c \<mapsto> k\<lparr>c_devices := ds, connection := cn\<rparr>)\<rparr>"
      have "\<exists>r s'. client_put_all E c bss ?s = Some (r, s')" for bss
        by (rule client_put_all_returns [OF E]) (use put in auto)
      with op k False dev ds dup fd t(3) put u(3) os_frame_sys(7) [OF put(3)] show ?thesis
        by (simp add: handle_open_device_def nth_opt_def upd_client_def del: client_put_all.simps)
    qed
  qed
qed (use k in \<open>simp add: handle_open_device_def\<close>)

lemma handle_close_device_returns:
  assumes g: "graph {} s" and E: "kernel_ok E" and k: "client_heap s c = Some k"
  shows "\<exists>r s'. handle_close_device E c n s = Some (r, s')"
proof (cases "c_seat k = None")
  case False
  have "\<exists>dev t. seat_find_device c n s = Some (dev, t)"
    using k by (cases "find_index (\<lambda>d. device_id d = n) (c_devices k)") (auto simp: seat_find_device_def)
  then obtain dev t where find: "seat_find_device c n s = Some (dev, t)" by blast
  note found = seat_find_device_cases [OF k False find]
  show ?thesis
  proof (cases dev)
    case None
    with found have "os_frame s (t\<lparr>errno := EBADF\<rparr>)" by simp
    then have "sys_frame s (t\<lparr>errno := EBADF\<rparr>)" "graph {} (t\<lparr>errno := EBADF\<rparr>)"
      using g graph_os_frame os_frame_sys_frame by blast+
    with answer_returns(1) [OF E _ _ k] None find k False show ?thesis by (auto simp: handle_close_device_def Let_def)
  next
    case (Some i)
    with found have i: "i < length (c_devices k)" and t: "t = s" by auto
    from seat_close_device_graph [OF g k _ False i, of E] obtain s' where
        "seat_close_device E c i s = Some (0, s')" "graph {} s'" "sys_frame s s'" by (auto dest: within_sys_frame)
    with answer_returns(2) [OF E _ _ k] find Some t k False show ?thesis by (simp add: handle_close_device_def)
  qed
qed (use k in \<open>simp add: handle_close_device_def\<close>)

lemma handle_switch_session_returns:
  assumes g: "graph {} s" and E: "kernel_ok E" and k: "client_heap s c = Some k" and st: "steady s"
  shows "\<exists>r s'. handle_switch_session E c n s = Some (r, s')"
proof (cases "c_seat k")
  case (Some st)
  obtain x where x: "seat_heap s st = Some x" using graph_client_seat [OF g k Some] by auto
  from seat_set_next_session_returns [OF g E k Some steadyD(1) [OF assms(4) x]] obtain r t where
      op: "seat_set_next_session E c n s = Some (r, t)" by blast
  from seat_set_next_session_ok [OF g kernel_okD(1) [OF E] k _ Some x op] have "graph {} t" "sys_frame s t"
    by (auto dest: within_sys_frame)
  with answer_returns [OF E _ _ k] op k Some show ?thesis by (simp add: handle_switch_session_def)
qed (use k in \<open>simp add: handle_switch_session_def\<close>)

lemma handle_disable_seat_returns:
  assumes g: "graph {} s" and E: "kernel_ok E" and k: "client_heap s c = Some k" and st: "steady s"
  shows "\<exists>r s'. handle_disable_seat E c s = Some (r, s')"
proof (cases "c_seat k")
  case (Some st)
  obtain x where x: "seat_heap s st = Some x" using graph_client_seat [OF g k Some] by auto
  from seat_ack_disable_client_returns [OF g E k Some steadyD(1) [OF assms(4) x]] obtain r t where
      op: "seat_ack_disable_client E c s = Some (r, t)" by blast
  from seat_ack_disable_client_ok [OF g kernel_okD(1) [OF E] k _ Some x op] have "graph {} t" "sys_frame s t"
    by (auto dest: within_sys_frame)
  with answer_returns [OF E _ _ k] op k Some show ?thesis by (simp add: handle_disable_seat_def)
qed (use k in \<open>simp add: handle_disable_seat_def\<close>)


section \<open>Requests from the wire\<close>

text \<open>What reading from the connection and flushing it leave alone.\<close>

lemma steady_set_connection:
  assumes "steady s" and "client_heap s c = Some k"
  shows "steady (s\<lparr>client_heap := (client_heap s)(c \<mapsto> k\<lparr>connection := cn\<rparr>)\<rparr>)"
  using assms by (auto simp: steady_def vt_safe_def roomy_def)

lemma client_get_steady:
  assumes inv: "server_inv s" and st: "steady s" and k: "client_heap s c = Some k"
  shows "\<exists>r s1. client_get c n s = Some (r, s1) \<and> (r \<noteq> None \<longrightarrow> server_inv s1 \<and> steady s1 \<and> client_heap s1 c \<noteq> None)"
proof (cases "n \<le> length (input s c)")
  case True
  let ?cn = "(connection k)\<lparr>conn_in := connection_buffer_consume (conn_in (connection k)) n\<rparr>"
  have get: "client_get c n s = Some (Some (take n (input s c)), s\<lparr>client_heap := (client_heap s)(c \<mapsto> k\<lparr>connection := ?cn\<rparr>)\<rparr>)"
    using client_get_eq [OF inv k] True by simp
  have ok: "conn_ok (connection k)" using inv graph_conn_ok [OF _ k] by (auto simp: server_inv_def)
  have "conn_ok ?cn" "conn_fd ?cn = conn_fd (connection k)"
    using connection_buffer_consume_ok [of "conn_in (connection k)" n] ok True k by (auto simp: conn_ok_def input_def)
  from set_connection_inv(1) [OF inv k this] steady_set_connection [OF st k] get show ?thesis by auto
qed (use client_get_eq [OF inv k] in auto)

lemma client_flush_returns:
  assumes inv: "server_inv s" and E: "kernel_ok E" and k: "client_heap s c = Some k"
  shows "\<exists>r s'. client_flush E c s = Some (r, s')"
proof -
  have g: "graph {} s" using inv by (simp add: server_inv_def)
  have ok: "conn_ok (connection k)" using graph_conn_ok [OF g k] by simp
  obtain r s1 where fl: "client_conn_flush E c s = Some (r, s1)" using client_conn_flush_returns [OF E k ok] by blast
  have st: "conn_step c s s1" using client_conn_flush_step [OF kernel_okD(1) [OF E] k ok fl] by simp
  then have "graph {} s1" "sys_frame s s1"
    using conn_step_graph [OF g] conn_step_within [of c s s1 UNIV UNIV] by (auto simp: within_def)
  then have inv1: "server_inv s1" using server_inv_frame [OF inv] by auto
  obtain cn where k1: "client_heap s1 c = Some (k\<lparr>connection := cn\<rparr>)" using conn_step_client [OF st k] by auto
  obtain i where i: "event_source (k\<lparr>connection := cn\<rparr>) = Some i" using server_inv_source [OF inv1 k1] by auto
  from event_source_update_inv [OF inv1 k1 i, of "EVENT_READABLE OR EVENT_WRITABLE"] fl k1 i show ?thesis
    by (auto simp: client_flush_def)
qed

lemma handle_int_msg_returns:
  assumes inv: "server_inv s" and st: "steady s" and k: "client_heap s c = Some k"
    and f: "\<And>n s k. server_inv s \<Longrightarrow> steady s \<Longrightarrow> client_heap s c = Some k \<Longrightarrow> \<exists>r s'. f c n s = Some (r, s')"
  shows "\<exists>r s'. handle_int_msg f c len s = Some (r, s')"
proof (cases "len = 4")
  case True
  obtain r s1 where "client_get c 4 s = Some (r, s1)" "r \<noteq> None \<longrightarrow> server_inv s1 \<and> steady s1 \<and> client_heap s1 c \<noteq> None"
    using client_get_steady [OF inv st k] by blast
  with True f [of s1] show ?thesis by (cases r) (auto simp: handle_int_msg_def)
qed (simp add: handle_int_msg_def)

lemma handle_open_device_msg_returns:
  assumes inv: "server_inv s" and E: "kernel_ok E" and st: "steady s" and k: "client_heap s c = Some k"
  shows "\<exists>r s'. handle_open_device_msg E c len s = Some (r, s')"
proof (cases "2 > len")
  case False
  obtain r s1 where get: "client_get c 2 s = Some (r, s1)" and s1: "r \<noteq> None \<longrightarrow> server_inv s1 \<and> steady s1 \<and> client_heap s1 c \<noteq> None"
    using client_get_steady [OF inv st k] by blast
  show ?thesis
  proof (cases r)
    case None
    with False get show ?thesis by (simp add: handle_open_device_msg_def)
  next
    case (Some bs)
    with s1 obtain k1 where s1: "server_inv s1" "steady s1" "client_heap s1 c = Some k1" by auto
    obtain p s2 where get2: "client_get c (unat (decode_len_msg bs)) s1 = Some (p, s2)"
      and s2: "p \<noteq> None \<longrightarrow> server_inv s2 \<and> steady s2 \<and> client_heap s2 c \<noteq> None"
      using client_get_steady [OF s1] by blast
    have "\<exists>r s'. handle_open_device E c path s2 = Some (r, s')" if "p \<noteq> None" for path
      using s2 that handle_open_device_returns [OF _ E] by (auto simp: server_inv_def)
    with False get Some get2 show ?thesis by (cases p) (auto simp: handle_open_device_msg_def Let_def)
  qed
qed (simp add: handle_open_device_msg_def)

lemma switch_opcode_returns:
  assumes inv: "server_inv s" and E: "kernel_ok E" and st: "steady s" and k: "client_heap s c = Some k"
  shows "\<exists>r s'. switch_opcode E c op len s = Some (r, s')"
proof -
  have g: "graph {} s" using inv by (simp add: server_inv_def)
  have ping: "\<exists>r s'. handle_ping E c s = Some (r, s')" using answer_returns(2) [OF E g sys_frame_refl k] by (simp add: handle_ping_def)
  have close: "\<exists>r s'. handle_int_msg (handle_close_device E) c n s = Some (r, s')" for n
    by (rule handle_int_msg_returns [OF inv st k]) (use handle_close_device_returns [OF _ E] in \<open>auto simp: server_inv_def\<close>)
  have switch: "\<exists>r s'. handle_int_msg (handle_switch_session E) c n s = Some (r, s')" for n
    by (rule handle_int_msg_returns [OF inv st k]) (use handle_switch_session_returns [OF _ E] in \<open>auto simp: server_inv_def\<close>)
  show ?thesis
    using handle_open_seat_returns [OF g E k st] handle_close_seat_returns [OF g E k st] close switch ping
      handle_disable_seat_returns [OF g E k st] handle_open_device_msg_returns [OF inv E st k]
    by (simp add: handle_empty_msg_def switch_opcode_def)
qed

lemma client_handle_opcode_returns:
  assumes inv: "server_inv s" and E: "kernel_ok E" and st: "steady s" and k: "client_heap s c = Some k"
  shows "\<exists>r s'. client_handle_opcode E c op len s = Some (r, s')"
proof -
  obtain r t where h: "switch_opcode E c op len s = Some (r, t)" using switch_opcode_returns [OF inv E st k] by blast
  have sv: "served c len s (r, t)" by (rule switch_opcode_served [OF inv kernel_okD(1) [OF E] k h])
  then obtain k' where "client_heap t c = Some k'" using serve_frame_client [OF _ k] by (auto simp: served_def)
  with client_flush_returns [OF _ E] sv have "\<exists>r s'. client_flush E c t = Some (r, s')" by (auto simp: served_def)
  with h show ?thesis by (simp add: client_handle_opcode_def)
qed

section \<open>Shutdown\<close>

text \<open>
  The terminals are known: those of the seats, and for clients of a seat the one they were
  opened on. A seat that is not bound to terminals puts no condition on its clients, but every
  session number it hands out is one.
\<close>

definition vts_known :: "sys \<Rightarrow> bool" where
  "vts_known s \<longleftrightarrow> (\<forall>st n. fst (vt_view s) st = Some (True, n) \<longrightarrow> 0 \<le> n)
     \<and> (\<forall>c st n. snd (vt_view s) c = Some (Some st, n) \<longrightarrow> 0 \<le> n)"

lemma vts_known_safe:
  assumes g: "graph L s" and v: "vts_known s"
  shows "vt_safe st s"
  unfolding vt_safe_def
proof (intro allI impI conjI ballI)
  fix x assume x: "seat_heap s st = Some x" "vt_bound x"
  then show "0 \<le> cur_vt x" using v by (auto simp: vts_known_def vt_view_def)
  fix c k assume "c \<in> set (s_clients x)" "client_heap s c = Some k"
  then have "c_seat k = Some st" using graph_member [OF g x(1), of c] by auto
  with \<open>client_heap s c = Some k\<close> have "snd (vt_view s) c = Some (Some st, c_session k)" by (simp add: vt_view_def)
  then show "0 \<le> c_session k" using v unfolding vts_known_def by blast
qed

lemma vts_known_destroyed: "destroyed E c s s' \<Longrightarrow> vts_known s \<Longrightarrow> vts_known s'"
  by (auto simp: destroyed_def vts_known_def)

lemma client_destroy_returns:
  assumes inv: "server_inv s" and E: "kernel_ok E" and v: "vts_known s" and k: "client_heap s c = Some k"
  shows "\<exists>s'. client_destroy E c s = Some s'"
proof -
  let ?fd = "conn_fd (connection k)"
  let ?s0 = "if libseat_build E then s\<lparr>running := False\<rparr> else s"
  define s1 where "s1 = (if ?fd \<noteq> - 1 then sys_close E ?fd ?s0 else ?s0)"
  define k1 where "k1 = k\<lparr>connection := (connection k)\<lparr>conn_fd := - 1\<rparr>\<rparr>"
  define s2 where "s2 = s1\<lparr>client_heap := (client_heap s)(c \<mapsto> k1)\<rparr>"
  have g: "graph {} s" using inv by (simp add: server_inv_def)
  have f1: "os_frame ?s0 s1" by (simp add: s1_def sys_frames(2))
  have h1: "client_heap s1 = client_heap s" using os_frame_sys(7) [OF f1] by (simp split: if_splits)
  have "graph {} s1" using g graph_os_frame [OF f1, of "{}"] by (auto simp: graph_def)
  moreover have "client_ok k1" using graph_client_ok [OF g k] by (simp add: client_ok_def k1_def conn_ok_def)
  ultimately have g2: "graph {} s2"
    unfolding s2_def h1 [symmetric] using k h1 by (intro graph_upd_client) (auto simp: cview_def k1_def)
  have k2: "client_heap s2 c = Some k1" by (simp add: s2_def)
  have first: "(if ?fd \<noteq> - 1 then upd_client c (\<lambda>k. k\<lparr>connection := (connection k)\<lparr>conn_fd := - 1\<rparr>\<rparr>) (sys_close E ?fd ?s0) else Some ?s0)
      = Some s2"
    using h1 k by (auto simp: s1_def s2_def k1_def upd_client_def fun_upd_idem split: if_splits)
  have "vt_view s1 = vt_view s" using vt_view_os_frame [OF f1] by (simp add: vt_view_def)
  then have "vt_view s2 = vt_view s" using k by (auto simp: s2_def vt_view_def k1_def)
  then have v2: "vts_known s2" using v by (simp add: vts_known_def)
  have "\<exists>t. (if c_seat k1 \<noteq> None then seat_remove_client E c s2 else Some s2) = Some t"
    using seat_remove_client_returns [OF g2 E k2 _ vts_known_safe [OF g2 v2]] by (cases "c_seat k1") auto
  then obtain t where rm: "(if c_seat k1 \<noteq> None then seat_remove_client E c s2 else Some s2) = Some t" by blast
  let ?u = "unlink_client c t"
  from detach_ok [OF g2 kernel_okD(1) [OF E] k2 rm] obtain k' where u: "sys_frame s2 ?u"
    and k': "client_heap ?u c = Some k'" "c_devices k' = []" "client_id k' = client_id k1" "connection k' = connection k1" by blast
  have "poller ?u = poller s" using u os_frame_sys [OF f1] by (simp add: sys_frame_def s2_def split: if_splits)
  moreover obtain i y where i: "event_source k = Some i" "find_fd i (poller s) = Some y" using server_inv_source [OF inv k] by blast
  moreover have "event_source k' = event_source k" using k'(3) by (simp add: client_id_def k1_def)
  ultimately obtain w where w: "event_source_fd_destroy i ?u = Some w" "client_heap w = client_heap ?u" "event_source k' = Some i"
    by (auto simp: event_source_fd_destroy_def)
  have "conn_ok (connection k')" using graph_conn_ok [OF g k] k'(4) by (simp add: k1_def conn_ok_def)
  from connection_close_fds_ok [OF this, of E "w\<lparr>client_heap := (client_heap w)(c \<mapsto> k'\<lparr>event_source := None\<rparr>)\<rparr>"]
  obtain cn z where "connection_close_fds E (connection k') (w\<lparr>client_heap := (client_heap w)(c \<mapsto> k'\<lparr>event_source := None\<rparr>)\<rparr>) = Some (cn, z)"
    by blast
  with k first rm k' w show ?thesis by (simp add: client_destroy_def Let_def k1_def upd_client_def)
qed

lemma destroy_idle_returns:
  assumes "server_inv s" and E: "kernel_ok E" and "vts_known s"
  shows "\<exists>s'. destroy_idle E s = Some s' \<and> vts_known s'"
  using assms(1,3)
proof (induction "card (dom (client_heap s))" arbitrary: s rule: less_induct)
  case less
  show ?case
  proof (cases "idle_clients s")
    case (Cons c cs)
    then obtain k where k: "client_heap s c = Some k"
      using graph_idle_client [of "{}" s c] less.prems(1) by (auto simp: server_inv_def)
    from client_destroy_returns [OF less.prems(1) E less.prems(2) k] obtain t where d: "client_destroy E c s = Some t" by blast
    note ds = client_destroy_inv [OF less.prems(1) kernel_okD(1) [OF E] k d]
    have "server_inv t" using ds by (simp add: destroyed_def)
    from less.hyps [OF destroyed_fewer [OF less.prems(1) k ds] this vts_known_destroyed [OF ds less.prems(2)]] d Cons
    show ?thesis by (auto simp: destroy_idle.simps [of E s])
  qed (use less.prems in \<open>simp add: destroy_idle.simps [of E s]\<close>)
qed

lemma destroy_clients_returns:
  assumes "server_inv s" and E: "kernel_ok E" and "vts_known s" and "st \<in> set (seats s)"
  shows "\<exists>s'. destroy_clients E st s = Some s' \<and> vts_known s'"
  using assms(1,3,4)
proof (induction "card (dom (client_heap s))" arbitrary: s rule: less_induct)
  case less
  have g: "graph {} s" using less.prems(1) by (simp add: server_inv_def)
  then have "dom (seat_heap s) = set (seats s)" by (simp add: graph_def shape_ok_def)
  with less.prems(3) obtain x where x: "seat_heap s st = Some x" by auto
  show ?case
  proof (cases "s_clients x")
    case Nil
    with x less.prems show ?thesis by (simp add: destroy_clients.simps [of E st s])
  next
    case (Cons c cs)
    then obtain k where k: "client_heap s c = Some k" "c_seat k = Some st" using graph_member [OF g x, of c] by auto
    from client_destroy_returns [OF less.prems(1) E less.prems(2) k(1)] obtain t where d: "client_destroy E c s = Some t" by blast
    note ds = client_destroy_inv [OF less.prems(1) kernel_okD(1) [OF E] k(1) d]
    have t: "server_inv t" "seats t = seats s" using ds by (auto simp: destroyed_def)
    from less.hyps [OF destroyed_fewer [OF less.prems(1) k(1) ds] t(1) vts_known_destroyed [OF ds less.prems(2)]] t(2) less.prems(3)
      d Cons x k show ?thesis by (auto simp: destroy_clients.simps [of E st s])
  qed
qed

lemma destroy_seats_returns:
  assumes "server_inv s" and E: "kernel_ok E" and "vts_known s" and "idle_clients s = []"
  shows "\<exists>s'. destroy_seats E s = Some s'"
  using assms(1,3,4)
proof (induction "length (seats s)" arbitrary: s rule: less_induct)
  case less
  show ?case
  proof (cases "seats s")
    case (Cons st sts)
    from destroy_clients_returns [OF less.prems(1) E less.prems(2), of st] Cons obtain t where
        d: "destroy_clients E st s = Some t" "vts_known t" by auto
    let ?t = "t\<lparr>seats := removeAll st (seats t), seat_heap := (seat_heap t)(st := None)\<rparr>"
    from destroy_clients_ok [OF less.prems(1) kernel_okD(1) [OF E] d(1) less.prems(3)] obtain x where
        t: "server_inv t" "idle_clients t = []" "seats t = seats s" "seat_heap t st = Some x" "s_clients x = []" by blast
    have "length (seats ?t) < length (seats s)" using t(3) Cons by (simp add: le_imp_less_Suc)
    moreover have "vts_known ?t" using d(2) by (auto simp: vts_known_def vt_view_def)
    ultimately obtain s' where "destroy_seats E ?t = Some s'"
      using less.hyps [OF _ graph_drop_seat [OF t(1,4,5)]] t(2) by auto
    with d(1) Cons show ?thesis by (auto simp: destroy_seats.simps [of E s] seat_destroy_def)
  qed (simp add: destroy_seats.simps [of E s])
qed

lemma server_finish_returns:
  assumes inv: "server_inv s" and E: "kernel_ok E" and v: "vts_known s"
  shows "\<exists>s'. server_finish E s = Some s'"
proof -
  from destroy_idle_returns [OF assms] obtain t where t: "destroy_idle E s = Some t" "vts_known t" by blast
  from destroy_idle_ok [OF inv kernel_okD(1) [OF E] t(1)] have "server_inv t" "idle_clients t = []" by auto
  from destroy_seats_returns [OF this(1) E t(2) this(2)] t(1) show ?thesis by (auto simp: server_finish_def)
qed

end
