(* ===== verification/Switching.thy ===== *)
theory Switching
  imports Progress
begin

text \<open>
  How access to the devices of a seat passes from one client to another: what disabling a client
  does to its devices, who is active after a switch, and the state in which the server aborts
  because it does not know the terminal of a seat.
\<close>

section \<open>Revoking access\<close>

text \<open>
  The call that takes a device away from whoever holds its descriptor: input devices are revoked,
  a graphics card loses its master; for other devices there is none.
\<close>

definition revoke_call :: "env \<Rightarrow> seat_device \<Rightarrow> ioctl_req option" where
  "revoke_call E d = (case dev_type d of
     SEAT_DEVICE_TYPE_DRM \<Rightarrow> Some DRM_IOCTL_DROP_MASTER
   | SEAT_DEVICE_TYPE_EVDEV \<Rightarrow> if platform E = Linux \<or> platform E = FreeBSD then Some EVIOCREVOKE else None
   | SEAT_DEVICE_TYPE_HIDRAW \<Rightarrow> if platform E = Linux \<and> have_hidiocrevoke E then Some HIDIOCREVOKE else None
   | _ \<Rightarrow> None)"

text \<open>
  Between the histories \<open>tr\<close> and \<open>tr'\<close> a device has been revoked if it was active, and it counts as active still
  only if the kernel refused.
\<close>

definition revoked :: "env \<Rightarrow> trace \<Rightarrow> seat_device \<Rightarrow> seat_device \<Rightarrow> bool" where
  "revoked E tr d d' \<longleftrightarrow> same_device d d' \<and> (\<not> dev_active d \<longrightarrow> \<not> dev_active d')
     \<and> (dev_active d \<longrightarrow> (case revoke_call E d of None \<Rightarrow> \<not> dev_active d'
        | Some req \<Rightarrow> \<exists>res. E_ioctl (dev_fd d) req res \<in> set tr \<and> (dev_active d' \<longleftrightarrow> c_int res = - 1)))"

lemma revoked_mono: "revoked E tr d d' \<Longrightarrow> set tr \<subseteq> set tr' \<Longrightarrow> revoked E tr' d d'"
  by (auto simp: revoked_def split: option.splits)

lemma os_frame_trace: "os_frame s s' \<Longrightarrow> set (trace s) \<subseteq> set (trace s')"
  by (auto simp: os_frame_def)

lemma seat_deactivate_device_revokes:
  assumes "dev_type d \<noteq> SEAT_DEVICE_TYPE_NORMAL" and "seat_deactivate_device E d s = Some (r, d', s')"
  shows "revoked E (trace s') d d'"
  using assms
  by (cases "dev_type d")
    (auto simp: seat_deactivate_device_def revoked_def revoke_call_def same_device_def drm_drop_master_def evdev_revoke_def
      hidraw_revoke_def sys_ioctl_def Let_def split: if_splits intro: exI [of _ "Inl _"])

lemma deactivate_all_revokes:
  assumes "devices_ok ds"
  shows "\<exists>ds' s'. each_device (seat_deactivate_device E) ds s = Some (ds', s') \<and> os_frame s s'
    \<and> list_all2 (revoked E (trace s')) ds ds'"
proof -
  have "\<forall>d \<in> set ds. dev_type d \<noteq> SEAT_DEVICE_TYPE_NORMAL" using assms by (auto simp: devices_ok_def device_ok_def)
  then show ?thesis
  proof (induction ds arbitrary: s)
    case (Cons d ds)
    then obtain r d' s1 where 1: "seat_deactivate_device E d s = Some (r, d', s1)" "os_frame s s1"
      using seat_deactivate_device_ok [of d E s] by auto
    with Cons.prems have rv: "revoked E (trace s1) d d'" using seat_deactivate_device_revokes by auto
    from Cons obtain ds' s2 where 2: "each_device (seat_deactivate_device E) ds s1 = Some (ds', s2)" "os_frame s1 s2"
        "list_all2 (revoked E (trace s2)) ds ds'" by fastforce
    have "revoked E (trace s2) d d'" using revoked_mono [OF rv os_frame_trace [OF 2(2)]] .
    with 1 2 show ?case by (auto intro: os_frame_trans)
  qed simp
qed

lemma seat_disable_client_effect:
  assumes g: "graph {} s" and E: "kernel_ok E" and k: "client_heap s c = Some k" "c_state k = CLIENT_ACTIVE"
  shows "\<exists>r s' k'. seat_disable_client E c s = Some (r, s') \<and> client_heap s' c = Some k'
    \<and> c_state k' = CLIENT_PENDING_DISABLE \<and> c_seat k' = c_seat k \<and> c_session k' = c_session k
    \<and> list_all2 (revoked E (trace s')) (c_devices k) (c_devices k')"
proof -
  have ok: "client_ok k" by (rule graph_client_ok [OF g k(1)]) simp
  then obtain st where st: "c_seat k = Some st" using k(2) by (cases "c_seat k") (auto simp: client_ok_def)
  obtain x where x: "seat_heap s st = Some x" and mem: "c \<in> set (s_clients x)"
    using graph_client_seat [OF g k(1) st] by auto
  have act: "active_client x = Some c" using graph_member [OF g x mem] k by (auto simp: active_state_def)
  obtain ds s1 where ds: "each_device (seat_deactivate_device E) (c_devices k) s = Some (ds, s1)" "os_frame s s1"
      "list_all2 (revoked E (trace s1)) (c_devices k) ds"
    using deactivate_all_revokes [of "c_devices k" E s] ok by (auto simp: client_ok_def)
  let ?k = "k\<lparr>c_devices := ds, c_state := CLIENT_PENDING_DISABLE\<rparr>" 
  let ?t = "s1\<lparr>client_heap := (client_heap s)(c \<mapsto> ?k)\<rparr>"
  have t: "client_heap ?t c = Some ?k" "conn_ok (connection ?k)" using ok by (auto simp: client_ok_def)
  obtain r s2 where send: "client_send_event E SERVER_DISABLE_SEAT c ?t = Some (r, s2)"
    using client_send_event_returns [OF E t] by blast
  then have step: "conn_step c ?t s2" using client_send_event_step [OF kernel_okD(1) [OF E] t] by blast
  then obtain cn where k2: "client_heap s2 c = Some (?k\<lparr>connection := cn\<rparr>)" using conn_step_client [OF _ t(1)] by blast
  have "set (trace s1) \<subseteq> set (trace s2)"
    using step by (auto simp: conn_step_def os_frame_def)
  then have "list_all2 (revoked E (trace s2)) (c_devices k) ds"
    using ds(3) by (auto elim!: list_all2_mono intro: revoked_mono)
  moreover have "seat_disable_client E c s = Some (if r = - 1 then - 1 else 0, s2)"
    using k st x act ds send
    by (simp add: seat_disable_client_def client_send_disable_seat_def upd_client_def os_frame_sys [OF ds(2)])
  ultimately show ?thesis using k2 by auto
qed

section \<open>Handing a seat over\<close>

text \<open>
  Opening a client of a seat that is free makes it the active one; this is so even when the
  event that tells it cannot be sent.
\<close>

lemma seat_open_client_effect:
  assumes g: "graph L s" and E: "kernel_ok E" and x: "seat_heap s st = Some x" "\<not> vt_bound x" "active_client x = None"
    and mem: "c \<in> set (s_clients x)"
  shows "\<exists>r s' k'. seat_open_client E st c s = Some (r, s') \<and> graph L s' \<and> within {c} {st} s s'
    \<and> seat_heap s' st = Some (x\<lparr>active_client := Some c\<rparr>) \<and> client_heap s' c = Some k' \<and> c_state k' = CLIENT_ACTIVE"
proof -
  obtain k where k: "client_heap s c = Some k" "c_seat k = Some st" "client_ok k" "\<not> active_state (c_state k)"
    using graph_member [OF g x(1) mem] x(3) by auto
  then have st: "c_state k = CLIENT_NEW \<or> c_state k = CLIENT_DISABLED"
    by (cases "c_state k") (auto simp: active_state_def client_ok_def)
  have "vt_safe st s" using x by (simp add: vt_safe_def)
  from seat_open_client_returns [OF g E x(1) mem this] obtain r s' where
      call: "seat_open_client E st c s = Some (r, s')" by blast
  with k x st obtain r2 where body: "do {
            (ds, s) \<leftarrow> each_device (seat_activate_device E) (c_devices k) s;
            s \<leftarrow> upd_client c (\<lambda>k. k\<lparr>c_devices := ds, c_state := CLIENT_ACTIVE\<rparr>) s;
            s \<leftarrow> upd_seat st (\<lambda>x. x\<lparr>active_client := Some c\<rparr>) s;
            client_send_enable_seat E c s } = Some (r2, s')"
    by (auto simp: seat_open_client_def bind_eq_Some_conv split: if_splits)
  from open_body_ok [OF g kernel_okD(1) [OF E] k(1) x(1) mem x(3) body] call show ?thesis by auto
qed

lemma seat_ack_hands_over:
  assumes g: "graph {} s" and E: "kernel_ok E" and k: "client_heap s c = Some k" "c_state k = CLIENT_PENDING_DISABLE" "c_seat k = Some st"
    and x: "seat_heap s st = Some x" "\<not> vt_bound x" "next_client x = Some t" and t: "t \<noteq> c"
  shows "\<exists>s' k' kt. seat_ack_disable_client E c s = Some (0, s') \<and> graph {} s'
    \<and> seat_heap s' st = Some (x\<lparr>next_client := None, active_client := Some t\<rparr>)
    \<and> client_heap s' c = Some k' \<and> c_state k' = CLIENT_DISABLED
    \<and> client_heap s' t = Some kt \<and> c_state kt = CLIENT_ACTIVE"
proof -
  have mem: "c \<in> set (s_clients x)" using graph_client_seat [OF g k(1,3)] x(1) by auto
  have act: "active_client x = Some c" using graph_member [OF g x(1) mem] k by (auto simp: active_state_def)
  have tm: "t \<in> set (s_clients x)" using graph_seat_ok [OF g x(1)] x(3) by (simp add: seat_ok_def)
  let ?k = "k\<lparr>c_state := CLIENT_DISABLED\<rparr>" and ?x = "x\<lparr>active_client := None\<rparr>"
  let ?u = "s\<lparr>client_heap := (client_heap s)(c \<mapsto> ?k), seat_heap := (seat_heap s)(st \<mapsto> ?x)\<rparr>"
  let ?v = "s\<lparr>client_heap := (client_heap s)(c \<mapsto> ?k), seat_heap := (seat_heap s)(st \<mapsto> ?x\<lparr>next_client := None\<rparr>)\<rparr>"
  have "client_ok ?k" using graph_client_ok [OF g k(1)] k(3) by (auto simp: client_ok_def)
  then have gu: "graph {} ?u" using graph_set_active [OF g k(1) x(1) mem, of ?k None] act by (simp add: active_state_def)
  have gv: "graph {} ?v" using graph_upd_seat [OF gu, of st ?x "?x\<lparr>next_client := None\<rparr>"] by simp
  from seat_open_client_effect [OF gv E, of st "?x\<lparr>next_client := None\<rparr>" t] x(2) tm
  obtain r s' kt where op: "seat_open_client E st t ?v = Some (r, s')" "graph {} s'" "within {t} {st} ?v s'"
      "seat_heap s' st = Some (x\<lparr>next_client := None, active_client := Some t\<rparr>)" "client_heap s' t = Some kt" "c_state kt = CLIENT_ACTIVE"
    by auto
  have "client_heap s' c = Some ?k" using op(3) t by (simp add: within_def)
  moreover have "seat_ack_disable_client E c s = Some (0, s')"
    using k x act op(1) by (simp add: seat_ack_disable_client_def upd_client_def upd_seat_def seat_activate_def)
  ultimately show ?thesis using op by auto
qed


lemma find_client_unique:
  assumes "t \<in> set cs" "client_heap s t = Some kt" "P kt"
    and "\<And>c k. c \<in> set cs \<Longrightarrow> c \<noteq> t \<Longrightarrow> client_heap s c = Some k \<Longrightarrow> \<not> P k" and "\<forall>c \<in> set cs. client_heap s c \<noteq> None"
  shows "find_client P cs s = Some (Some t)"
  using assms
proof (induction cs)
  case (Cons c cs)
  then obtain k where k: "client_heap s c = Some k" by auto
  show ?case
  proof (cases "c = t")
    case False
    then have "\<not> P k" using Cons.prems(4) [of c k] k by simp
    with False Cons k show ?thesis by auto
  qed (use Cons.prems k in auto)
qed simp

lemma session_unique:
  assumes g: "graph L s" and x: "seat_heap s st = Some x" "\<not> vt_bound x"
    and c: "c \<in> set (s_clients x)" "client_heap s c = Some k" and t: "t \<in> set (s_clients x)" "client_heap s t = Some kt"
    and eq: "c_session k = c_session kt"
  shows "c = t"
proof -
  have "distinct (map (sess (view (client_heap s))) (s_clients x))" using graph_seat_ok [OF g x(1)] x(2) by (simp add: seat_ok_def)
  moreover have "sess (view (client_heap s)) c = sess (view (client_heap s)) t"
    using c t eq by (simp add: sess_def view_def cview_def)
  ultimately show ?thesis using c t by (auto simp: distinct_map dest: inj_onD)
qed

text \<open>
  A request to switch names the session of another client of the seat: the active client is told
  to give up its devices, and when it has acknowledged, the other client is active.
\<close>

lemma seat_set_next_session_effect:
  assumes g: "graph {} s" and E: "kernel_ok E" and k: "client_heap s c = Some k" "c_state k = CLIENT_ACTIVE" "c_seat k = Some st"
    and x: "seat_heap s st = Some x" "\<not> vt_bound x" "next_client x = None"
    and t: "t \<in> set (s_clients x)" "t \<noteq> c" "client_heap s t = Some kt" "0 < c_session kt"
  shows "\<exists>s' k'. seat_set_next_session E c (c_session kt) s = Some (0, s') \<and> graph {} s'
    \<and> seat_heap s' st = Some (x\<lparr>next_client := Some t\<rparr>) \<and> client_heap s' c = Some k' \<and> c_seat k' = Some st
    \<and> c_state k' = CLIENT_PENDING_DISABLE \<and> list_all2 (revoked E (trace s')) (c_devices k) (c_devices k')"
proof -
  let ?s = "s\<lparr>seat_heap := (seat_heap s)(st \<mapsto> x\<lparr>next_client := Some t\<rparr>)\<rparr>"
  have mem: "c \<in> set (s_clients x)" using graph_client_seat [OF g k(1,3)] x(1) by auto
  have act: "active_client x = Some c" using graph_member [OF g x(1) mem] k by (auto simp: active_state_def)
  have ne: "c_session kt \<noteq> c_session k" using session_unique [OF g x(1,2) mem k(1) t(1,3)] t(2) by auto
  have find: "find_client (\<lambda>k. c_session k = c_session kt) (s_clients x) s = Some (Some t)"
    by (rule find_client_unique [OF t(1,3)])
      (use session_unique [OF g x(1,2) _ _ t(1,3)] seat_clients_exist [OF g x(1)] in auto)
  have g': "graph {} ?s" by (rule graph_upd_seat [OF g x(1)]) (use t in auto)
  have k': "client_heap ?s c = Some k" using k by simp
  from seat_disable_client_effect [OF g' E k' k(2)] obtain r s' k1 where
      d: "seat_disable_client E c ?s = Some (r, s')" "client_heap s' c = Some k1" "c_state k1 = CLIENT_PENDING_DISABLE"
        "c_seat k1 = c_seat k" "list_all2 (revoked E (trace s')) (c_devices k) (c_devices k1)" by blast
  from seat_disable_client_ok [OF g' kernel_okD(1) [OF E] k' _ d(1)] have "graph {} s'" "within {c} {} ?s s'" by auto
  moreover have "seat_set_next_session E c (c_session kt) s = Some (0, s')"
    using k x act ne find t(4) d(1) by (simp add: seat_set_next_session_def upd_seat_def)
  ultimately show ?thesis using d k(3) by (simp add: within_def)
qed

lemma switch_then_ack:
  assumes g: "graph {} s" and E: "kernel_ok E" and k: "client_heap s c = Some k" "c_state k = CLIENT_ACTIVE" "c_seat k = Some st"
    and x: "seat_heap s st = Some x" "\<not> vt_bound x" "next_client x = None"
    and t: "t \<in> set (s_clients x)" "t \<noteq> c" "client_heap s t = Some kt" "0 < c_session kt"
  shows "\<exists>s1 s2 k' kt'. seat_set_next_session E c (c_session kt) s = Some (0, s1) \<and> seat_ack_disable_client E c s1 = Some (0, s2)
    \<and> seat_heap s2 st = Some (x\<lparr>active_client := Some t\<rparr>) \<and> client_heap s2 c = Some k' \<and> c_state k' = CLIENT_DISABLED
    \<and> client_heap s2 t = Some kt' \<and> c_state kt' = CLIENT_ACTIVE"
proof -
  from seat_set_next_session_effect [OF assms] obtain s1 k1 where
      1: "seat_set_next_session E c (c_session kt) s = Some (0, s1)" "graph {} s1"
        "seat_heap s1 st = Some (x\<lparr>next_client := Some t\<rparr>)" "client_heap s1 c = Some k1" "c_seat k1 = Some st"
        "c_state k1 = CLIENT_PENDING_DISABLE" by blast
  from seat_ack_hands_over [OF 1(2) E 1(4,6,5,3) _ _ t(2)] x(2) obtain s2 k' kt' where
      2: "seat_ack_disable_client E c s1 = Some (0, s2)"
        "seat_heap s2 st = Some (x\<lparr>next_client := Some t, next_client := None, active_client := Some t\<rparr>)"
        "client_heap s2 c = Some k'" "c_state k' = CLIENT_DISABLED" "client_heap s2 t = Some kt'" "c_state kt' = CLIENT_ACTIVE"
    by auto
  moreover have "x\<lparr>next_client := Some t, next_client := None, active_client := Some t\<rparr> = x\<lparr>active_client := Some t\<rparr>"
    using x(3) by simp
  ultimately show ?thesis using 1(1) by auto
qed

section \<open>A terminal that is not known\<close>

lemma vt_close_negative: "vt < 0 \<Longrightarrow> vt_close E vt s = None"
  by (simp add: vt_close_def terminal_open_negative)

text \<open>
  The only client of a seat goes away while the terminal of the seat is not known: the
  assertion in \<open>get_tty_path\<close> fails.
\<close>

lemma seat_remove_client_aborts:
  assumes g: "graph {} s" and k: "client_heap s c = Some k" "c_seat k = Some st"
    and x: "seat_heap s st = Some x" "vt_bound x" "cur_vt x < 0" "s_clients x = [c]" "active_client x = Some c"
  shows "seat_remove_client E c s = None"
proof -
  define x1 where "x1 = (if next_client x = Some c then x\<lparr>next_client := None\<rparr> else x)\<lparr>s_clients := removeAll c (s_clients x)\<rparr>"
  obtain t where first: "close_devices E c (unlink_client c (s\<lparr>seat_heap := (seat_heap s)(st \<mapsto>
      if next_client x = Some c then x\<lparr>next_client := None\<rparr> else x)\<rparr>))
    = Some (t\<lparr>client_heap := (client_heap s)(c \<mapsto> k\<lparr>c_devices := []\<rparr>), seat_heap := (seat_heap s)(st \<mapsto> x1)\<rparr>)"
    using remove_first_part [OF g k x(1), of E] x(4) unfolding x1_def by auto
  have "next_client x = None \<or> next_client x = Some c"
    using graph_seat_ok [OF g x(1)] x(4) by (cases "next_client x") (auto simp: seat_ok_def)
  then have x1: "s_clients x1 = []" "next_client x1 = None" "active_client x1 = Some c" "vt_bound x1" "cur_vt x1 = cur_vt x"
    using x by (auto simp: x1_def)
  let ?s = "t\<lparr>client_heap := (client_heap s)(c \<mapsto> k\<lparr>c_devices := []\<rparr>), seat_heap := (seat_heap s)(st \<mapsto> x1)\<rparr>"
  have "hand_over E st c ?s = Some (True, ?s\<lparr>seat_heap := (seat_heap s)(st \<mapsto> x1\<lparr>active_client := None\<rparr>)\<rparr>)"
    using x1 by (simp add: hand_over_def upd_seat_def seat_activate_def)
  moreover have "reset_vt E st c True (?s\<lparr>seat_heap := (seat_heap s)(st \<mapsto> x1\<lparr>active_client := None\<rparr>)\<rparr>) = None"
    using x1 x(3) by (simp add: reset_vt_def vt_close_negative)
  ultimately show ?thesis using k x(1) first by (simp add: seat_remove_client_def upd_seat_def)
qed

text \<open>Giving up the terminal leaves the seat in that state until the terminal comes back.\<close>

lemma seat_vt_release_seat:
  assumes g: "graph {} s" and E: "send_progress E" and x: "seat_heap s st = Some x" "vt_bound x"
    and call: "seat_vt_release E st s = Some (r, s')"
  shows "seat_heap s' st = Some (x\<lparr>cur_vt := - 1\<rparr>)"
proof -
  from call x obtain s1 x1 s2 r3 s3 where 1: "seat_update_vt E st s = Some s1" "seat_heap s1 st = Some x1"
    and 2: "(case active_client x1 of None \<Rightarrow> Some s1 | Some c \<Rightarrow> do { (_, s) \<leftarrow> seat_disable_client E c s1; Some s }) = Some s2"
    and 3: "vt_ack E st True s2 = Some (r3, s3)" and 4: "upd_seat st (\<lambda>x. x\<lparr>cur_vt := - 1\<rparr>) s3 = Some s'"
    by (auto simp: seat_vt_release_def bind_eq_Some_conv simp del: upd_seat_Some)
  from seat_update_vt_ok [OF g x(1) 1(1)] 1(2) obtain vt where g1: "graph {} s1" and x1: "x1 = x\<lparr>cur_vt := vt\<rparr>" by auto
  have "seat_heap s2 = seat_heap s1"
  proof (cases "active_client x1")
    case (Some c)
    then have "c \<in> set (s_clients x1)" using graph_seat_ok [OF g1 1(2)] by (simp add: seat_ok_def)
    then obtain k where k: "client_heap s1 c = Some k" using graph_member [OF g1 1(2)] by blast
    from 2 Some obtain r2 where "seat_disable_client E c s1 = Some (r2, s2)" by (auto simp: bind_eq_Some_conv)
    from seat_disable_client_ok [OF g1 E k _ this] show ?thesis by (auto simp: within_def)
  qed (use 2 in simp)
  with 1(2) x1 4 os_frame_sys(6) [OF vt_ack_frame [OF 3]] show ?thesis by auto
qed

lemma release_then_remove_aborts:
  assumes g: "graph {} s" and E: "send_progress E" and x: "seat_heap s st = Some x" "vt_bound x" "s_clients x = [c]" "active_client x = Some c"
    and call: "seat_vt_release E st s = Some (r, s')"
  shows "seat_remove_client E c s' = None"
proof -
  have x': "seat_heap s' st = Some (x\<lparr>cur_vt := - 1\<rparr>)" by (rule seat_vt_release_seat [OF g E x(1,2) call])
  have g': "graph {} s'" using seat_vt_release_ok [OF g E x(1) call] by simp
  obtain k where "client_heap s' c = Some k" "c_seat k = Some st" using graph_member [OF g' x', of c] x(3) by auto
  from seat_remove_client_aborts [OF g' this x'] x show ?thesis by simp
qed

text \<open>The paths that have been opened, most recent first.\<close>

definition opened_paths :: "trace \<Rightarrow> string list" where
  "opened_paths tr = concat (map (\<lambda>ev. case ev of E_open p _ _ \<Rightarrow> [p] | _ \<Rightarrow> []) tr)"

lemma opened_paths_simps [simp]:
  "opened_paths [] = []" "opened_paths (E_open p fl r # tr) = p # opened_paths tr"
  "opened_paths (E_close fd r1 # tr) = opened_paths tr" "opened_paths (E_ioctl fd req r2 # tr) = opened_paths tr"
  "opened_paths (E_realpath p r3 # tr) = opened_paths tr" "opened_paths (E_alloc b # tr) = opened_paths tr"
  by (simp_all add: opened_paths_def)

lemma sys_opened_paths:
  "opened_paths (trace (snd (sys_open E p fl s))) = p # opened_paths (trace s)"
  "opened_paths (trace (sys_close E fd s)) = opened_paths (trace s)"
  "opened_paths (trace (snd (sys_realpath E p s))) = opened_paths (trace s)"
  "opened_paths (trace (snd (sys_alloc E s))) = opened_paths (trace s)"
  "opened_paths (trace (snd (drm_set_master E fd s))) = opened_paths (trace s)"
  by (simp_all add: sys_open_def sys_close_def sys_realpath_def sys_alloc_def drm_set_master_def sys_ioctl_def Let_def split_def)

lemma open_new_device_opens:
  assumes "open_new_device E c p ty i s = Some (r, s')"
  shows "opened_paths (trace s') = p # opened_paths (trace s)"
proof -
  obtain fd s1 where 1: "sys_open E p [O_RDWR, O_NOCTTY, O_NOFOLLOW, O_CLOEXEC, O_NONBLOCK] s = (fd, s1)" by force
  obtain m s2 where 2: "(if ty = SEAT_DEVICE_TYPE_DRM then drm_set_master E fd s1 else (0, s1)) = (m, s2)" by force
  obtain a3 s3 where 3: "sys_alloc E s2 = (a3, s3)" by force
  obtain a4 s4 where 4: "sys_alloc E s3 = (a4, s4)" by force
  have "opened_paths (trace s1) = p # opened_paths (trace s)" using sys_opened_paths(1) [of E p _ s] 1 by (metis snd_conv)
  moreover have "opened_paths (trace s2) = opened_paths (trace s1)"
    using 2 sys_opened_paths(5) [of E fd s1] by (auto split: if_splits)
  moreover have "opened_paths (trace s3) = opened_paths (trace s2)" using 3 sys_opened_paths(4) [of E s2] by simp
  moreover have "opened_paths (trace s4) = opened_paths (trace s3)" using 4 sys_opened_paths(4) [of E s3] by simp
  ultimately show ?thesis
    using assms 1 2 3 4 by (auto simp: open_new_device_def bind_eq_Some_conv sys_opened_paths(2) split: if_splits)
qed

lemma seat_open_device_opens:
  assumes k: "client_heap s c = Some k" and call: "seat_open_device E c path s = Some (r, s')"
  shows "opened_paths (trace s') = opened_paths (trace s) \<and> r = None
    \<or> (\<exists>p ty. k_realpath E (trace s) path = Inr p \<and> device_class E p = Some ty \<and> c_state k = CLIENT_ACTIVE
        \<and> opened_paths (trace s') = p # opened_paths (trace s))"
proof (cases "c_state k = CLIENT_ACTIVE")
  case False
  with call k show ?thesis by (auto simp: seat_open_device_def bind_eq_Some_conv)
next
  case act: True
  obtain rp s1 where rp: "sys_realpath E path s = (rp, s1)" by force
  then have r2: "k_realpath E (trace s) path = rp" and r1: "opened_paths (trace s1) = opened_paths (trace s)"
    using sys_opened_paths(3) [of E path s] by (auto simp: sys_realpath_def Let_def)
  show ?thesis
  proof (cases rp)
    case (Inl e)
    with call k act rp r1 show ?thesis by (auto simp: seat_open_device_def bind_eq_Some_conv)
  next
    case (Inr p)
    show ?thesis
    proof (cases "device_class E p")
      case None
      with call k act rp r1 Inr show ?thesis by (auto simp: seat_open_device_def bind_eq_Some_conv)
    next
      case (Some ty)
      with call k act rp Inr obtain scan where "scan_devices p (c_devices k) 1 0 = Some scan"
        and sc: "(case scan of Inl i \<Rightarrow> do {
            n \<leftarrow> int_incr (ref_cnt (c_devices k ! i));
            s \<leftarrow> upd_client c (\<lambda>k. k\<lparr>c_devices := (c_devices k)[i := (c_devices k ! i)\<lparr>ref_cnt := n\<rparr>]\<rparr>) s1;
            Some (None, s) }
        | Inr (i, cnt) \<Rightarrow> if cnt \<ge> MAX_SEAT_DEVICES then Some (None, s1\<lparr>errno := EMFILE\<rparr>)
            else open_new_device E c p ty i s1) = Some (r, s')"
        by (auto simp: seat_open_device_def bind_eq_Some_conv [of "scan_devices _ _ _ _"]
            bind_eq_Some_conv [of "c_seat k"] bind_eq_Some_conv [of "seat_heap _ _"] bind_eq_Some_conv [of "oassert _"])
      show ?thesis
      proof (cases scan)
        case (Inl i)
        with sc r1 show ?thesis by (auto simp: bind_eq_Some_conv)
      next
        case new: (Inr q)
        then have "r = None \<and> s' = s1\<lparr>errno := EMFILE\<rparr> \<or> open_new_device E c p ty (fst q) s1 = Some (r, s')"
          using sc by (cases q) (auto split: if_splits)
        with open_new_device_opens [of E c p ty "fst q" s1 r s'] r1 r2 Inr Some act show ?thesis by auto
      qed
    qed
  qed
qed

lemma seat_vt_release_returns:
  assumes g: "graph {} s" and E: "kernel_ok E" and x: "seat_heap s st = Some x" "vt_bound x"
    and upd: "seat_update_vt E st s = Some s1" "seat_heap s1 st = Some x1" "0 \<le> cur_vt x1"
  shows "\<exists>s'. seat_vt_release E st s = Some (0, s')"
proof -
  from seat_update_vt_ok [OF g x(1) upd(1)] have g1: "graph {} s1" by simp
  have "\<exists>t. (case active_client x1 of None \<Rightarrow> Some s1 | Some c \<Rightarrow> do { (_, s) \<leftarrow> seat_disable_client E c s1; Some s }) = Some t
    \<and> seat_heap t st = Some x1"
  proof (cases "active_client x1")
    case (Some c)
    then have "c \<in> set (s_clients x1)" using graph_seat_ok [OF g1 upd(2)] by (simp add: seat_ok_def)
    then obtain k where k: "client_heap s1 c = Some k" "c_seat k = Some st" using graph_member [OF g1 upd(2)] by blast
    obtain r t where d: "seat_disable_client E c s1 = Some (r, t)" using seat_disable_client_returns [OF g1 E k(1) _ k(2)] by auto
    from seat_disable_client_ok [OF g1 kernel_okD(1) [OF E] k(1) _ d] have "within {c} {} s1 t" by auto
    with d Some upd(2) show ?thesis by (simp add: within_def)
  qed (use upd in simp)
  then obtain t where t: "(case active_client x1 of None \<Rightarrow> Some s1 | Some c \<Rightarrow> do { (_, s) \<leftarrow> seat_disable_client E c s1; Some s }) = Some t"
    "seat_heap t st = Some x1" by blast
  have "\<exists>r u. vt_ack E st True t = Some (r, u)" using terminal_open_returns [OF upd(3), of E t] t(2) by (auto simp: vt_ack_def split_def)
  then obtain r u where u: "vt_ack E st True t = Some (r, u)" by blast
  then have "seat_heap u st = Some x1" using os_frame_sys(6) [OF vt_ack_frame [OF u]] t(2) by simp
  with x upd t u show ?thesis by (simp add: seat_vt_release_def upd_seat_def)
qed

lemma scan_devices_found:
  assumes "p \<in> dev_path ` set ds" and "\<forall>d \<in> set ds. device_id d < INT_MAX"
  shows "\<exists>i < length ds. scan_devices p ds 1 0 = Some (Inl i) \<and> dev_path (ds ! i) = p"
proof -
  obtain r where r: "scan_devices p ds 1 0 = Some r" using scan_devices_returns [OF assms(2), of 1 p 0] by (auto simp: INT_MAX_def)
  with scan_devices_ok [OF r] assms(1) show ?thesis by (auto split: sum.splits)
qed

text \<open>
  Opening a path that the client has open already counts a reference, but the caller is told
  that it failed.
\<close>

lemma seat_open_device_again:
  assumes g: "graph {} s" and k: "client_heap s c = Some k" "c_state k = CLIENT_ACTIVE" and room: "roomy k"
    and p: "k_realpath E (trace s) path = Inr p" "device_class E p \<noteq> None" "p \<in> dev_path ` set (c_devices k)"
  shows "\<exists>s' i. seat_open_device E c path s = Some (None, s') \<and> i < length (c_devices k) \<and> dev_path (c_devices k ! i) = p
    \<and> client_heap s' c = Some (k\<lparr>c_devices := (c_devices k)[i := (c_devices k ! i)\<lparr>ref_cnt := ref_cnt (c_devices k ! i) + 1\<rparr>]\<rparr>)
    \<and> errno s' = errno s"
proof -
  obtain st where st: "c_seat k = Some st" using graph_client_ok [OF g k(1)] k(2) by (cases "c_seat k") (auto simp: client_ok_def)
  obtain x where x: "seat_heap s st = Some x" "c \<in> set (s_clients x)" using graph_client_seat [OF g k(1) st] by auto
  have act: "active_client x = Some c" using graph_member [OF g x] k by (auto simp: active_state_def)
  obtain i where i: "i < length (c_devices k)" "scan_devices p (c_devices k) 1 0 = Some (Inl i)" "dev_path (c_devices k ! i) = p"
    using scan_devices_found [OF p(3)] room by (auto simp: roomy_def)
  have "ref_cnt (c_devices k ! i) < INT_MAX" using room i(1) by (auto simp: roomy_def)
  moreover obtain ty where "device_class E p = Some ty" using p(2) by auto
  ultimately show ?thesis
    using k st x(1) act p(1) i by (auto simp: seat_open_device_def sys_realpath_def Let_def note_result_def upd_client_def int_incr_def)
qed

section \<open>A switch of terminals\<close>

text \<open>Terminals that can be opened, on a platform where the path of every terminal fits.\<close>

definition terminals_open :: "env \<Rightarrow> bool" where
  "terminals_open E \<longleftrightarrow> platform E = Linux \<and> (\<forall>tr p fl. \<exists>fd. fd \<noteq> - 1 \<and> k_open E tr p fl = Inr fd)"

text \<open>From some point on the kernel reports \<open>n\<close> as the current terminal.\<close>

definition current_vt_from :: "env \<Rightarrow> int \<Rightarrow> nat \<Rightarrow> bool" where
  "current_vt_from E n i \<longleftrightarrow> (\<forall>tr fd. i \<le> length tr \<longrightarrow> k_ioctl E tr fd VT_GETSTATE = Inr n)"

lemma terminal_open_works:
  assumes "terminals_open E" and "0 \<le> vt"
  shows "\<exists>fd s'. terminal_open E vt s = Some (fd, s') \<and> fd \<noteq> - 1 \<and> os_frame s s'"
proof -
  obtain fd s' where t: "terminal_open E vt s = Some (fd, s')" using terminal_open_returns [OF assms(2)] by blast
  have "fd \<noteq> - 1"
  proof -
    let ?p = "take (TTYPATHLEN - 1) (''/dev/tty'' @ dec_string (nat vt))"
    obtain n where "n \<noteq> - 1" "k_open E (trace s) ?p [O_RDWR, O_NOCTTY] = Inr n" using assms(1) unfolding terminals_open_def by blast
    with t assms show ?thesis by (auto simp: terminal_open_def get_tty_path_def terminals_open_def sys_open_def c_int_def Let_def split: if_splits)
  qed
  with t terminal_open_frame [OF t] show ?thesis by blast
qed

lemma vt_open_works:
  assumes "terminals_open E" and "0 \<le> vt"
  shows "\<exists>s'. vt_open E vt s = Some (0, s') \<and> os_frame s s'"
proof -
  obtain fd s1 where "terminal_open E vt s = Some (fd, s1)" "fd \<noteq> - 1" using terminal_open_works [OF assms] by blast
  then have "\<exists>s'. vt_open E vt s = Some (0, s')" by (simp add: vt_open_def split_def)
  then show ?thesis using vt_open_frame by blast
qed

lemma vt_ack_returns: "seat_heap s st = Some x \<Longrightarrow> 0 \<le> cur_vt x \<Longrightarrow> \<exists>r s'. vt_ack E st release s = Some (r, s')"
  using terminal_open_returns [of "cur_vt x" E s] by (auto simp: vt_ack_def split_def)

lemma seat_update_vt_reads:
  assumes "terminals_open E" and x: "seat_heap s st = Some x"
  shows "\<exists>s' n. seat_update_vt E st s = Some s' \<and> seat_heap s' st = Some (x\<lparr>cur_vt := n\<rparr>)
    \<and> ((\<forall>tr fd. \<exists>n. k_ioctl E tr fd VT_GETSTATE = Inr n) \<and> kernel_ok E \<longrightarrow> 0 \<le> n)
    \<and> (current_vt_from E m (length (trace s)) \<longrightarrow> n = m)"
proof -
  obtain fd s1 where t: "terminal_open E 0 s = Some (fd, s1)" "fd \<noteq> - 1" "os_frame s s1" using terminal_open_works [OF assms(1)] by (metis order_refl)
  obtain n s2 where q: "terminal_current_vt E fd s1 = (n, s2)" by force
  have f: "os_frame s1 s2" using q sys_frames(3) [of s1 E fd VT_GETSTATE] assms(1)
    by (auto simp: terminal_current_vt_def terminals_open_def split: prod.splits sum.splits)
  have x2: "seat_heap s2 st = Some x" using x os_frame_sys(6) [OF os_frame_trans [OF t(3) f]] by simp
  have "length (trace s) \<le> length (trace s1)" using t(3) by (auto simp: os_frame_def)
  then have "current_vt_from E m (length (trace s)) \<longrightarrow> n = m" and "(\<forall>tr fd. \<exists>n. k_ioctl E tr fd VT_GETSTATE = Inr n) \<and> kernel_ok E \<longrightarrow> 0 \<le> n"
    using q assms(1) by (auto simp: terminal_current_vt_def terminals_open_def current_vt_from_def sys_ioctl_def Let_def kernel_ok_def split: sum.splits)
       (metis sum.distinct(1))
  moreover have "seat_update_vt E st s = Some (sys_close E fd (s2\<lparr>seat_heap := (seat_heap s2)(st \<mapsto> x\<lparr>cur_vt := n\<rparr>)\<rparr>))"
    using t q x2 by (simp add: seat_update_vt_def upd_seat_def)
  moreover have "seat_heap (sys_close E fd (s2\<lparr>seat_heap := (seat_heap s2)(st \<mapsto> x\<lparr>cur_vt := n\<rparr>)\<rparr>)) st = Some (x\<lparr>cur_vt := n\<rparr>)"
    by (simp add: os_frame_sys(6) [OF sys_frames(2)])
  ultimately show ?thesis by blast
qed

text \<open>As \<open>seat_open_client_effect\<close>, for a seat that is bound to terminals.\<close>

lemma seat_open_client_vt_effect:
  assumes g: "graph L s" and E: "kernel_ok E" "terminals_open E" and x: "seat_heap s st = Some x" "vt_bound x" "active_client x = None"
    and mem: "c \<in> set (s_clients x)" and safe: "vt_safe st s"
  shows "\<exists>r s' k'. seat_open_client E st c s = Some (r, s') \<and> within {c} {st} s s'
    \<and> seat_heap s' st = Some (x\<lparr>active_client := Some c\<rparr>) \<and> client_heap s' c = Some k' \<and> c_state k' = CLIENT_ACTIVE"
proof -
  obtain k where k: "client_heap s c = Some k" "c_seat k = Some st" "client_ok k" "\<not> active_state (c_state k)"
    using graph_member [OF g x(1) mem] x(3) by auto
  then have q: "c_state k = CLIENT_NEW \<or> c_state k = CLIENT_DISABLED"
    by (cases "c_state k") (auto simp: active_state_def client_ok_def)
  have "0 \<le> c_session k" using safe x(1,2) mem k(1) by (auto simp: vt_safe_def)
  then obtain s1 where v: "vt_open E (c_session k) s = Some (0, s1)" "os_frame s s1" using vt_open_works [OF E(2)] by blast
  obtain r s' where call: "seat_open_client E st c s = Some (r, s')" using seat_open_client_returns [OF g E(1) x(1) mem safe] by blast
  with k x q v(1) obtain r2 s2 where body: "do {
            (ds, s) \<leftarrow> each_device (seat_activate_device E) (c_devices k) s1;
            s \<leftarrow> upd_client c (\<lambda>k. k\<lparr>c_devices := ds, c_state := CLIENT_ACTIVE\<rparr>) s;
            s \<leftarrow> upd_seat st (\<lambda>x. x\<lparr>active_client := Some c\<rparr>) s;
            client_send_enable_seat E c s } = Some (r2, s2)"
      and rest: "s' = s2 \<or> (\<exists>r3. vt_close E (cur_vt x) s2 = Some (r3, s'))"
    by (auto simp: seat_open_client_def bind_eq_Some_conv simp del: upd_client_Some upd_seat_Some split: if_splits)
  have 1: "graph L s1" "client_heap s1 c = Some k" "seat_heap s1 st = Some x" "within {c} {st} s s1"
    using g k(1) x(1) v(2) by (simp_all add: graph_os_frame os_frame_sys within_os_frame)
  have "os_frame s2 s'" using rest vt_close_frame by auto
  with open_body_ok [OF 1(1) kernel_okD(1) [OF E(1)] 1(2,3) mem x(3) body] call within_trans [OF 1(4)] within_trans [OF _ within_os_frame]
  show ?thesis by (fastforce simp: os_frame_sys)
qed

text \<open>Giving the terminal up tells the active client to go, and takes its devices away.\<close>

lemma seat_vt_release_effect:
  assumes g: "graph {} s" and E: "kernel_ok E" "terminals_open E" "\<forall>tr fd. \<exists>n. k_ioctl E tr fd VT_GETSTATE = Inr n"
    and x: "seat_heap s st = Some x" "vt_bound x" "active_client x = Some c" and k: "client_heap s c = Some k" "c_state k = CLIENT_ACTIVE"
  shows "\<exists>s' k'. seat_vt_release E st s = Some (0, s') \<and> graph {} s' \<and> seat_heap s' st = Some (x\<lparr>cur_vt := - 1\<rparr>)
    \<and> client_heap s' = (client_heap s)(c \<mapsto> k') \<and> c_state k' = CLIENT_PENDING_DISABLE \<and> c_seat k' = c_seat k \<and> c_session k' = c_session k
    \<and> list_all2 (revoked E (trace s')) (c_devices k) (c_devices k')"
proof -
  obtain s1 n where u: "seat_update_vt E st s = Some s1" "seat_heap s1 st = Some (x\<lparr>cur_vt := n\<rparr>)" "0 \<le> n"
    using seat_update_vt_reads [OF E(2) x(1), of undefined] E(1,3) by blast
  from seat_update_vt_ok [OF g x(1) u(1)] have g1: "graph {} s1" and w1: "within {} {st} s s1" by auto
  then have c1: "client_heap s1 = client_heap s" by (auto simp: within_def)
  from seat_disable_client_effect [OF g1 E(1), of c k] k c1 obtain r s2 k' where
      d: "seat_disable_client E c s1 = Some (r, s2)" "client_heap s2 c = Some k'" "c_state k' = CLIENT_PENDING_DISABLE" "c_seat k' = c_seat k"
        "c_session k' = c_session k" "list_all2 (revoked E (trace s2)) (c_devices k) (c_devices k')" by auto
  from seat_disable_client_ok [OF g1 kernel_okD(1) [OF E(1)] _ _ d(1)] k c1 have w2: "within {c} {} s1 s2" by auto
  then have h2: "client_heap s2 = (client_heap s)(c \<mapsto> k')" "seat_heap s2 st = Some (x\<lparr>cur_vt := n\<rparr>)"
    using c1 d(2) u(2) by (auto simp: within_def)
  obtain r3 s4 where a: "vt_ack E st True s2 = Some (r3, s4)" using vt_ack_returns [OF h2(2), of E True] u(3) by auto
  note f = vt_ack_frame [OF a]
  let ?s = "s4\<lparr>seat_heap := (seat_heap s2)(st \<mapsto> x\<lparr>cur_vt := - 1\<rparr>)\<rparr>"
  have rel: "seat_vt_release E st s = Some (0, ?s)"
    using x u d(1) a h2 by (simp add: seat_vt_release_def upd_seat_def os_frame_sys [OF f])
  moreover have "graph {} ?s" using seat_vt_release_ok [OF g kernel_okD(1) [OF E(1)] x(1) rel] by simp
  moreover have "list_all2 (revoked E (trace ?s)) (c_devices k) (c_devices k')"
    using d(6) os_frame_trace [OF f] by (auto elim!: list_all2_mono intro: revoked_mono)
  ultimately show ?thesis using d h2 by (auto simp: os_frame_sys [OF f])
qed

lemma seat_ack_vt_effect:
  assumes g: "graph {} s" and k: "client_heap s c = Some k" "c_state k = CLIENT_PENDING_DISABLE" "c_seat k = Some st"
    and x: "seat_heap s st = Some x" "vt_bound x" "active_client x = Some c" "next_client x = None" "cur_vt x = - 1"
  shows "\<exists>s'. seat_ack_disable_client E c s = Some (0, s') \<and> graph {} s'
    \<and> s' = s\<lparr>client_heap := (client_heap s)(c \<mapsto> k\<lparr>c_state := CLIENT_DISABLED\<rparr>), seat_heap := (seat_heap s)(st \<mapsto> x\<lparr>active_client := None\<rparr>)\<rparr>"
proof -
  have mem: "c \<in> set (s_clients x)" using graph_client_seat [OF g k(1,3)] x(1) by auto
  have "client_ok (k\<lparr>c_state := CLIENT_DISABLED\<rparr>)" using graph_client_ok [OF g k(1)] k(3) by (auto simp: client_ok_def)
  with graph_set_active [OF g k(1) x(1) mem, of "k\<lparr>c_state := CLIENT_DISABLED\<rparr>" None] x(3) mem
  have "graph {} (s\<lparr>client_heap := (client_heap s)(c \<mapsto> k\<lparr>c_state := CLIENT_DISABLED\<rparr>), seat_heap := (seat_heap s)(st \<mapsto> x\<lparr>active_client := None\<rparr>)\<rparr>)"
    by (simp add: active_state_def)
  with k x mem show ?thesis
    by (simp add: seat_ack_disable_client_def upd_client_def upd_seat_def seat_activate_def)
qed

lemma seat_vt_activate_effect:
  assumes g: "graph {} s" and E: "kernel_ok E" "terminals_open E" "current_vt_from E (c_session kt) (length (trace s))"
    and x: "seat_heap s st = Some x" "vt_bound x" "active_client x = None" "next_client x = None"
    and t: "t \<in> set (s_clients x)" "client_heap s t = Some kt"
      "\<forall>d \<in> set (s_clients x). \<forall>k. client_heap s d = Some k \<longrightarrow> 0 \<le> c_session k \<and> (c_session k = c_session kt \<longrightarrow> d = t)"
  shows "\<exists>s' kt'. seat_vt_activate E st s = Some (0, s') \<and> seat_heap s' st = Some (x\<lparr>active_client := Some t, cur_vt := c_session kt\<rparr>)
    \<and> (\<forall>c. c \<noteq> t \<longrightarrow> client_heap s' c = client_heap s c) \<and> client_heap s' t = Some kt' \<and> c_state kt' = CLIENT_ACTIVE"
proof -
  let ?x = "x\<lparr>cur_vt := c_session kt\<rparr>"
  have n: "0 \<le> c_session kt" using t(3) t(1,2) by blast
  obtain s1 where u: "seat_update_vt E st s = Some s1" "seat_heap s1 st = Some ?x"
    using seat_update_vt_reads [OF E(2) x(1), of "c_session kt"] E(3) by blast
  from seat_update_vt_ok [OF g x(1) u(1)] have g1: "graph {} s1" and w1: "within {} {st} s s1" by auto
  obtain r3 s3 where a: "vt_ack E st False s1 = Some (r3, s3)" using vt_ack_returns [OF u(2), of E False] n by auto
  note f = vt_ack_frame [OF a]
  have 3: "graph {} s3" "seat_heap s3 st = Some ?x" "client_heap s3 = client_heap s"
    using g1 u(2) w1 graph_os_frame [OF f] by (auto simp: os_frame_sys [OF f] within_def)
  have "vt_safe st s3" using 3 n t(3) by (auto simp: vt_safe_def)
  from seat_open_client_vt_effect [OF 3(1) E(1,2) 3(2) _ _ _ this, of t] x t(1) obtain r s' kt' where
      o: "seat_open_client E st t s3 = Some (r, s')" "within {t} {st} s3 s'" "seat_heap s' st = Some (?x\<lparr>active_client := Some t\<rparr>)"
        "client_heap s' t = Some kt'" "c_state kt' = CLIENT_ACTIVE" by auto
  have ex: "\<forall>d \<in> set (s_clients x). client_heap s3 d \<noteq> None" using seat_clients_exist [OF 3(1,2)] by simp
  have "find_client (\<lambda>k. c_session k = c_session kt) (s_clients x) s3 = Some (Some t)"
    by (rule find_client_unique [OF t(1), of s3 kt]) (use t(2) 3(3) ex in \<open>simp_all\<close>, use t(3) in blast)
  then have "seat_activate E st s3 = Some (r, s')"
    using x t(1) n 3(2) o(1) by (auto simp: seat_activate_def)
  then have "seat_vt_activate E st s = Some (0, s')" using x u a 3(2) by (simp add: seat_vt_activate_def)
  moreover have "\<forall>c. c \<noteq> t \<longrightarrow> client_heap s' c = client_heap s c" using o(2) 3(3) by (simp add: within_def)
  ultimately show ?thesis using o(3-5) by auto
qed

end
