(* ===== verification/Sample.thy ===== *)
theory Sample
  imports Switching
begin

text \<open>
  A state of the server in the middle of a run, for the theorems to be applied to: one seat with
  two clients, the first active and holding an input device, and a listening socket.
\<close>

definition sample_client :: "nat \<Rightarrow> int \<Rightarrow> int \<Rightarrow> client_state \<Rightarrow> seat_device list \<Rightarrow> client" where
  "sample_client i fd session state devs = \<lparr>event_source = Some i, connection = zero_connection fd, c_pid = 100, c_uid = 1000,
     c_gid = 1000, c_seat = Some 0, c_session = session, c_state = state, c_devices = devs\<rparr>"

definition sample_device :: seat_device where
  "sample_device = \<lparr>device_id = 1, dev_fd = 20, ref_cnt = 1, dev_active = True, dev_path = ''/dev/input/event0'',
     dev_type = SEAT_DEVICE_TYPE_EVDEV\<rparr>"

definition sample_seat :: "bool \<Rightarrow> nat list \<Rightarrow> seat" where
  "sample_seat vt cs = \<lparr>seat_name = ''seat0'', s_clients = cs, active_client = Some 1, next_client = None, vt_bound = vt,
     cur_vt = 1, session_cnt = 2\<rparr>"

definition sample_source :: "nat \<Rightarrow> int \<Rightarrow> handler \<Rightarrow> handler event_source_fd" where
  "sample_source i fd h = \<lparr>es_id = i, es_handler = h, es_fd = fd, es_mask = EVENT_READABLE, es_killed = False, es_pollfd_idx = - 1\<rparr>"

definition sample_sys :: "seat \<Rightarrow> sys" where
  "sample_sys x = \<lparr>errno = 0, trace = [], poller = \<lparr>p_signals = [], p_fds = [sample_source 2 12 (Client_handle_connection 2),
       sample_source 1 11 (Client_handle_connection 1), sample_source 0 5 Server_handle_connection],
       signal_fds = (3, 4), pollfds = [], fd_event_sources = 4, dirty = True, p_supply = 3\<rparr>, global_poller = True,
     running = True, seats = [0], idle_clients = [], seat_heap = [0 \<mapsto> x],
     client_heap = [1 \<mapsto> sample_client 1 11 0 CLIENT_ACTIVE [sample_device],
       2 \<mapsto> sample_client 2 12 1 CLIENT_NEW []], next_addr = 3\<rparr>"

lemma sample_inv: "server_inv (sample_sys (sample_seat vt [2, 1]))"
proof -
  let ?s = "sample_sys (sample_seat vt [2, 1])"
  have view: "view (client_heap ?s) = [1 \<mapsto> (Some 0, True, 0), 2 \<mapsto> (Some 0, False, 1)]"
    by (rule ext) (simp add: view_def sample_sys_def cview_def sample_client_def active_state_def)
  have heap: "seat_heap ?s = [0 \<mapsto> sample_seat vt [2, 1]]" "seats ?s = [0]" "idle_clients ?s = []" by (simp_all add: sample_sys_def)
  have "seat_ok 0 (sample_seat vt [2, 1]) (view (client_heap ?s))"
    unfolding view by (simp add: seat_ok_def sample_seat_def sess_def INT_MAX_def)
  then have "shape_ok {} [0] [] [0 \<mapsto> sample_seat vt [2, 1]] (view (client_heap ?s))"
    unfolding view by (auto simp: shape_ok_def members_def sample_seat_def)
  moreover have "client_ok (sample_client i fd n q ds)" if "n \<noteq> - 1" "q \<noteq> CLIENT_CLOSED" "ds = [] \<or> ds = [sample_device]" for i fd n q ds
    using that by (auto simp: client_ok_def sample_client_def zero_connection_ok devices_ok_def device_ok_def sample_device_def INT_MAX_def MAX_SEAT_DEVICES_def)
  ultimately have "graph {} ?s" unfolding graph_def heap by (auto simp: sample_sys_def split: if_splits)
  moreover have "poller_ok (poller ?s)" by (simp add: poller_ok_def sample_sys_def live_fds_def sample_source_def)
  moreover have "sources_ok {} (poller ?s) (owners ?s)"
    by (auto simp: sources_ok_def source_of_def callback_ok_def owners_def sample_sys_def sample_source_def sample_client_def
        zero_connection_def find_fd_def split: if_splits)
  moreover have "fresh_ok ?s" by (auto simp: fresh_ok_def sample_sys_def)
  ultimately show ?thesis by (simp add: server_inv_def)
qed

lemma sample_steady: "steady (sample_sys (sample_seat vt [2, 1]))"
  by (auto simp: steady_def vt_safe_def roomy_def sample_sys_def sample_seat_def sample_client_def sample_device_def
      INT_MAX_def split: if_splits)

lemma sample_kernel_ok: "kernel_ok sample_env"
  by (simp add: kernel_ok_def) (simp add: sample_env_def)

lemma sample_connects:
  "\<exists>s r s' seat x k. reachable sample_env s \<and> client_heap s 1 = None \<and> server_add_client sample_env 7 s = Some (r, s')
    \<and> seat_heap s' 0 = Some seat \<and> client_heap s' 1 = Some k \<and> c_state k = CLIENT_NEW
    \<and> x \<in> set (p_fds (poller s')) \<and> \<not> es_killed x \<and> es_handler x = Client_handle_connection 1"
proof -
  have "\<exists>s seat. server_init sample_env boot = Some (0, s) \<and> next_addr s = 1 \<and> client_heap s 1 = None \<and> seat_heap s 0 = Some seat"
    by (simp add: server_init_def boot_def poller_init_def sample_env_def call_defs poller_add_signal_def
         poller_set_nonblock_def seat_create_def SIGUSR1_def SIGUSR2_def SIGINT_def SIGTERM_def)
  then obtain s seat where s: "server_init sample_env boot = Some (0, s)" "next_addr s = 1" "client_heap s 1 = None"
    "seat_heap s 0 = Some seat" by blast
  have r: "reachable sample_env s" by (rule reachable.init [OF os_frame_refl s(1)])
  have "\<exists>r s' k. server_add_client sample_env 7 s = Some (r, s') \<and> seat_heap s' 0 = Some seat
    \<and> client_heap s' 1 = Some k \<and> c_state k = CLIENT_NEW
    \<and> (\<exists>x \<in> set (p_fds (poller s')). \<not> es_killed x \<and> es_handler x = Client_handle_connection 1)"
    by (simp add: server_add_client_def set_nonblock_def client_create_def get_peer_def poller_add_fd_def sample_env_def call_defs s upd_client_def)
  with r s(3) show ?thesis by blast
qed

lemma sample_reachable:
  "\<exists>s seat x k. reachable sample_env s \<and> seat_heap s 0 = Some seat \<and> client_heap s 1 = Some k \<and> c_state k = CLIENT_NEW
    \<and> x \<in> set (p_fds (poller s)) \<and> \<not> es_killed x \<and> es_handler x = Client_handle_connection 1"
  using sample_connects reachable.connect [of sample_env] by blast

lemma sample_seats: "seat_heap (sample_sys x) 0 = Some x"
  by (simp add: sample_sys_def)

lemma sample_clients:
  "client_heap (sample_sys x) 1 = Some (sample_client 1 11 0 CLIENT_ACTIVE [sample_device])"
  "client_heap (sample_sys x) 2 = Some (sample_client 2 12 1 CLIENT_NEW [])"
  by (simp_all add: sample_sys_def)

section \<open>A seat with one client\<close>

definition lone_sys :: sys where
  "lone_sys = (sample_sys (sample_seat True [1]))\<lparr>client_heap := [1 \<mapsto> sample_client 1 11 0 CLIENT_ACTIVE [sample_device]],
     poller := (poller (sample_sys (sample_seat True [1])))\<lparr>p_fds := [sample_source 1 11 (Client_handle_connection 1)], fd_event_sources := 2\<rparr>\<rparr>"

lemma lone_inv: "server_inv lone_sys"
proof -
  have view: "view (client_heap lone_sys) = [1 \<mapsto> (Some 0, True, 0)]"
    by (rule ext) (simp add: view_def lone_sys_def cview_def sample_client_def active_state_def)
  have heap: "seat_heap lone_sys = [0 \<mapsto> sample_seat True [1]]" "seats lone_sys = [0]" "idle_clients lone_sys = []"
    by (simp_all add: lone_sys_def sample_sys_def)
  have "seat_ok 0 (sample_seat True [1]) (view (client_heap lone_sys))"
    unfolding view by (simp add: seat_ok_def sample_seat_def sess_def INT_MAX_def)
  then have "shape_ok {} [0] [] [0 \<mapsto> sample_seat True [1]] (view (client_heap lone_sys))"
    unfolding view by (auto simp: shape_ok_def members_def sample_seat_def)
  moreover have "client_ok (sample_client 1 11 0 CLIENT_ACTIVE [sample_device])"
    by (auto simp: client_ok_def sample_client_def zero_connection_ok devices_ok_def device_ok_def sample_device_def INT_MAX_def MAX_SEAT_DEVICES_def)
  ultimately have "graph {} lone_sys" unfolding graph_def heap by (auto simp: lone_sys_def split: if_splits)
  moreover have "poller_ok (poller lone_sys)" by (simp add: poller_ok_def lone_sys_def sample_sys_def live_fds_def sample_source_def)
  moreover have "sources_ok {} (poller lone_sys) (owners lone_sys)"
    by (auto simp: sources_ok_def source_of_def callback_ok_def owners_def lone_sys_def sample_sys_def sample_source_def sample_client_def
        zero_connection_def find_fd_def split: if_splits)
  moreover have "fresh_ok lone_sys" by (auto simp: fresh_ok_def lone_sys_def sample_sys_def)
  ultimately show ?thesis by (simp add: server_inv_def)
qed

end
