(* ===== verification/Lifecycle.thy ===== *)
theory Lifecycle
  imports Sample
begin

text \<open>
  The life of a client (\<open>enum client_state\<close> in \<open>include/client.h\<close>) goes one way: whatever operations, requests, signals
  and rounds of the event loop do to the heap of clients, no client returns to a phase of its life that is over. A client is
  named by its allocation: the model never gives the same name to two allocations, whatever addresses \<open>calloc\<close> returns.
\<close>

unbundle bit_operations_syntax

section \<open>The phases\<close>

text \<open>A client is new, has been activated, or is closed.\<close>

fun phase :: "client_state \<Rightarrow> nat" where
  "phase CLIENT_NEW = 0"
| "phase CLIENT_CLOSED = 2"
| "phase _ = 1"

lemma phase_closed [simp]: "phase q \<le> 2" "2 \<le> phase q \<longleftrightarrow> q = CLIENT_CLOSED"
  by (cases q; simp)+

section \<open>What the server does to its clients\<close>

text \<open>
  Every client that is there afterwards was there before and has not gone back to an earlier phase, or
  is new. The names of allocations are not used twice.
\<close>

definition known :: "sys \<Rightarrow> bool" where
  "known s \<longleftrightarrow> (\<forall>c \<in> dom (client_heap s). c < next_addr s)"

definition origin :: "sys \<Rightarrow> nat \<Rightarrow> client_state option" where
  "origin s c = (case client_heap s c of Some k \<Rightarrow> Some (c_state k) | None \<Rightarrow> if next_addr s \<le> c then Some CLIENT_NEW else None)"

definition moves :: "sys \<Rightarrow> sys \<Rightarrow> bool" where
  "moves s s' \<longleftrightarrow> (known s \<longrightarrow> known s' \<and> next_addr s \<le> next_addr s' \<and>
     (\<forall>c q'. origin s' c = Some q' \<longrightarrow> (\<exists>q. origin s c = Some q \<and> phase q \<le> phase q')))"

lemma moves_refl [simp]: "moves s s"
  by (auto simp: moves_def)

lemma moves_trans [trans]: "moves s t \<Longrightarrow> moves t u \<Longrightarrow> moves s u"
  unfolding moves_def by (meson order_trans)

lemma moves_trans3: "moves s t \<Longrightarrow> moves t u \<Longrightarrow> moves u v \<Longrightarrow> moves s v"
  by (blast intro: moves_trans)

lemma moves_same: "client_heap s' = client_heap s \<Longrightarrow> next_addr s' = next_addr s \<Longrightarrow> moves s s'"
  by (auto simp: moves_def known_def origin_def)

lemma moves_frame: "os_frame s s' \<Longrightarrow> moves s s'"
  by (rule moves_same) (simp_all add: os_frame_sys)

lemma moves_upd:
  assumes "client_heap s c = Some k" and "phase (c_state k) \<le> phase (c_state k')"
  shows "moves s (s\<lparr>client_heap := (client_heap s)(c \<mapsto> k')\<rparr>)"
  using assms by (auto simp: moves_def known_def origin_def split: if_splits)

lemma moves_step:
  "client_heap s c = Some k \<Longrightarrow> phase (c_state k) \<le> phase (c_state k') \<Longrightarrow> moves s (s\<lparr>client_heap := (client_heap s)(c \<mapsto> k')\<rparr>)"
  by (rule moves_upd) auto

lemma moves_simps [simp]:
  "moves s (t\<lparr>errno := e\<rparr>) = moves s t" "moves s (t\<lparr>seat_heap := h\<rparr>) = moves s t" "moves s (t\<lparr>idle_clients := l\<rparr>) = moves s t"
  "moves s (t\<lparr>poller := p\<rparr>) = moves s t" "moves s (t\<lparr>running := b\<rparr>) = moves s t" "moves s (unlink_client c t) = moves s t"
  "moves (s\<lparr>errno := e\<rparr>) t = moves s t" "moves (s\<lparr>seat_heap := h\<rparr>) t = moves s t" "moves (s\<lparr>idle_clients := l\<rparr>) t = moves s t"
  "moves (s\<lparr>poller := p\<rparr>) t = moves s t" "moves (s\<lparr>running := b\<rparr>) t = moves s t" "moves (unlink_client c s) t = moves s t"
  by (simp_all add: moves_def known_def origin_def unlink_client_def)

section \<open>The connection\<close>

lemma flush_loop_frame:
  assumes "flush_loop E cn s = Some (r, cn', s')"
  shows "os_frame s s'"
proof -
  let ?P = "\<lambda>E cn s (r, cn', s'). os_frame s s'"
  have "?P E cn s (r, cn', s')"
  proof (rule flush_loop.raw_induct [where P = ?P, OF _ assms])
    fix f E cn and s :: "'a os_scheme" and y
    assume IH: "\<And>E cn s y. f E cn s = Some y \<Longrightarrow> ?P E cn s y"
      and eq: "(if head (conn_out cn) - tail (conn_out cn) \<noteq> 0 then do {
        bs \<leftarrow> gather (connection_buffer_get_iov (conn_out cn)) (data (conn_out cn));
        fds \<leftarrow> build_cmsg (fds_out cn);
        (r, s) \<leftarrow> sendmsg_retry E (conn_fd cn) bs fds s;
        (case r of Inl _ \<Rightarrow> Some (- 1, cn, s)
         | Inr len \<Rightarrow> do {
             (b, s) \<leftarrow> connection_buffer_close_fds E (fds_out cn) s;
             f E (cn\<lparr>fds_out := b, conn_out := (conn_out cn)\<lparr>tail := tail (conn_out cn) + of_nat len\<rparr>\<rparr>) s }) }
      else Some (0, cn, s)) = Some y"
    show "?P E cn s y"
    proof (cases y)
      case (fields ry cy sy)
      have "os_frame s sy"
      proof (cases "head (conn_out cn) - tail (conn_out cn) = 0")
        case False
        with eq obtain bs fds r1 s1 where r1: "sendmsg_retry E (conn_fd cn) bs fds s = Some (r1, s1)"
          and rest: "(case r1 of Inl _ \<Rightarrow> Some (- 1, cn, s1)
           | Inr len \<Rightarrow> do {
               (b, s) \<leftarrow> connection_buffer_close_fds E (fds_out cn) s1;
               f E (cn\<lparr>fds_out := b, conn_out := (conn_out cn)\<lparr>tail := tail (conn_out cn) + of_nat len\<rparr>\<rparr>) s }) = Some y"
          by (auto simp: bind_eq_Some_conv)
        have f1: "os_frame s s1" using sendmsg_retry_result [OF r1] by simp
        show ?thesis
        proof (cases r1)
          case (Inr len)
          with rest fields obtain b s2 cn2 where "connection_buffer_close_fds E (fds_out cn) s1 = Some (b, s2)" "f E cn2 s2 = Some (ry, cy, sy)"
            by (auto simp: bind_eq_Some_conv)
          from f1 connection_buffer_close_fds_frame [OF this(1)] IH [OF this(2)] show ?thesis by (auto intro: os_frame_trans)
        qed (use rest fields f1 in auto)
      qed (use eq fields in auto)
      then show ?thesis by (simp add: fields)
    qed
  qed
  then show ?thesis by simp
qed

lemma connection_flush_frame: "connection_flush E cn s = Some (r, cn', s') \<Longrightarrow> os_frame s s'"
  by (auto simp: connection_flush_def bind_eq_Some_conv Let_def dest: flush_loop_frame split: if_splits)

lemma connection_buffer_put_frame: "connection_buffer_put b bs s = Some (r, b', s') \<Longrightarrow> os_frame s s'"
  by (auto simp: connection_buffer_put_def bind_eq_Some_conv Let_def split: if_splits)

lemma connection_put_frame: "connection_put E cn bs s = Some (r, cn', s') \<Longrightarrow> os_frame s s'"
  by (auto simp: connection_put_def bind_eq_Some_conv dest!: connection_flush_frame connection_buffer_put_frame
      split: if_splits intro: os_frame_trans)

lemma decode_cmsg_loop_frame: "decode_cmsg_loop E b ov ms s = Some (r, b', s') \<Longrightarrow> os_frame s s'"
proof (induction ms arbitrary: b ov s)
  case (Cons m ms)
  let ?big = "int (length (cmsg_data m)) > (int CONNECTION_BUFFER_SIZE - int (unat (connection_buffer_size b))) mod 2 ^ 64 \<or> ov"
  consider "\<not> cmsg_rights m" | "cmsg_rights m" "?big" | "cmsg_rights m" "\<not> ?big" by blast
  then show ?case
  proof cases
    case 2
    with Cons.prems have "os_frame (close_all E (take (length (cmsg_data m) div 4) (bytes_ints (cmsg_data m))) s) s'"
      by (intro Cons.IH [of b True]) (simp add: Let_def)
    with close_all_frame show ?thesis by (rule os_frame_trans)
  next
    case 3
    with Cons.prems obtain r1 b1 s1 where put: "connection_buffer_put b (cmsg_data m) s = Some (r1, b1, s1)"
      and rest: "(if r1 < 0 then Some (- 1, b1, s1) else decode_cmsg_loop E b1 False ms s1) = Some (r, b', s')"
      by (auto simp: Let_def bind_eq_Some_conv)
    from rest Cons.IH [of b1 False s1] have "os_frame s1 s'" by (auto split: if_splits)
    with connection_buffer_put_frame [OF put] show ?thesis by (rule os_frame_trans)
  qed (use Cons in auto)
qed (auto split: if_splits)

lemma connection_read_frame:
  assumes "connection_read E cn s = Some (r, cn', s')"
  shows "os_frame s s'"
proof (cases "unat (connection_buffer_size (conn_in cn)) \<ge> CONNECTION_BUFFER_SIZE")
  case False
  with assms obtain q s1 where 1: "recvmsg_retry E (conn_fd cn) (iov_len (connection_buffer_put_iov (conn_in cn))) s = Some (q, s1)"
    by (auto simp: connection_read_def bind_eq_Some_conv Let_def)
  then have f1: "os_frame s s1" using recvmsg_retry_result by blast
  show ?thesis
  proof (cases q)
    case (Inr m)
    with False assms 1 obtain q2 b2 s2 where "decode_cmsg E (fds_in cn) (snd m) s1 = Some (q2, b2, s2)" "s' = s2"
      by (auto simp: connection_read_def bind_eq_Some_conv Let_def split: if_splits prod.splits)
    then have "os_frame s1 s'" by (simp add: decode_cmsg_def decode_cmsg_loop_frame)
    with f1 show ?thesis by (rule os_frame_trans)
  qed (use False assms 1 f1 in \<open>auto simp: connection_read_def\<close>)
qed (use assms in \<open>auto simp: connection_read_def\<close>)

lemma connection_small_frames:
  "connection_put_fd cn fd s = Some (r, cn', s') \<Longrightarrow> os_frame s s'"
  "connection_get cn n s = Some (q, cn', s') \<Longrightarrow> os_frame s s'"
  "connection_close_fds E cn s = Some (cn', s') \<Longrightarrow> os_frame s s'"
  by (auto simp: connection_put_fd_def connection_get_def connection_close_fds_def bind_eq_Some_conv Let_def
      dest!: connection_buffer_put_frame connection_buffer_close_fds_frame split: if_splits intro: os_frame_trans)

section \<open>Operations that leave the state of clients alone\<close>

named_theorems moving \<open>operations move clients along the machine\<close>

lemma moves_connection:
  assumes "os_frame s t" and "upd_client c (\<lambda>k. k\<lparr>connection := cn\<rparr>) t = Some s'"
  shows "moves s s'"
proof -
  have "moves t s'" using assms(2) by (auto intro: moves_upd)
  with moves_frame [OF assms(1)] show ?thesis by (rule moves_trans)
qed

lemma client_put_moves [moving]: "client_put E c bs s = Some (r, s') \<Longrightarrow> moves s s'"
  by (auto simp: client_put_def bind_eq_Some_conv simp del: upd_client_Some intro: moves_connection connection_put_frame)

lemma client_conn_flush_moves [moving]: "client_conn_flush E c s = Some (r, s') \<Longrightarrow> moves s s'"
  by (auto simp: client_conn_flush_def bind_eq_Some_conv simp del: upd_client_Some intro: moves_connection connection_flush_frame)

lemma client_get_moves [moving]: "client_get c n s = Some (r, s') \<Longrightarrow> moves s s'"
  by (auto simp: client_get_def bind_eq_Some_conv simp del: upd_client_Some intro: moves_connection connection_small_frames(2))

lemma client_put_all_moves [moving]: "client_put_all E c bss s = Some (r, s') \<Longrightarrow> moves s s'"
  by (induction bss arbitrary: s) (auto simp: bind_eq_Some_conv dest!: client_put_moves split: if_splits intro: moves_trans)

lemma client_send_moves [moving]:
  "client_send_event E op c s = Some (r, s') \<Longrightarrow> moves s s'"
  "client_send_error E c e s = Some (r, s') \<Longrightarrow> moves s s'"
  "reply_header E c op s = Some (r, s') \<Longrightarrow> moves s s'"
  by (auto simp: client_send_event_def client_send_error_def reply_header_def bind_eq_Some_conv dest!: moving split: if_splits intro: moves_trans)

lemma event_source_moves [moving]:
  "event_source_fd_update i m s = Some s' \<Longrightarrow> moves s s'" "event_source_fd_destroy i s = Some s' \<Longrightarrow> moves s s'"
  by (auto simp: event_source_fd_update_def event_source_fd_destroy_def bind_eq_Some_conv)

lemma client_flush_moves [moving]: "client_flush E c s = Some (r, s') \<Longrightarrow> moves s s'"
  by (auto simp: client_flush_def bind_eq_Some_conv dest!: moving split: if_splits intro: moves_trans)

section \<open>Seats\<close>

lemma deactivate_frame: "seat_deactivate_device E d s = Some (r, d', s') \<Longrightarrow> os_frame s s'"
  using seat_deactivate_device_ok [of d E s] by (cases "dev_type d = SEAT_DEVICE_TYPE_NORMAL") (auto simp: seat_deactivate_device_def split: if_splits)

lemma activate_frame: "seat_activate_device E d s = Some (r, d', s') \<Longrightarrow> os_frame s s'"
  using seat_activate_device_ok [of d E s] by (cases "dev_type d = SEAT_DEVICE_TYPE_NORMAL") (auto simp: seat_activate_device_def split: if_splits)

lemma each_device_frame:
  assumes "\<And>d s r d' s'. f d s = Some (r, d', s') \<Longrightarrow> os_frame s s'"
  shows "each_device f ds s = Some (ds', s') \<Longrightarrow> os_frame s s'"
  by (induction ds arbitrary: s ds') (auto simp: bind_eq_Some_conv dest!: assms intro: os_frame_trans)

lemma os_frame_clients: "os_frame s s' \<Longrightarrow> client_heap s' = client_heap s"
  by (simp add: os_frame_sys)

lemma vt_moves [moving]:
  "vt_open E vt s = Some (r, s') \<Longrightarrow> moves s s'" "vt_close E vt s = Some (r, s') \<Longrightarrow> moves s s'"
  "vt_switch E st vt s = Some (r, s') \<Longrightarrow> moves s s'" "vt_ack E st rel s = Some (r, s') \<Longrightarrow> moves s s'"
  "reset_vt E st c b s = Some s' \<Longrightarrow> moves s s'"
  by (auto intro: moves_frame vt_open_frame vt_close_frame vt_switch_frame vt_ack_frame reset_vt_frame)

lemma seat_update_vt_moves [moving]: "seat_update_vt E st s = Some s' \<Longrightarrow> moves s s'"
  by (drule seat_update_vt_frame) (auto intro: moves_frame)

lemma moves_after: "moves s t \<Longrightarrow> os_frame t u \<Longrightarrow> moves s u"
  by (rule moves_trans [OF _ moves_frame])

lemma moves_devices: "upd_client c (\<lambda>k. k\<lparr>c_devices := f k\<rparr>) s = Some s' \<Longrightarrow> moves s s'"
  by (auto intro: moves_upd)

lemma set_state_moves:
  assumes "client_heap s c = Some k" and "os_frame s t" and "phase (c_state k) \<le> phase q"
    and "upd_client c (\<lambda>k. k\<lparr>c_devices := ds, c_state := q\<rparr>) t = Some s'"
  shows "moves s s'"
proof -
  have "client_heap t c = Some k" using assms(1) os_frame_clients [OF assms(2)] by simp
  with assms(3,4) have "moves t s'" by (auto intro: moves_upd)
  with moves_frame [OF assms(2)] show ?thesis by (rule moves_trans)
qed

lemma seat_open_client_moves [moving]:
  assumes "seat_open_client E st c s = Some (r, s')"
  shows "moves s s'"
proof -
  obtain k x where k: "client_heap s c = Some k" and x: "seat_heap s st = Some x" and "c_seat k = Some st"
    using assms by (auto simp: seat_open_client_def bind_eq_Some_conv oassert_def split: if_splits)
  show ?thesis
  proof (cases "c_state k \<noteq> CLIENT_NEW \<and> c_state k \<noteq> CLIENT_DISABLED \<or> active_client x \<noteq> None")
    case True
    with assms k x \<open>c_seat k = Some st\<close> show ?thesis by (auto simp: seat_open_client_def split: if_splits)
  next
    case False
    then have step: "phase (c_state k) \<le> phase CLIENT_ACTIVE" by auto
    from False assms k x \<open>c_seat k = Some st\<close> obtain r1 s1 r2 s2 where
        1: "(if vt_bound x then vt_open E (c_session k) s else Some (0, s)) = Some (r1, s1)"
      and 2: "(if r1 = - 1 then Some (- 1, s1)
          else do {
            (ds, s) \<leftarrow> each_device (seat_activate_device E) (c_devices k) s1;
            s \<leftarrow> upd_client c (\<lambda>k. k\<lparr>c_devices := ds, c_state := CLIENT_ACTIVE\<rparr>) s;
            s \<leftarrow> upd_seat st (\<lambda>x. x\<lparr>active_client := Some c\<rparr>) s;
            client_send_enable_seat E c s }) = Some (r2, s2)"
      and 3: "(if r2 = - 1 then do {
         (_, s) \<leftarrow> (if vt_bound x then vt_close E (cur_vt x) s2 else Some (0, s2));
         Some (- 1, s) }
       else Some (0, s2)) = Some (r, s')"
      by (auto simp: seat_open_client_def bind_eq_Some_conv)
    have f1: "os_frame s s1" using 1 by (auto dest: vt_open_frame split: if_splits)
    have "moves s s2"
    proof (cases "r1 = - 1")
      case False
      with 2 obtain ds t u v where t: "each_device (seat_activate_device E) (c_devices k) s1 = Some (ds, t)"
        and u: "upd_client c (\<lambda>k. k\<lparr>c_devices := ds, c_state := CLIENT_ACTIVE\<rparr>) t = Some u"
        and v: "upd_seat st (\<lambda>x. x\<lparr>active_client := Some c\<rparr>) u = Some v" and snd: "client_send_enable_seat E c v = Some (r2, s2)"
        by (auto simp: bind_eq_Some_conv simp del: upd_client_Some upd_seat_Some)
      have "os_frame s t" using f1 each_device_frame [OF activate_frame t] by (rule os_frame_trans)
      then have "moves s u" by (rule set_state_moves [OF k _ step u])
      then have "moves s v" using v by auto
      then show ?thesis using snd by (auto simp: client_send_enable_seat_def dest!: moving intro: moves_trans)
    qed (use 2 f1 in \<open>auto intro: moves_frame\<close>)
    with 3 show ?thesis by (auto simp: bind_eq_Some_conv dest!: moving split: if_splits intro: moves_trans)
  qed
qed

lemma seat_activate_moves [moving]: "seat_activate E st s = Some (r, s') \<Longrightarrow> moves s s'"
  by (auto simp: seat_activate_def bind_eq_Some_conv dest!: seat_open_client_moves
      split: if_splits option.splits intro: moves_trans)

lemma moves_session: "upd_client c (\<lambda>k. k\<lparr>c_session := n\<rparr>) s = Some s' \<Longrightarrow> moves s s'"
  by (auto intro: moves_upd)

lemma assign_session_moves [moving]: "assign_session E st c s = Some (r, s') \<Longrightarrow> moves s s'"
  by (auto simp: assign_session_def bind_eq_Some_conv Let_def simp del: upd_client_Some
      dest!: seat_update_vt_moves moves_session split: if_splits) (blast intro: moves_trans)+

lemma link_client_moves [moving]:
  assumes "link_client st c s = Some s'"
  shows "moves s s'"
proof -
  obtain k h where k: "client_heap s c = Some k"
    and s': "s' = (unlink_client c (s\<lparr>client_heap := (client_heap s)(c \<mapsto> k\<lparr>c_seat := Some st\<rparr>)\<rparr>))\<lparr>seat_heap := h\<rparr>"
    using assms by (auto simp: link_client_def bind_eq_Some_conv)
  show ?thesis unfolding s' by (simp add: moves_upd [OF k])
qed

lemma seat_add_client_moves [moving]: "seat_add_client E st c s = Some (r, s') \<Longrightarrow> moves s s'"
  by (auto simp: seat_add_client_def bind_eq_Some_conv dest!: assign_session_moves link_client_moves split: if_splits
      intro: moves_trans)

lemma seat_close_device_moves [moving]:
  assumes "seat_close_device E c i s = Some (r, s')"
  shows "moves s s'"
proof -
  have "moves s (sys_close E fd u)" if "upd_client c f s = Some t" "seat_deactivate_device E d t = Some (q, d', u)"
      "\<And>k. c_state (f k) = c_state k" for f t d q d' u fd
  proof -
    have "moves s t" using that(1,3) by (auto intro: moves_upd)
    then show ?thesis using deactivate_frame [OF that(2)] sys_frames(2) by (blast intro: moves_after)
  qed
  with assms show ?thesis
    by (fastforce simp: seat_close_device_def bind_eq_Some_conv simp del: upd_client_Some intro: moves_devices split: if_splits)
qed

lemma seat_open_device_moves [moving]:
  assumes "seat_open_device E c path s = Some (r, s')"
  shows "moves s s'"
proof -
  obtain k where k: "client_heap s c = Some k" using assms by (auto simp: seat_open_device_def bind_eq_Some_conv)
  have "moves s (t\<lparr>client_heap := (client_heap s)(c \<mapsto> k\<lparr>c_devices := ds\<rparr>)\<rparr>)" if "os_frame s t" for t ds
    using moves_trans [OF moves_frame [OF that] moves_upd [of t c k "k\<lparr>c_devices := ds\<rparr>"]] k os_frame_clients [OF that] by simp
  with k assms show ?thesis by (elim seat_open_device_cases) (auto intro: moves_frame)
qed

lemma close_devices_moves [moving]:
  assumes "close_devices E c s = Some s'"
  shows "moves s s'"
proof (rule close_devices.raw_induct [where P = "\<lambda>E c s s'. moves s s'", OF _ assms])
  fix f E c s s'
  assume IH: "\<And>E c s s'. f E c s = Some s' \<Longrightarrow> moves s s'"
    and eq: "client_heap s c \<bind> (\<lambda>k. if c_devices k = [] then Some s else do {
       (r, s) \<leftarrow> seat_close_device E c 0 s; f E c s }) = Some s'"
  then show "moves s s'"
    by (auto simp: bind_eq_Some_conv dest!: seat_close_device_moves IH split: if_splits intro: moves_trans)
qed

lemma hand_over_moves [moving]: "hand_over E st c s = Some (b, s') \<Longrightarrow> moves s s'"
  by (auto simp: hand_over_def bind_eq_Some_conv dest!: seat_activate_moves split: if_splits)

lemma seat_remove_client_moves [moving]:
  assumes "seat_remove_client E c s = Some s'"
  shows "moves s s'"
proof -
  obtain st h t u b v where t: "close_devices E c (unlink_client c (s\<lparr>seat_heap := h\<rparr>)) = Some t"
    and u: "hand_over E st c t = Some (b, u)" and v: "reset_vt E st c b u = Some v"
    and w: "upd_client c (\<lambda>k. k\<lparr>c_state := CLIENT_CLOSED, c_seat := None\<rparr>) v = Some s'"
    using assms by (auto simp: seat_remove_client_def bind_eq_Some_conv simp del: upd_client_Some)
  have "moves s t" using close_devices_moves [OF t] by simp
  also have "moves t u" using u by (rule hand_over_moves)
  also have "moves u v" using v by (rule vt_moves)
  also have "moves v s'" using w by (auto intro!: moves_step)
  finally show ?thesis .
qed

lemma seat_disable_client_moves [moving]:
  assumes "seat_disable_client E c s = Some (r, s')"
  shows "moves s s'"
proof -
  obtain k where k: "client_heap s c = Some k" using assms by (auto simp: seat_disable_client_def bind_eq_Some_conv)
  show ?thesis
  proof (cases "c_state k = CLIENT_ACTIVE")
    case True
    with assms k obtain ds t u q where t: "each_device (seat_deactivate_device E) (c_devices k) s = Some (ds, t)"
      and u: "upd_client c (\<lambda>k. k\<lparr>c_devices := ds, c_state := CLIENT_PENDING_DISABLE\<rparr>) t = Some u"
      and snd: "client_send_disable_seat E c u = Some (q, s')"
      by (auto simp: seat_disable_client_def bind_eq_Some_conv simp del: upd_client_Some split: if_splits)
    have "phase (c_state k) \<le> phase CLIENT_PENDING_DISABLE" using True by simp
    moreover have "os_frame s t" using each_device_frame [OF deactivate_frame t] .
    ultimately have "moves s u" using set_state_moves [OF k _ _ u] by blast
    then show ?thesis using snd by (auto simp: client_send_disable_seat_def dest!: client_send_moves intro: moves_trans)
  qed (use assms k in \<open>auto simp: seat_disable_client_def\<close>)
qed

lemma seat_ack_disable_client_moves [moving]:
  assumes "seat_ack_disable_client E c s = Some (r, s')"
  shows "moves s s'"
proof -
  obtain k where k: "client_heap s c = Some k" using assms by (auto simp: seat_ack_disable_client_def bind_eq_Some_conv)
  let ?t = "s\<lparr>client_heap := (client_heap s)(c \<mapsto> k\<lparr>c_state := CLIENT_DISABLED\<rparr>)\<rparr>"
  have "moves s ?t" if "c_state k = CLIENT_PENDING_DISABLE" using that by (intro moves_step [OF k]) simp
  with assms k show ?thesis
    by (auto simp: seat_ack_disable_client_def bind_eq_Some_conv dest!: seat_activate_moves split: if_splits intro: moves_trans)
qed

lemma moves_seat: "upd_seat st f s = Some s' \<Longrightarrow> moves s s'"
  by auto

lemma seat_set_next_session_moves [moving]:
  assumes "seat_set_next_session E c n s = Some (r, s')"
  shows "moves s s'"
proof -
  obtain k where k: "client_heap s c = Some k" using assms by (auto simp: seat_set_next_session_def bind_eq_Some_conv)
  show ?thesis
  proof (cases "c_state k = CLIENT_ACTIVE")
    case True
    with assms k obtain st x where x: "seat_heap s st = Some x"
      and run: "(if n \<le> 0 then Some (- 1, s\<lparr>errno := EINVAL\<rparr>)
       else if n = c_session k then Some (0, s)
       else if next_client x \<noteq> None then Some (0, s)
       else if vt_bound x then do {
         (r, s) \<leftarrow> vt_switch E st n s;
         if r = - 1 then Some (- 1, s) else Some (0, s) }
       else do {
         target \<leftarrow> find_client (\<lambda>k. c_session k = n) (s_clients x) s;
         (case target of None \<Rightarrow> Some (- 1, s\<lparr>errno := EINVAL\<rparr>)
          | Some t \<Rightarrow> do {
              s \<leftarrow> upd_seat st (\<lambda>x. x\<lparr>next_client := Some t\<rparr>) s;
              (_, s) \<leftarrow> seat_disable_client E c s;
              Some (0, s) }) }) = Some (r, s')"
      by (auto simp: seat_set_next_session_def bind_eq_Some_conv oassert_def split: if_split_asm)
    have vt: "moves s t" if "vt_switch E st n s = Some (q, t)" for q t using that by (rule vt_moves)
    have dis: "moves s u" if "upd_seat st f s = Some t" "seat_disable_client E c t = Some (q, u)" for f t q u
      using moves_trans [OF moves_seat [OF that(1)] seat_disable_client_moves [OF that(2)]] .
    show ?thesis
    proof (cases "n \<le> 0 \<or> n = c_session k \<or> next_client x \<noteq> None")
      case False
      then show ?thesis
      proof (cases "vt_bound x")
        case True
        with False run vt show ?thesis by (auto simp: bind_eq_Some_conv split: if_splits)
      next
        case vt: False
        with False run obtain target where "find_client (\<lambda>k. c_session k = n) (s_clients x) s = Some target" by (auto simp: bind_eq_Some_conv)
        with False vt run dis show ?thesis
          by (cases target) (auto simp: bind_eq_Some_conv simp del: upd_seat_Some)
      qed
    qed (use run in \<open>auto split: if_splits\<close>)
  qed (use assms k in \<open>auto simp: seat_set_next_session_def\<close>)
qed

lemma seat_vt_activate_moves [moving]: "seat_vt_activate E st s = Some (r, s') \<Longrightarrow> moves s s'"
  by (auto simp: seat_vt_activate_def bind_eq_Some_conv simp del: upd_seat_Some
      dest!: seat_update_vt_moves vt_moves(4) seat_activate_moves split: if_splits) (blast intro: moves_trans moves_trans3)+

lemma disable_active_moves:
  "(case a of None \<Rightarrow> Some t | Some c \<Rightarrow> do { (_, s) \<leftarrow> seat_disable_client E c t; Some s }) = Some u \<Longrightarrow> moves t u"
  by (cases a) (auto simp: bind_eq_Some_conv dest!: seat_disable_client_moves)

lemma seat_vt_release_moves [moving]: "seat_vt_release E st s = Some (r, s') \<Longrightarrow> moves s s'"
  by (auto simp: seat_vt_release_def bind_eq_Some_conv simp del: upd_seat_Some
      dest!: seat_update_vt_moves vt_moves(4) disable_active_moves moves_seat split: if_splits)
    (blast intro: moves_trans3 moves_trans)+

section \<open>Requests\<close>

lemma handle_open_seat_moves [moving]: "handle_open_seat E c s = Some (r, s') \<Longrightarrow> moves s s'"
  by (auto simp: handle_open_seat_def bind_eq_Some_conv Let_def simp del: client_put_all.simps
      dest!: seat_add_client_moves client_put_all_moves seat_open_client_moves split: if_splits option.split_asm)
    (blast intro: moves_trans moves_trans3)+

lemma handle_close_seat_moves [moving]: "handle_close_seat E c s = Some (r, s') \<Longrightarrow> moves s s'"
  by (auto simp: handle_close_seat_def bind_eq_Some_conv dest!: seat_remove_client_moves client_send_moves split: if_splits intro: moves_trans)

lemma seat_find_device_moves [moving]: "seat_find_device c n s = Some (d, s') \<Longrightarrow> moves s s'"
  by (auto simp: seat_find_device_def bind_eq_Some_conv split: if_splits option.splits)

lemma handle_close_device_moves [moving]:
  assumes "handle_close_device E c n s = Some (r, s')"
  shows "moves s s'"
proof -
  obtain k where k: "client_heap s c = Some k" using assms by (auto simp: handle_close_device_def bind_eq_Some_conv)
  show ?thesis
  proof (cases "c_seat k = None")
    case False
    with assms k obtain d t where t: "seat_find_device c n s = Some (d, t)" by (auto simp: handle_close_device_def bind_eq_Some_conv)
    note mt = seat_find_device_moves [OF t]
    show ?thesis
    proof (cases d)
      case None
      with assms k False t mt show ?thesis by (auto simp: handle_close_device_def dest!: client_send_moves intro: moves_trans)
    next
      case (Some i)
      with assms k False t obtain q u where u: "seat_close_device E c i t = Some (q, u)" by (auto simp: handle_close_device_def bind_eq_Some_conv)
      from moves_trans [OF mt seat_close_device_moves [OF u]] assms k False t Some u show ?thesis
        by (auto simp: handle_close_device_def dest!: client_send_moves split: if_splits intro: moves_trans)
    qed
  qed (use assms k in \<open>auto simp: handle_close_device_def\<close>)
qed

lemma handle_switch_session_moves [moving]: "handle_switch_session E c n s = Some (r, s') \<Longrightarrow> moves s s'"
  by (auto simp: handle_switch_session_def bind_eq_Some_conv dest!: seat_set_next_session_moves client_send_moves
      split: if_splits) (blast intro: moves_trans)+

lemma handle_disable_seat_moves [moving]: "handle_disable_seat E c s = Some (r, s') \<Longrightarrow> moves s s'"
  by (auto simp: handle_disable_seat_def bind_eq_Some_conv dest!: seat_ack_disable_client_moves client_send_moves
      split: if_splits) (blast intro: moves_trans)+

lemma handle_open_device_moves [moving]:
  assumes "handle_open_device E c path s = Some (r, s')"
  shows "moves s s'"
proof -
  obtain k where k: "client_heap s c = Some k" using assms by (auto simp: handle_open_device_def bind_eq_Some_conv)
  show ?thesis
  proof (cases "c_seat k = None")
    case False
    with assms k obtain d t where t: "seat_open_device E c path s = Some (d, t)" by (auto simp: handle_open_device_def bind_eq_Some_conv)
    note mt = seat_open_device_moves [OF t]
    show ?thesis
    proof (cases d)
      case None
      with assms k False t mt show ?thesis by (auto simp: handle_open_device_def dest!: client_send_moves intro: moves_trans)
    next
      case (Some i)
      with assms k False t obtain k' dv where k': "client_heap t c = Some k'" and dv: "nth_opt (c_devices k') i = Some dv"
        by (auto simp: handle_open_device_def bind_eq_Some_conv)
      obtain fd u where u: "sys_dup E (dev_fd dv) t = (fd, u)" by force
      have mu: "moves s u" using moves_after [OF mt] sys_frames(5) [of t E "dev_fd dv"] u by simp
      have close: "moves s v" if "seat_close_device E c i u = Some (q, v)" for q v
        using moves_trans [OF mu seat_close_device_moves [OF that]] .
      have put: "moves s w" if "connection_put_fd cn fd u = Some (q, cn', v)" "upd_client c (\<lambda>k. k\<lparr>connection := cn'\<rparr>) v = Some w" for cn q cn' v w
        using moves_trans [OF mu moves_connection [OF connection_small_frames(1) [OF that(1)] that(2)]] .
      from assms k False t Some k' dv u close put show ?thesis
        by (auto simp: handle_open_device_def bind_eq_Some_conv simp del: upd_client_Some client_put_all.simps
            dest!: client_send_moves client_put_all_moves split: if_splits) (blast intro: moves_trans)+
    qed
  qed (use assms k in \<open>auto simp: handle_open_device_def\<close>)
qed

lemma handle_open_device_msg_moves [moving]:
  assumes "handle_open_device_msg E c len s = Some (r, s')"
  shows "moves s s'"
proof -
  obtain m t where t: "(if 2 > len then Some (None, s) else client_get c 2 s) = Some (m, t)"
    using assms by (auto simp: handle_open_device_msg_def bind_eq_Some_conv)
  have mt: "moves s t" using t by (auto dest: client_get_moves split: if_splits)
  show ?thesis
  proof (cases m)
    case None
    with assms t mt show ?thesis by (auto simp: handle_open_device_msg_def)
  next
    case (Some bs)
    let ?n = "unat (decode_len_msg bs)"
    have run: "(if ?n \<noteq> len - 2 then Some (- 1, t) else if ?n > MAX_PATH_LEN then Some (- 1, t)
      else do {
        (path, s) \<leftarrow> client_get c ?n t;
        (case path of None \<Rightarrow> Some (- 1, s)
         | Some path \<Rightarrow>
             if ?n = 0 \<or> strnlen path ?n \<noteq> ?n - 1 then Some (- 1, s)
             else handle_open_device E c (bytes_string (takeWhile (\<lambda>b. b \<noteq> 0) path)) s) }) = Some (r, s')"
      using assms t Some by (simp add: handle_open_device_msg_def Let_def)
    show ?thesis
    proof (cases "?n \<noteq> len - 2 \<or> ?n > MAX_PATH_LEN")
      case True
      with run mt show ?thesis by (auto split: if_split_asm)
    next
      case False
      with run obtain p u where u: "client_get c ?n t = Some (p, u)" by (auto simp: bind_eq_Some_conv)
      have mu: "moves s u" using moves_trans [OF mt client_get_moves [OF u]] .
      from False run u mu show ?thesis
        by (cases p) (auto dest!: handle_open_device_moves split: if_split_asm intro: moves_trans)
    qed
  qed
qed

lemma handle_int_msg_moves:
  assumes "handle_int_msg f c len s = Some (r, s')" and f: "\<And>n s r s'. f c n s = Some (r, s') \<Longrightarrow> moves s s'"
  shows "moves s s'"
proof -
  obtain m t where t: "(if 4 \<noteq> len then Some (None, s) else client_get c 4 s) = Some (m, t)"
    using assms(1) by (auto simp: handle_int_msg_def bind_eq_Some_conv)
  have mt: "moves s t" using t by (auto dest: client_get_moves split: if_splits)
  from assms(1) t mt show ?thesis by (cases m) (auto simp: handle_int_msg_def dest!: f intro: moves_trans)
qed

lemma handle_empty_msg_moves:
  "handle_empty_msg f c len s = Some (r, s') \<Longrightarrow> (\<And>s r s'. f c s = Some (r, s') \<Longrightarrow> moves s s') \<Longrightarrow> moves s s'"
  by (auto simp: handle_empty_msg_def split: if_splits)

lemma handle_ping_moves [moving]: "handle_ping E c s = Some (r, s') \<Longrightarrow> moves s s'"
  by (auto simp: handle_ping_def dest: client_send_moves)

lemma switch_opcode_moves [moving]: "switch_opcode E c op len s = Some (r, s') \<Longrightarrow> moves s s'"
  by (auto simp: switch_opcode_def split: if_split_asm dest!: handle_open_device_msg_moves handle_empty_msg_moves handle_int_msg_moves
      dest: moving)

lemma client_handle_opcode_moves [moving]: "client_handle_opcode E c op len s = Some (r, s') \<Longrightarrow> moves s s'"
  by (auto simp: client_handle_opcode_def bind_eq_Some_conv dest!: switch_opcode_moves client_flush_moves split: if_splits intro: moves_trans)

lemma message_loop_moves [moving]:
  assumes "message_loop E c s = Some (b, s')"
  shows "moves s s'"
proof -
  let ?P = "\<lambda>E c s (b, s'). moves s s'"
  have "?P E c s (b, s')"
  proof (rule message_loop.raw_induct [where P = ?P, OF _ assms])
    fix f E c s y
    assume IH: "\<And>E c s y. f E c s = Some y \<Longrightarrow> ?P E c s y"
      and eq: "do {
        (hdr, s) \<leftarrow> client_get c 4 s;
        (case hdr of None \<Rightarrow> Some (True, s)
         | Some bs \<Rightarrow> do {
             k \<leftarrow> client_heap s c;
             let h = decode_header bs;
             if connection_pending (connection k) < unat (msg_size h) then do {
               s \<leftarrow> upd_client c (\<lambda>k. k\<lparr>connection := connection_restore (connection k) 4\<rparr>) s;
               Some (True, s) }
             else do {
               (r, s) \<leftarrow> client_handle_opcode E c (opcode h) (unat (msg_size h)) s;
               if r = - 1 then Some (False, s) else f E c s } }) } = Some y"
    obtain by' sy where y: "y = (by', sy)" by force
    obtain hdr t where t: "client_get c 4 s = Some (hdr, t)" using eq by (auto simp: bind_eq_Some_conv)
    note mt = client_get_moves [OF t]
    have rest: "moves t sy" if "hdr = Some bs" for bs
      using eq t that IH [of E c _ y]
      by (auto simp: y bind_eq_Some_conv Let_def dest!: client_handle_opcode_moves split: if_split_asm intro: moves_upd moves_trans)
    then have "moves s sy" using mt eq t by (cases hdr) (auto simp: y intro: moves_trans)
    then show "?P E c s y" by (simp add: y)
  qed
  then show ?thesis by simp
qed

lemma client_on_writable_moves [moving]: "client_on_writable E c s = Some (b, s') \<Longrightarrow> moves s s'"
  by (auto simp: client_on_writable_def bind_eq_Some_conv dest!: client_conn_flush_moves event_source_moves split: if_splits intro: moves_trans)

lemma client_on_readable_moves [moving]:
  assumes "client_on_readable E c s = Some (b, s')"
  shows "moves s s'"
proof -
  obtain k len cn t u where k: "client_heap s c = Some k" and t: "connection_read E (connection k) s = Some (len, cn, t)"
    and u: "upd_client c (\<lambda>k. k\<lparr>connection := cn\<rparr>) t = Some u"
    using assms by (auto simp: client_on_readable_def bind_eq_Some_conv simp del: upd_client_Some)
  have "moves s u" using moves_connection [OF connection_read_frame [OF t] u] .
  with assms k t u show ?thesis
    by (auto simp: client_on_readable_def simp del: upd_client_Some dest!: message_loop_moves split: if_splits intro: moves_trans)
qed

section \<open>Clients come and go\<close>

lemma moves_free:
  assumes "client_heap s c = Some k"
  shows "moves s (s\<lparr>client_heap := (client_heap s)(c := None)\<rparr>)"
proof -
  have "c < next_addr s" if "known s" using that assms by (auto simp: known_def)
  then show ?thesis by (auto simp: moves_def known_def origin_def split: if_splits)
qed

text \<open>The parts of \<open>client_destroy\<close>.\<close>

lemma close_conn_moves:
  "(if P then upd_client c (\<lambda>k. k\<lparr>connection := (connection k)\<lparr>conn_fd := - 1\<rparr>\<rparr>) (sys_close E fd s) else Some s) = Some t \<Longrightarrow> moves s t"
  using moves_trans [OF moves_frame [OF sys_frames(2)] moves_upd [of "sys_close E fd s"]] by (auto split: if_splits)

lemma leave_seat_moves: "(if P then seat_remove_client E c s else Some s) = Some t \<Longrightarrow> moves s t"
  by (auto dest: seat_remove_client_moves split: if_splits)

lemma drop_source_moves:
  "(case x of None \<Rightarrow> Some s | Some i \<Rightarrow> do {
     s \<leftarrow> event_source_fd_destroy i s; upd_client c (\<lambda>k. k\<lparr>event_source := None\<rparr>) s }) = Some t \<Longrightarrow> moves s t"
  by (cases x) (auto simp: bind_eq_Some_conv dest!: event_source_moves(2) elim!: moves_trans intro: moves_upd)

lemma free_moves:
  assumes "client_heap s c = Some k" and "connection_close_fds E cn s = Some (cn', t)"
  shows "moves s (t\<lparr>client_heap := (client_heap t)(c := None)\<rparr>)"
proof -
  note f = connection_small_frames(3) [OF assms(2)]
  have "moves t (t\<lparr>client_heap := (client_heap t)(c := None)\<rparr>)"
    by (rule moves_free) (use assms(1) os_frame_clients [OF f] in simp)
  with moves_frame [OF f] show ?thesis by (rule moves_trans)
qed

lemma client_destroy_moves [moving]:
  assumes "client_destroy E c s = Some s'"
  shows "moves s s'"
proof -
  let ?s = "if libseat_build E then s\<lparr>running := False\<rparr> else s"
  have "\<exists>t u v. moves ?s t \<and> moves t u \<and> moves (unlink_client c u) v \<and> moves v s'"
    using assms unfolding client_destroy_def Let_def
    by (clarsimp simp: bind_eq_Some_conv oassert_def simp del: upd_client_Some moves_simps split del: if_split)
      (drule close_conn_moves, drule leave_seat_moves, drule drop_source_moves, drule (1) free_moves, blast)
  then obtain t u v where "moves ?s t" "moves t u" "moves u v" "moves v s'" by auto
  moreover have "moves s ?s" by simp
  ultimately show ?thesis by (blast intro: moves_trans)
qed

lemma client_handle_connection_moves [moving]:
  assumes "client_handle_connection E m c s = Some (r, s')"
  shows "moves s s'"
proof -
  obtain go t where t: "(if m AND EVENT_ERROR \<noteq> 0 then Some (False, s)
        else if m AND EVENT_HANGUP \<noteq> 0 then Some (False, s)
        else do {
          (go, s) \<leftarrow> (if m AND EVENT_WRITABLE \<noteq> 0 then client_on_writable E c s else Some (True, s));
          if \<not> go then Some (False, s)
          else if m AND EVENT_READABLE \<noteq> 0 then client_on_readable E c s else Some (True, s) }) = Some (go, t)"
    using assms by (auto simp: client_handle_connection_def bind_eq_Some_conv simp del: if_split split del: if_split)
  have "moves s t" using t
    by (auto simp: bind_eq_Some_conv dest!: client_on_writable_moves client_on_readable_moves split: if_splits intro: moves_trans)
  with assms t show ?thesis
    by (auto simp: client_handle_connection_def bind_eq_Some_conv dest!: client_destroy_moves split: if_split_asm intro: moves_trans)
qed

lemma moves_new:
  "moves s (s\<lparr>next_addr := Suc (next_addr s), idle_clients := l, client_heap := (client_heap s)(next_addr s \<mapsto> new_client fd pid uid gid)\<rparr>)"
    (is "moves s ?s")
proof -
  have "origin ?s c = origin s c" if "known s" for c
  proof (cases "c = next_addr s")
    case True
    have "client_heap s (next_addr s) = None" using that by (auto simp: known_def)
    with True show ?thesis by (simp add: origin_def new_client_def)
  next
    case False
    then show ?thesis by (auto simp: origin_def split: option.splits)
  qed
  moreover have "known ?s" if "known s" using that by (simp add: known_def less_Suc_eq)
  ultimately show ?thesis by (auto simp: moves_def)
qed

lemma client_create_moves [moving]:
  assumes "client_create E fd s = (r, s')"
  shows "moves s s'"
  using client_create_cases [OF assms]
proof (elim disjE conjE exE)
  fix t pid uid gid
  assume f: "os_frame s t" and s': "s' = t\<lparr>next_addr := Suc (next_addr s), idle_clients := next_addr s # idle_clients s,
        client_heap := (client_heap s)(next_addr s \<mapsto> new_client fd pid uid gid)\<rparr>"
  have "moves t s'" unfolding s' using moves_new [where s = t and l = "next_addr s # idle_clients s"] os_frame_sys(7,8) [OF f] by simp
  with moves_frame [OF f] show ?thesis by (rule moves_trans)
qed (rule moves_frame)

lemma poller_add_fd_moves [moving]:
  assumes "poller_add_fd E fd m h s = (r, s')"
  shows "moves s s'"
proof -
  obtain t where f: "os_frame s t" and s': "s' = t\<lparr>poller := poller s'\<rparr>" using poller_add_fd_frame [OF assms] by blast
  have "moves s (t\<lparr>poller := p\<rparr>)" for p using f by (simp add: moves_frame)
  from this [of "poller s'"] show ?thesis unfolding s' [symmetric] .
qed

lemma server_add_client_moves [moving]:
  assumes "server_add_client E fd s = Some (r, s')"
  shows "moves s s'"
proof -
  obtain q s1 where 1: "set_nonblock E fd s = (q, s1)" by force
  have m1: "moves s s1" using set_nonblock_frame [of s E fd] 1 by (simp add: moves_frame)
  obtain p s2 where 2: "client_create E fd s1 = (p, s2)" by force
  have m2: "moves s s2" using moves_trans [OF m1 client_create_moves [OF 2]] .
  show ?thesis
  proof (cases "q = 0")
    case True
    show ?thesis
    proof (cases p)
      case None
      with assms 1 2 True m2 show ?thesis by (auto simp: server_add_client_def intro: moves_after sys_frames(2))
    next
      case (Some c)
      obtain src s3 where 3: "poller_add_fd E fd EVENT_READABLE (Client_handle_connection c) s2 = (src, s3)" by force
      have m3: "moves s s3" using moves_trans [OF m2 poller_add_fd_moves [OF 3]] .
      from assms 1 2 3 True Some obtain s4 where 4: "upd_client c (\<lambda>k. k\<lparr>event_source := src\<rparr>) s3 = Some s4"
        and rest: "(if src = None then do { s \<leftarrow> client_destroy E c s4; Some (- 1, s) } else Some (0, s4)) = Some (r, s')"
        by (auto simp: server_add_client_def bind_eq_Some_conv simp del: upd_client_Some split: if_splits)
      have "moves s3 s4" using 4 by (auto intro: moves_upd)
      with m3 have "moves s s4" by (rule moves_trans)
      with rest show ?thesis by (auto simp: bind_eq_Some_conv dest!: client_destroy_moves split: if_splits intro: moves_trans)
    qed
  qed (use assms 1 m1 in \<open>auto simp: server_add_client_def intro: moves_after sys_frames(2)\<close>)
qed

lemma call_fd_moves [moving]:
  assumes "call_fd E fd m h s = Some (r, s')"
  shows "moves s s'"
proof -
  have "moves s t" if "server_handle_connection E fd m s = Some (q, t)" for q t
  proof -
    obtain n s1 where 1: "sys_accept E fd s = (n, s1)" by force
    have "moves s s1" using sys_frames(8) [of s E fd] 1 by (simp add: moves_frame)
    moreover have "moves s (sys_shutdown E fd s)" by (rule moves_frame [OF sys_frames(9)])
    ultimately show ?thesis using that 1
      by (auto simp: server_handle_connection_def bind_eq_Some_conv dest!: server_add_client_moves split: if_splits intro: moves_trans)
  qed
  with assms show ?thesis by (cases h) (auto simp: call_fd_def dest: client_handle_connection_moves)
qed

lemma call_signal_moves [moving]: "call_signal E sig h s = Some (r, s') \<Longrightarrow> moves s s'"
  by (cases h) (auto simp: call_signal_def server_handle_vt_rel_def server_handle_vt_acq_def server_handle_kill_def bind_eq_Some_conv
      dest!: seat_vt_release_moves seat_vt_activate_moves split: option.splits)

section \<open>The event loop\<close>

lemma dispatch_fds_moves:
  assumes "dispatch_fds (call_fd E) cur s = Some s'"
  shows "moves s s'"
proof -
  let ?P = "\<lambda>call cur s s'. call = call_fd E \<longrightarrow> moves s s'"
  have "?P (call_fd E) cur s s'"
  proof (rule dispatch_fds.raw_induct [where P = ?P, OF _ assms], rule impI)
    fix f call cur s s'
    assume IH: "\<And>call cur s s'. f call cur s = Some s' \<Longrightarrow> call = call_fd E \<longrightarrow> moves s s'"
      and eq: "(case cur of None \<Rightarrow> Some s | Some i \<Rightarrow> do {
           s \<leftarrow> dispatch_fd call i s; nx \<leftarrow> elem_after es_id i (p_fds (poller s)); f call nx s }) = Some s'"
      and call: "call = call_fd E"
    have "moves s t" if "dispatch_fd (call_fd E) i s = Some t" for i t
      using that by (auto simp: dispatch_fd_def bind_eq_Some_conv dest!: call_fd_moves split: if_splits)
    with eq IH call show "moves s s'" by (cases cur) (auto simp: bind_eq_Some_conv, blast intro: moves_trans)
  qed
  then show ?thesis by simp
qed

lemma dispatch_signals_moves:
  assumes "dispatch_signals (call_signal E) cur s = Some s'"
  shows "moves s s'"
proof -
  let ?P = "\<lambda>call cur s s'. call = call_signal E \<longrightarrow> moves s s'"
  have "?P (call_signal E) cur s s'"
  proof (rule dispatch_signals.raw_induct [where P = ?P, OF _ assms], rule impI)
    fix f call cur s s'
    assume IH: "\<And>call cur s s'. f call cur s = Some s' \<Longrightarrow> call = call_signal E \<longrightarrow> moves s s'"
      and eq: "(case cur of None \<Rightarrow> Some s | Some i \<Rightarrow> do {
           s \<leftarrow> dispatch_signal call i s; nx \<leftarrow> elem_after ss_id i (p_signals (poller s)); f call nx s }) = Some s'"
      and call: "call = call_signal E"
    have "moves s t" if "dispatch_signal (call_signal E) i s = Some t" for i t
      using that by (auto simp: dispatch_signal_def bind_eq_Some_conv dest!: call_signal_moves split: if_splits)
    with eq IH call show "moves s s'" by (cases cur) (auto simp: bind_eq_Some_conv, blast intro: moves_trans)
  qed
  then show ?thesis by simp
qed

lemma dispatch_moves [moving]: "dispatch E (call_signal E) (call_fd E) s = Some s' \<Longrightarrow> moves s s'"
  by (auto simp: dispatch_def bind_eq_Some_conv dest!: drain_signals_frame [THEN moves_frame] dispatch_signals_moves dispatch_fds_moves
      split: if_splits intro: moves_trans moves_trans3)

lemma regenerate_moves:
  assumes "poller_ok (poller s)" and "regenerate E s = Some (r, s')"
  shows "moves s s'"
  using regenerate_cases [OF assms(1), of E] assms(2) by (auto intro: moves_frame)

lemma poller_poll_moves:
  assumes "poller_ok (poller s)" and call: "poller_poll E (call_signal E) (call_fd E) s = Some (r, s')"
  shows "moves s s'"
proof -
  from call obtain r1 s1 where g: "(if dirty (poller s) then regenerate E s else Some (0, s)) = Some (r1, s1)"
    by (auto simp: poller_poll_def bind_eq_Some_conv simp del: if_split split del: if_split)
  have 1: "moves s s1" using g regenerate_moves [OF assms(1)] by (auto split: if_splits)
  show ?thesis
  proof (cases "r1 = - 1")
    case True
    with call g 1 show ?thesis by (auto simp: poller_poll_def)
  next
    case False
    let ?s = "s1\<lparr>poller := (poller s1)\<lparr>dirty := False\<rparr>\<rparr>"
    from call g False obtain q t where
      pl: "poll_retry E (map (\<lambda>q. (pfd_fd q, pfd_events q)) (take (fd_event_sources (poller s1)) (pollfds (poller s1)))) ?s = Some (q, t)"
      and rest: "(case q of Inl _ \<Rightarrow> Some (- 1, t)
        | Inr rs \<Rightarrow> do {
            let s = t\<lparr>poller := (poller t)\<lparr>pollfds := set_revents rs (pollfds (poller t))\<rparr>\<rparr>;
            s \<leftarrow> dispatch E (call_signal E) (call_fd E) s;
            Some (0, s) }) = Some (r, s')"
      by (auto simp: poller_poll_def bind_eq_Some_conv Let_def)
    have "moves s1 t" using moves_frame poll_retry_frame [OF pl] by fastforce
    with 1 have "moves s t" by (rule moves_trans)
    with rest show ?thesis
      by (cases q) (auto simp: Let_def bind_eq_Some_conv dest!: dispatch_moves intro: moves_trans)
  qed
qed

lemma signal_handler_moves: "moves s (signal_handler E sig s)"
proof (cases "global_poller s")
  case True
  let ?s = "s\<lparr>poller := (poller s)\<lparr>p_signals := map (\<lambda>b. if ss_signal b = sig then b\<lparr>ss_raised := True\<rparr> else b) (p_signals (poller s))\<rparr>\<rparr>"
  obtain r t where t: "sys_write E (snd (signal_fds (poller ?s))) [0] ?s = (r, t)" by force
  then have "os_frame ?s t" using sys_frames(14) [of ?s E "snd (signal_fds (poller ?s))" "[0]"] by simp
  then have "moves ?s t" by (rule moves_frame)
  with True t show ?thesis by (simp add: signal_handler_def Let_def)
qed (simp add: signal_handler_def)

text \<open>What may happen to a running server, as in \<open>reachable\<close>.\<close>

inductive later :: "env \<Rightarrow> sys \<Rightarrow> sys \<Rightarrow> bool" for E s where
  now: "later E s s"
| listen: "later E s t \<Longrightarrow> poller_add_fd E fd EVENT_READABLE Server_handle_connection t = (src, u) \<Longrightarrow> later E s u"
| connect: "later E s t \<Longrightarrow> server_add_client E fd t = Some (r, u) \<Longrightarrow> later E s u"
| signal: "later E s t \<Longrightarrow> later E s (signal_handler E sig t)"
| poll: "later E s t \<Longrightarrow> poller_poll E (call_signal E) (call_fd E) t = Some (r, u) \<Longrightarrow> later E s u"

lemma later_inv:
  assumes "later E s t" and "server_inv s" and "send_progress E" and "recv_bounded E"
  shows "server_inv t"
  using assms(1)
proof induction
  case (poll t r u)
  then show ?case using poller_poll_inv [of E t r u] assms(3,4) by (simp add: server_ok_def)
qed (use assms(2) listen_inv server_add_client_inv [OF _ assms(3)] signal_handler_inv in blast)+

lemma later_moves:
  assumes "later E s t" and "server_inv s" and "send_progress E" and "recv_bounded E"
  shows "moves s t"
  using assms(1)
proof induction
  case (poll t r u)
  have "server_inv t" by (rule later_inv [OF poll.hyps(1) assms(2-4)])
  then have "moves t u" using poller_poll_moves poll.hyps(2) by (auto simp: server_inv_def)
  with poll.IH show ?case by (rule moves_trans)
qed (auto dest!: poller_add_fd_moves server_add_client_moves intro: moves_trans signal_handler_moves)

section \<open>A client that has closed its seat\<close>

text \<open>The seat of the sample server is not bound to terminals here, and its second client has closed it.\<close>

definition closed_client :: client where
  "closed_client = (sample_client 2 12 1 CLIENT_CLOSED [])\<lparr>c_seat := None\<rparr>"

definition closed_sys :: sys where
  "closed_sys = (sample_sys (sample_seat False [1]))\<lparr>idle_clients := [2],
     client_heap := [1 \<mapsto> sample_client 1 11 0 CLIENT_ACTIVE [sample_device], 2 \<mapsto> closed_client]\<rparr>"

lemma closed_sys_inv: "server_inv closed_sys"
proof -
  have view: "view (client_heap closed_sys) = [1 \<mapsto> (Some 0, True, 0), 2 \<mapsto> (None, False, 1)]"
    by (rule ext) (simp add: view_def closed_sys_def closed_client_def cview_def sample_client_def active_state_def)
  have heap: "seat_heap closed_sys = [0 \<mapsto> sample_seat False [1]]" "seats closed_sys = [0]" "idle_clients closed_sys = [2]"
    by (simp_all add: closed_sys_def sample_sys_def)
  have "seat_ok 0 (sample_seat False [1]) (view (client_heap closed_sys))"
    unfolding view by (simp add: seat_ok_def sample_seat_def sess_def INT_MAX_def)
  then have "shape_ok {} [0] [2] [0 \<mapsto> sample_seat False [1]] (view (client_heap closed_sys))"
    unfolding view by (auto simp: shape_ok_def members_def sample_seat_def)
  moreover have "client_ok (sample_client 1 11 0 CLIENT_ACTIVE [sample_device])" "client_ok closed_client"
    by (auto simp: client_ok_def closed_client_def sample_client_def zero_connection_ok devices_ok_def device_ok_def sample_device_def INT_MAX_def MAX_SEAT_DEVICES_def)
  ultimately have "graph {} closed_sys" unfolding graph_def heap by (auto simp: closed_sys_def split: if_splits)
  moreover have "poller_ok (poller closed_sys)" by (simp add: poller_ok_def closed_sys_def sample_sys_def live_fds_def sample_source_def)
  moreover have "sources_ok {} (poller closed_sys) (owners closed_sys)"
    by (auto simp: sources_ok_def source_of_def callback_ok_def owners_def closed_sys_def closed_client_def sample_sys_def sample_source_def
        sample_client_def zero_connection_def find_fd_def split: if_splits)
  moreover have "fresh_ok closed_sys" by (auto simp: fresh_ok_def closed_sys_def sample_sys_def)
  ultimately show ?thesis by (simp add: server_inv_def)
qed

text \<open>C20: a client that has closed its seat has closed it for good: whatever connections, signals and rounds of the event loop
  follow, as long as that client exists it is closed and has neither a seat nor a device, and no seat lists it, has it as its active
  client or has queued a switch to it. Clients are told apart by their allocation, not by the address that \<open>calloc\<close>
  returns.\<close>

theorem closed_for_good:
  assumes "server_inv s" and "later E s s'" and "send_progress E" and "recv_bounded E"
    and "client_heap s c = Some k" and "c_state k = CLIENT_CLOSED"
  shows "(\<forall>k'. client_heap s' c = Some k' \<longrightarrow> c_state k' = CLIENT_CLOSED \<and> c_seat k' = None \<and> c_devices k' = [])
    \<and> (\<forall>st x. seat_heap s' st = Some x \<longrightarrow> c \<notin> set (s_clients x) \<and> active_client x \<noteq> Some c \<and> next_client x \<noteq> Some c)"
proof -
  have g: "graph {} s'" using later_inv [OF assms(2,1,3,4)] by (simp add: server_inv_def)
  have "known s" using assms(1) by (auto simp: server_inv_def fresh_ok_def known_def)
  then have "\<exists>q. origin s c = Some q \<and> phase q \<le> phase (c_state k')" if "client_heap s' c = Some k'" for k'
    using later_moves [OF assms(2,1,3,4)] that unfolding moves_def by (simp add: origin_def)
  then have closed: "c_state k' = CLIENT_CLOSED" if "client_heap s' c = Some k'" for k'
    using that assms(5,6) by (fastforce simp: origin_def)
  have ok: "client_ok k'" if "client_heap s' c = Some k'" for k' using g that by (auto simp: graph_def)
  have "c \<notin> set (s_clients x)" if "seat_heap s' st = Some x" for st x
    using graph_member [OF g that] closed ok by (fastforce simp: client_ok_def)
  moreover have "active_client x = Some c \<or> next_client x = Some c \<Longrightarrow> c \<in> set (s_clients x)" if "seat_heap s' st = Some x" for st x
    using graph_seat_ok [OF g that] by (auto simp: seat_ok_def)
  ultimately show ?thesis using closed ok by (auto simp: client_ok_def)
qed

theorem closed_for_good_witness:
  "\<exists>r s' k'. server_add_client sample_env 7 closed_sys = Some (r, s') \<and> later sample_env closed_sys s' \<and> client_heap s' 2 = Some k'
    \<and> c_state k' = CLIENT_CLOSED \<and> (\<forall>st x. seat_heap s' st = Some x \<longrightarrow> active_client x \<noteq> Some 2)"
proof -
  have "\<exists>r s' k'. server_add_client sample_env 7 closed_sys = Some (r, s') \<and> client_heap s' 2 = Some k'"
    by (simp add: server_add_client_def set_nonblock_def client_create_def get_peer_def poller_add_fd_def sample_env_def call_defs
        upd_client_def closed_sys_def sample_sys_def)
  then obtain r s' k' where s': "server_add_client sample_env 7 closed_sys = Some (r, s')" "client_heap s' 2 = Some k'" by blast
  have l: "later sample_env closed_sys s'" by (rule later.connect [OF later.now s'(1)])
  have k: "client_heap closed_sys 2 = Some closed_client" "c_state closed_client = CLIENT_CLOSED"
    by (simp_all add: closed_sys_def closed_client_def sample_client_def)
  from closed_for_good [OF closed_sys_inv l _ _ k] s' l show ?thesis by auto
qed

end
