(* ===== verification/Log.thy ===== *)
theory Log
  imports Terminal "HOL-Library.Signed_Division"
begin

text \<open>
  The log, \<open>common/log.c\<close>: levels, the time stamp, and the writer on the standard error stream.
  The other theories leave the calls of the log out; the lemmas here justify it: with
  its own writer the log changes nothing but the history, and \<open>errno\<close> is what it was.
\<close>

section \<open>Levels\<close>

datatype libseat_log_level = LIBSEAT_LOG_LEVEL_SILENT | LIBSEAT_LOG_LEVEL_ERROR | LIBSEAT_LOG_LEVEL_INFO
  | LIBSEAT_LOG_LEVEL_DEBUG | LIBSEAT_LOG_LEVEL_LAST

fun level_value :: "libseat_log_level \<Rightarrow> nat" where
  "level_value LIBSEAT_LOG_LEVEL_SILENT = 0"
| "level_value LIBSEAT_LOG_LEVEL_ERROR = 1"
| "level_value LIBSEAT_LOG_LEVEL_INFO = 2"
| "level_value LIBSEAT_LOG_LEVEL_DEBUG = 3"
| "level_value LIBSEAT_LOG_LEVEL_LAST = 4"

lemma level_value_inject [simp]: "level_value l = level_value l' \<longleftrightarrow> l = l'"
  by (cases l; cases l') simp_all

text \<open>Levels are compared by their number.\<close>

instantiation libseat_log_level :: linorder
begin

definition less_eq_libseat_log_level :: "libseat_log_level \<Rightarrow> libseat_log_level \<Rightarrow> bool" where
  "l \<le> l' \<longleftrightarrow> level_value l \<le> level_value l'"

definition less_libseat_log_level :: "libseat_log_level \<Rightarrow> libseat_log_level \<Rightarrow> bool" where
  "l < l' \<longleftrightarrow> level_value l < level_value l'"

instance
  by standard (auto simp: less_eq_libseat_log_level_def less_libseat_log_level_def)

end

section \<open>State\<close>

text \<open>
  The static variables; the handler is the writer of this file or one that the application has set.
\<close>

datatype log_handler = Log_stderr | Application_handler

record log =
  current_log_level :: libseat_log_level
  current_log_handler :: log_handler
  start_time :: "int \<times> int"
  colored :: bool

definition initial_log :: log where
  "initial_log = \<lparr>current_log_level = LIBSEAT_LOG_LEVEL_SILENT, current_log_handler = Log_stderr, start_time = (- 1, - 1), colored = False\<rparr>"

section \<open>Writing\<close>

definition NSEC_PER_SEC :: int where "NSEC_PER_SEC = 1000000000"

definition timespec_sub :: "int \<times> int \<Rightarrow> int \<times> int \<Rightarrow> int \<times> int" where
  "timespec_sub a b =
     (let sec = fst a - fst b; nsec = snd a - snd b in
      if nsec < 0 then (sec - 1, nsec + NSEC_PER_SEC) else (sec, nsec))"

definition verbosity_colors :: "libseat_log_level \<Rightarrow> string" where
  "verbosity_colors l = (case l of
     LIBSEAT_LOG_LEVEL_ERROR \<Rightarrow> CHR 0x1B # ''[1;31m''
   | LIBSEAT_LOG_LEVEL_INFO \<Rightarrow> CHR 0x1B # ''[1;34m''
   | LIBSEAT_LOG_LEVEL_DEBUG \<Rightarrow> CHR 0x1B # ''[1;90m''
   | _ \<Rightarrow> '''')"

definition verbosity_headers :: "libseat_log_level \<Rightarrow> string" where
  "verbosity_headers l = (case l of
     LIBSEAT_LOG_LEVEL_ERROR \<Rightarrow> ''[ERROR]''
   | LIBSEAT_LOG_LEVEL_INFO \<Rightarrow> ''[INFO]''
   | LIBSEAT_LOG_LEVEL_DEBUG \<Rightarrow> ''[DEBUG]''
   | _ \<Rightarrow> '''')"

text \<open>\<open>%0<w>d\<close>\<close>

definition zero_padded :: "nat \<Rightarrow> int \<Rightarrow> string" where
  "zero_padded w i =
     (let d = dec_string (nat \<bar>i\<bar>); w = (if i < 0 then w - 1 else w) in
      (if i < 0 then ''-'' else '''') @ replicate (w - length d) CHR ''0'' @ d)"

text \<open>What stands in front of a message and after it.\<close>

definition log_header :: "log \<Rightarrow> libseat_log_level \<Rightarrow> int \<times> int \<Rightarrow> string" where
  "log_header lg level ts =
     (let c = (if level < LIBSEAT_LOG_LEVEL_LAST then level else LIBSEAT_LOG_LEVEL_DEBUG) in
      zero_padded 2 (fst ts sdiv 60 sdiv 60) @ '':'' @ zero_padded 2 (fst ts sdiv 60 smod 60) @ '':''
        @ zero_padded 2 (fst ts smod 60) @ ''.'' @ zero_padded 3 (snd ts sdiv 1000000) @ '' ''
        @ (if colored lg then verbosity_colors c else verbosity_headers c) @ '' '')"

definition log_postfix :: "log \<Rightarrow> string" where
  "log_postfix lg = (if colored lg then CHR 0x1B # ''[0m'' @ [CHR 0x0A] else [CHR 0x0A])"

text \<open>The three calls of \<open>fprintf\<close> are three writes on descriptor 2; the message is what the format makes of its arguments.\<close>

definition log_stderr :: "env \<Rightarrow> log \<Rightarrow> libseat_log_level \<Rightarrow> string \<Rightarrow> 'a os_scheme \<Rightarrow> 'a os_scheme" where
  "log_stderr E lg level message s =
     (let (now, s) = sys_clock E s;
          s = snd (sys_write E 2 (string_bytes (log_header lg level (timespec_sub now (start_time lg)))) s);
          s = snd (sys_write E 2 (string_bytes message) s) in
      snd (sys_write E 2 (string_bytes (log_postfix lg)) s))"

definition log_init :: "env \<Rightarrow> log \<Rightarrow> 'a os_scheme \<Rightarrow> log \<times> 'a os_scheme" where
  "log_init E lg s =
     (if fst (start_time lg) \<ge> 0 then (lg, s)
      else let (now, s) = sys_clock E s; (r, s) = sys_call E (C_isatty 2) s in
        (lg\<lparr>start_time := now, colored := (case r of Inr v \<Rightarrow> v \<noteq> 0 | Inl _ \<Rightarrow> False)\<rparr>, s))"

text \<open>\<open>_logf\<close>; the handler of the application is a parameter.\<close>

definition logf :: "env \<Rightarrow> (libseat_log_level \<Rightarrow> string \<Rightarrow> 'a os_scheme \<Rightarrow> 'a os_scheme) \<Rightarrow> log \<Rightarrow>
    libseat_log_level \<Rightarrow> string \<Rightarrow> 'a os_scheme \<Rightarrow> 'a os_scheme" where
  "logf E handler lg level message s =
     (let stored_errno = errno s in
      if level > current_log_level lg then s
      else let s = (case current_log_handler lg of
                      Log_stderr \<Rightarrow> log_stderr E lg level message s
                    | Application_handler \<Rightarrow> handler level message s) in
        s\<lparr>errno := stored_errno\<rparr>)"

text \<open>A null handler stands for the writer of this file.\<close>

definition libseat_set_log_handler :: "log_handler option \<Rightarrow> log \<Rightarrow> log" where
  "libseat_set_log_handler handler lg = lg\<lparr>current_log_handler := (case handler of None \<Rightarrow> Log_stderr | Some h \<Rightarrow> h)\<rparr>"

definition libseat_set_log_level :: "libseat_log_level \<Rightarrow> log \<Rightarrow> log" where
  "libseat_set_log_level level lg = lg\<lparr>current_log_level := level\<rparr>"

section \<open>Lemmas\<close>

lemma log_stderr_frame [frame]: "os_frame s (log_stderr E lg level message s)"
proof -
  obtain now s1 where 1: "sys_clock E s = (now, s1)" by (cases "sys_clock E s")
  have "os_frame s s1" using sys_clock_frame [of s E] 1 by simp
  moreover have "os_frame s1 (snd (sys_write E 2 c (snd (sys_write E 2 b (snd (sys_write E 2 a s1))))))" for a b c
    using os_frame_trans [OF os_frame_trans [OF sys_frames(14) sys_frames(14)] sys_frames(14)] .
  ultimately show ?thesis by (simp add: log_stderr_def 1 Let_def os_frame_trans)
qed

lemma logf_errno: "errno (logf E handler lg level message s) = errno s"
  by (simp add: logf_def Let_def)

lemma logf_frame: "current_log_handler lg = Log_stderr \<Longrightarrow> os_frame s (logf E handler lg level message s)"
  by (simp add: logf_def Let_def log_stderr_frame)

lemma log_init_frame [frame]: "os_frame s (snd (log_init E lg s))"
proof -
  obtain now s1 where 1: "sys_clock E s = (now, s1)" by (cases "sys_clock E s")
  obtain r s2 where 2: "sys_call E (C_isatty 2) s1 = (r, s2)" by force
  have "os_frame s s2" using sys_clock_frame [of s E] sys_call_frames(1) [of s1 E "C_isatty 2"] 1 2 by (auto intro: os_frame_trans)
  with 1 2 show ?thesis by (simp add: log_init_def)
qed

lemma timespec_sub_eq:
  assumes "0 \<le> snd a" "snd a < NSEC_PER_SEC" "0 \<le> snd b" "snd b < NSEC_PER_SEC"
  shows "fst (timespec_sub a b) * NSEC_PER_SEC + snd (timespec_sub a b)
      = (fst a * NSEC_PER_SEC + snd a) - (fst b * NSEC_PER_SEC + snd b)"
    and "0 \<le> snd (timespec_sub a b)" and "snd (timespec_sub a b) < NSEC_PER_SEC"
  using assms by (auto simp: timespec_sub_def Let_def NSEC_PER_SEC_def algebra_simps)

end
