(* ===== verification/Options.thy ===== *)
theory Options
  imports Prelude
begin

text \<open>
  What the two programs use of the C library to read their arguments: \<open>getopt\<close> as POSIX has it (reading
  stops at the first operand) and \<open>atoi\<close>.
\<close>

text \<open>Whether a character is an option, and whether that option has an argument, as in \<open>"n:z"\<close>.\<close>

fun takes_argument :: "string \<Rightarrow> char \<Rightarrow> bool option" where
  "takes_argument [] c = None"
| "takes_argument (x # xs) c =
     (if x = c \<and> c \<noteq> CHR '':'' then Some (xs \<noteq> [] \<and> hd xs = CHR '':'') else takes_argument xs c)"

text \<open>
  The results of the successive calls with their \<open>optarg\<close>, and the arguments from \<open>optind\<close> on. An unknown
  option and a missing argument are reported as \<open>?\<close>.
\<close>

function getopt :: "string \<Rightarrow> string list \<Rightarrow> (char \<times> string) list \<times> string list"
  and getopt_cluster :: "string \<Rightarrow> string \<Rightarrow> string list \<Rightarrow> (char \<times> string) list \<times> string list" where
  "getopt spec [] = ([], [])"
| "getopt spec (a # args) =
     (if a = ''--'' then ([], args)
      else if length a < 2 \<or> hd a \<noteq> CHR ''-'' then ([], a # args)
      else getopt_cluster spec (tl a) args)"
| "getopt_cluster spec [] args = getopt spec args"
| "getopt_cluster spec (c # cs) args =
     (case takes_argument spec c of
        None \<Rightarrow> let (os, rest) = getopt_cluster spec cs args in ((CHR ''?'', []) # os, rest)
      | Some False \<Rightarrow> let (os, rest) = getopt_cluster spec cs args in ((c, []) # os, rest)
      | Some True \<Rightarrow>
          if cs \<noteq> [] then let (os, rest) = getopt spec args in ((c, cs) # os, rest)
          else (case args of
              [] \<Rightarrow> ([(CHR ''?'', [])], [])
            | a # args \<Rightarrow> let (os, rest) = getopt spec args in ((c, a) # os, rest)))"
  by pat_completeness auto
termination
  by (relation "measure (\<lambda>x. case x of Inl (_, args) \<Rightarrow> 2 * sum_list (map (\<lambda>a. Suc (length a)) args)
      | Inr (_, cs, args) \<Rightarrow> Suc (2 * length cs + 2 * sum_list (map (\<lambda>a. Suc (length a)) args)))") auto

definition digit_value :: "char \<Rightarrow> int option" where
  "digit_value c = (let n = of_char c in if 48 \<le> n \<and> n \<le> 57 then Some (int n - 48) else None)"

definition is_space :: "char \<Rightarrow> bool" where
  "is_space c \<longleftrightarrow> c \<in> {CHR '' '', CHR 0x09, CHR 0x0A, CHR 0x0B, CHR 0x0C, CHR 0x0D}"

fun digits_value :: "int \<Rightarrow> string \<Rightarrow> int" where
  "digits_value v [] = v"
| "digits_value v (c # cs) = (case digit_value c of None \<Rightarrow> v | Some d \<Rightarrow> digits_value (10 * v + d) cs)"

text \<open>The behaviour is undefined if the value is not an \<open>int\<close>.\<close>

definition atoi :: "string \<Rightarrow> int option" where
  "atoi cs =
     (let cs = dropWhile is_space cs;
          v = (case cs of c # ds \<Rightarrow> if c = CHR ''-'' then - digits_value 0 ds
                 else if c = CHR ''+'' then digits_value 0 ds else digits_value 0 cs | [] \<Rightarrow> 0) in
      if is_int v then Some v else None)"

end
