(* ===== verification/Seatd_Main.thy ===== *)
theory Seatd_Main
  imports Server Log Options
begin

text \<open>
  The program seatd, \<open>seatd/seatd.c\<close>: its options, the socket, and the life of the server.
\<close>

section \<open>The socket\<close>

definition LISTEN_BACKLOG :: int where "LISTEN_BACKLOG = 16"

text \<open>The mode is 0770.\<close>

definition open_socket :: "env \<Rightarrow> string \<Rightarrow> int \<Rightarrow> int \<Rightarrow> 'a os_scheme \<Rightarrow> int \<times> 'a os_scheme" where
  "open_socket E path uid gid s =
     (let (r, s) = sys_call E C_socket s; fd = c_int r in
      if fd = - 1 then (- 1, s)
      else let (r, s) = sys_call E (C_bind fd (take (sun_path_len (platform E) - 1) path)) s in
      if c_int r = - 1 then (- 1, sys_close E fd s)
      else let (r, s) = sys_call E (C_listen fd LISTEN_BACKLOG) s in
      if c_int r = - 1 then (- 1, sys_close E fd s)
      else if uid \<noteq> - 1 \<or> gid \<noteq> - 1 then
        let (r, s) = sys_call E (C_chmod path 0x1F8) s in
        if c_int r = - 1 then (- 1, sys_close E fd s)
        else let (r, s) = sys_call E (C_chown path uid gid) s in
        if c_int r = - 1 then (- 1, sys_close E fd s) else (fd, s)
      else (fd, s))"

section \<open>Options\<close>

record options =
  opt_uid :: int
  opt_gid :: int
  readiness :: int
  unlink_existing_socket :: bool
  chown_socket :: bool
  opt_level :: libseat_log_level

definition default_options :: options where
  "default_options = \<lparr>opt_uid = - 1, opt_gid = - 1, readiness = - 1, unlink_existing_socket = True, chown_socket = True,
     opt_level = LIBSEAT_LOG_LEVEL_INFO\<rparr>"

text \<open>The argument of \<open>-l\<close>.\<close>

definition parse_level :: "string \<Rightarrow> libseat_log_level option" where
  "parse_level arg =
     (if arg = ''debug'' then Some LIBSEAT_LOG_LEVEL_DEBUG
      else if arg = ''info'' then Some LIBSEAT_LOG_LEVEL_INFO
      else if arg = ''error'' then Some LIBSEAT_LOG_LEVEL_ERROR
      else if arg = ''silent'' then Some LIBSEAT_LOG_LEVEL_SILENT
      else None)"

text \<open>One round of the loop over the options: \<open>Inl\<close> is the value that \<open>main\<close> returns.\<close>

definition handle_option ::
    "env \<Rightarrow> char \<Rightarrow> string \<Rightarrow> options \<Rightarrow> 'a os_scheme \<Rightarrow> ((int + options) \<times> 'a os_scheme) option" where
  "handle_option E c arg opts s =
     (if c = CHR ''n'' then do {
        fd \<leftarrow> atoi arg;
        Some (if fd < 0 then Inl 1 else Inr (opts\<lparr>readiness := fd\<rparr>), s) }
      else if c = CHR ''u'' then
        if \<not> chown_socket opts then Some (Inl 1, s)
        else let (r, s) = sys_call E (C_getpwnam arg) s in
          Some (case r of Inl _ \<Rightarrow> Inl 1 | Inr uid \<Rightarrow> Inr (opts\<lparr>opt_uid := uid\<rparr>), s)
      else if c = CHR ''g'' then
        if \<not> chown_socket opts then Some (Inl 1, s)
        else let (r, s) = sys_call E (C_getgrnam arg) s in
          Some (case r of Inl _ \<Rightarrow> Inl 1 | Inr gid \<Rightarrow> Inr (opts\<lparr>opt_gid := gid\<rparr>), s)
      else if c = CHR ''l'' then
        Some (case parse_level arg of None \<Rightarrow> Inl 1 | Some l \<Rightarrow> Inr (opts\<lparr>opt_level := l\<rparr>), s)
      else if c = CHR ''z'' then
        Some (if opt_uid opts \<noteq> - 1 \<or> opt_gid opts \<noteq> - 1 then Inl 1
              else Inr (opts\<lparr>unlink_existing_socket := False, chown_socket := False\<rparr>), s)
      else if c = CHR ''v'' \<or> c = CHR ''h'' then Some (Inl 0, s)
      else if c = CHR ''?'' then Some (Inl 1, s)
      else None)"

fun handle_options ::
    "env \<Rightarrow> (char \<times> string) list \<Rightarrow> options \<Rightarrow> 'a os_scheme \<Rightarrow> ((int + options) \<times> 'a os_scheme) option" where
  "handle_options E [] opts s = Some (Inr opts, s)"
| "handle_options E ((c, arg) # cs) opts s = do {
     (r, s) \<leftarrow> handle_option E c arg opts s;
     (case r of Inl ret \<Rightarrow> Some (Inl ret, s) | Inr opts \<Rightarrow> handle_options E cs opts s) }"

section \<open>The program\<close>

text \<open>What is at the path of the socket already: whether the program may go on.\<close>

definition clear_socket_path :: "env \<Rightarrow> string \<Rightarrow> bool \<Rightarrow> 'a os_scheme \<Rightarrow> bool \<times> 'a os_scheme" where
  "clear_socket_path E path unlink_existing s =
     (let (r, s) = sys_call E (C_lstat path) s in
      case r of Inl _ \<Rightarrow> (True, s)
      | Inr is_socket \<Rightarrow>
          if is_socket = 0 then (False, s)
          else if \<not> unlink_existing then (False, s)
          else let (r, s) = sys_call E (C_unlink path) s in (c_int r \<noteq> - 1, s))"

text \<open>From the label \<open>error_socket\<close> on.\<close>

definition stop_server :: "env \<Rightarrow> string \<Rightarrow> int \<Rightarrow> sys \<Rightarrow> (int \<times> sys) option" where
  "stop_server E path ret s = do {
     let (_, s) = sys_call E (C_unlink path) s;
     s \<leftarrow> server_finish E s;
     Some (ret, s) }"

definition notify_readiness :: "env \<Rightarrow> int \<Rightarrow> 'a os_scheme \<Rightarrow> 'a os_scheme" where
  "notify_readiness E fd s =
     (if fd \<noteq> - 1 then sys_close E fd (snd (sys_write E fd [0x0A] s)) else s)"

text \<open>
  \<open>main\<close>: the path of the socket is a constant of the build; \<open>rounds\<close> are the signals that arrive, as in
  \<open>run_server\<close>.
\<close>

definition seatd_main :: "env \<Rightarrow> string \<Rightarrow> int list list \<Rightarrow> string list \<Rightarrow> log \<Rightarrow> sys \<Rightarrow> (int \<times> log \<times> sys) option" where
  "seatd_main E path rounds args lg s = do {
     (r, s) \<leftarrow> handle_options E (fst (getopt ''vhn:g:u:l:z'' args)) default_options s;
     (case r of Inl ret \<Rightarrow> Some (ret, lg, s)
      | Inr opts \<Rightarrow> do {
          let (lg, s) = log_init E lg s;
          let lg = libseat_set_log_level (opt_level opts) lg;
          let (ok, s) = clear_socket_path E path (unlink_existing_socket opts) s;
          if \<not> ok then Some (1, lg, s)
          else do {
            (r, s) \<leftarrow> server_init E s;
            if r = - 1 then Some (1, lg, s)
            else do {
              let (socket_fd, s) = open_socket E path (opt_uid opts) (opt_gid opts) s;
              if socket_fd = - 1 then do {
                s \<leftarrow> server_finish E s;
                Some (1, lg, s) }
              else do {
                let (src, s) = poller_add_fd E socket_fd EVENT_READABLE Server_handle_connection s;
                if src = None then do {
                  (ret, s) \<leftarrow> stop_server E path 1 (sys_close E socket_fd s);
                  Some (ret, lg, s) }
                else do {
                  (ret, s) \<leftarrow> run_server E rounds (notify_readiness E (readiness opts) s);
                  (ret, s) \<leftarrow> stop_server E path ret s;
                  Some (ret, lg, s) } } } } }) }"

end
