(* ===== verification/Libseat_Seatd.thy ===== *)
theory Libseat_Seatd
  imports Protocol
begin

unbundle bit_operations_syntax

text \<open>
  The client side of the protocol, \<open>libseat/backend/seatd.c\<close>. The functions that work on the
  connection pass the \<open>struct backend_seatd\<close> along; in the calls of the library it is part of the
  state, because the listener of the application, which is a parameter, is called in the middle
  and may call the library again. A backend that has been freed is \<open>None\<close> there, so that using it does not
  return.
\<close>

section \<open>State\<close>

text \<open>The pending events are the opcodes in \<open>next\<close> order. The seat name is an array of bytes.\<close>

record backend_seatd =
  b_connection :: connection
  pending_events :: "u16 list"
  awaiting_pong :: bool
  b_error :: bool
  b_seat_name :: bytes

record lib = os +
  backend :: "backend_seatd option"

text \<open>The listener: what \<open>enable_seat\<close> and \<open>disable_seat\<close> of the application do.\<close>

type_synonym 'z listener = "bool \<Rightarrow> 'z lib_scheme \<Rightarrow> 'z lib_scheme option"

section \<open>Errors\<close>

definition cleanup :: "env \<Rightarrow> backend_seatd \<Rightarrow> 'a os_scheme \<Rightarrow> (backend_seatd \<times> 'a os_scheme) option" where
  "cleanup E b s = do {
     let s = (if conn_fd (b_connection b) \<noteq> - 1 then sys_shutdown E (conn_fd (b_connection b)) s else s);
     (cn, s) \<leftarrow> connection_close_fds E (b_connection b) s;
     Some (b\<lparr>b_connection := cn, pending_events := []\<rparr>, s) }"

text \<open>The memory of the backend is free afterwards.\<close>

definition destroy :: "env \<Rightarrow> backend_seatd \<Rightarrow> 'a os_scheme \<Rightarrow> 'a os_scheme option" where
  "destroy E b s = do {
     let (b, s) = (if conn_fd (b_connection b) \<noteq> - 1
                   then (b\<lparr>b_connection := (b_connection b)\<lparr>conn_fd := - 1\<rparr>\<rparr>, sys_close E (conn_fd (b_connection b)) s)
                   else (b, s));
     (b, s) \<leftarrow> cleanup E b s;
     Some s }"

definition set_error :: "env \<Rightarrow> backend_seatd \<Rightarrow> 'a os_scheme \<Rightarrow> (backend_seatd \<times> 'a os_scheme) option" where
  "set_error E b s = (if b_error b then Some (b, s) else cleanup E (b\<lparr>b_error := True\<rparr>) s)"

section \<open>Sending and receiving\<close>

definition conn_put :: "env \<Rightarrow> backend_seatd \<Rightarrow> bytes \<Rightarrow> 'a os_scheme \<Rightarrow> (int \<times> backend_seatd \<times> 'a os_scheme) option" where
  "conn_put E b bs s = do {
     (r, cn, s) \<leftarrow> connection_put E (b_connection b) bs s;
     let b = b\<lparr>b_connection := cn\<rparr>;
     if r = - 1 then do {
       (b, s) \<leftarrow> set_error E b s;
       Some (- 1, b, s) }
     else Some (0, b, s) }"

definition conn_flush :: "env \<Rightarrow> backend_seatd \<Rightarrow> 'a os_scheme \<Rightarrow> (int \<times> backend_seatd \<times> 'a os_scheme) option" where
  "conn_flush E b s = do {
     (r, cn, s) \<leftarrow> connection_flush E (b_connection b) s;
     let b = b\<lparr>b_connection := cn\<rparr>;
     if r = - 1 then do {
       (b, s) \<leftarrow> set_error E b s;
       Some (- 1, b, s) }
     else Some (0, b, s) }"

definition conn_get ::
    "env \<Rightarrow> backend_seatd \<Rightarrow> nat \<Rightarrow> 'a os_scheme \<Rightarrow> (bytes option \<times> backend_seatd \<times> 'a os_scheme) option" where
  "conn_get E b n s = do {
     (r, cn, s) \<leftarrow> connection_get (b_connection b) n s;
     let b = b\<lparr>b_connection := cn\<rparr>;
     case r of
       None \<Rightarrow> do {
         (b, s) \<leftarrow> set_error E b s;
         Some (None, b, s\<lparr>errno := EBADMSG\<rparr>) }
     | Some bs \<Rightarrow> Some (Some bs, b, s) }"

definition conn_get_fd ::
    "env \<Rightarrow> backend_seatd \<Rightarrow> 'a os_scheme \<Rightarrow> (int option \<times> backend_seatd \<times> 'a os_scheme) option" where
  "conn_get_fd E b s = do {
     (r, cn, s) \<leftarrow> connection_get_fd (b_connection b) s;
     let b = b\<lparr>b_connection := cn\<rparr>;
     case r of
       None \<Rightarrow> do {
         (b, s) \<leftarrow> set_error E b s;
         Some (None, b, s\<lparr>errno := EBADMSG\<rparr>) }
     | Some fd \<Rightarrow> Some (Some fd, b, s) }"

text \<open>Several messages joined by \<open>||\<close>: the first that fails ends the sequence.\<close>

fun conn_put_all :: "env \<Rightarrow> backend_seatd \<Rightarrow> bytes list \<Rightarrow> 'a os_scheme \<Rightarrow> (int \<times> backend_seatd \<times> 'a os_scheme) option" where
  "conn_put_all E b [] s = Some (0, b, s)"
| "conn_put_all E b (bs # bss) s = do {
     (r, b, s) \<leftarrow> conn_put E b bs s;
     if r = - 1 then Some (- 1, b, s) else conn_put_all E b bss s }"

text \<open>The size of the message, \<open>None\<close> for \<open>SIZE_MAX\<close>.\<close>

definition read_header ::
    "env \<Rightarrow> backend_seatd \<Rightarrow> u16 \<Rightarrow> nat \<Rightarrow> bool \<Rightarrow> 'a os_scheme \<Rightarrow> (nat option \<times> backend_seatd \<times> 'a os_scheme) option" where
  "read_header E b expected_opcode expected_size variable s = do {
     (hdr, b, s) \<leftarrow> conn_get E b 4 s;
     (case hdr of None \<Rightarrow> do { (b, s) \<leftarrow> set_error E b s; Some (None, b, s) }
      | Some bs \<Rightarrow>
          let h = decode_header bs; n = unat (msg_size h) in
          if opcode h \<noteq> expected_opcode then
            if opcode h \<noteq> SERVER_ERROR \<or> n \<noteq> 4 then do {
              (b, s) \<leftarrow> set_error E b s;
              Some (None, b, s\<lparr>errno := EBADMSG\<rparr>) }
            else do {
              (msg, b, s) \<leftarrow> conn_get E b 4 s;
              (case msg of None \<Rightarrow> do {
                   (b, s) \<leftarrow> set_error E b s;
                   Some (None, b, s\<lparr>errno := EBADMSG\<rparr>) }
               | Some bs \<Rightarrow> Some (None, b, s\<lparr>errno := decode_int_msg bs\<rparr>)) }
          else if \<not> variable \<and> n \<noteq> expected_size \<or> variable \<and> n < expected_size then do {
            (b, s) \<leftarrow> set_error E b s;
            Some (None, b, s\<lparr>errno := EBADMSG\<rparr>) }
          else Some (Some n, b, s)) }"

section \<open>Events\<close>

definition queue_event :: "env \<Rightarrow> backend_seatd \<Rightarrow> u16 \<Rightarrow> 'a os_scheme \<Rightarrow> int \<times> backend_seatd \<times> 'a os_scheme" where
  "queue_event E b op s =
     (let (ok, s) = sys_alloc E s in
      if \<not> ok then (- 1, b, s) else (0, b\<lparr>pending_events := op # pending_events b\<rparr>, s))"

text \<open>
  The events have been moved to a list of their own, from which they are taken one by one; the
  listener is found through the backend each time.
\<close>

fun run_events :: "'z listener \<Rightarrow> u16 list \<Rightarrow> int \<Rightarrow> 'z lib_scheme \<Rightarrow> (int \<times> 'z lib_scheme) option" where
  "run_events L [] executed s = Some (executed, s)"
| "run_events L (op # ops) executed s = do {
     b \<leftarrow> backend s;
     s \<leftarrow> (if op = SERVER_DISABLE_SEAT then L False s
           else if op = SERVER_ENABLE_SEAT then L True s
           else None);
     run_events L ops (executed + 1) s }"

definition execute_events :: "'z listener \<Rightarrow> 'z lib_scheme \<Rightarrow> (int \<times> 'z lib_scheme) option" where
  "execute_events L s = do {
     b \<leftarrow> backend s;
     run_events L (pending_events b) 0 (s\<lparr>backend := Some (b\<lparr>pending_events := []\<rparr>)\<rparr>) }"

text \<open>
  The argument \<open>want\<close> is whether the caller passes a place for the opcode of a response; the
  opcode that is stored there, or 0, is the second result.
\<close>

partial_function (option) read_and_queue_loop ::
    "env \<Rightarrow> bool \<Rightarrow> int \<Rightarrow> backend_seatd \<Rightarrow> 'a os_scheme \<Rightarrow> (int \<times> u16 \<times> backend_seatd \<times> 'a os_scheme) option" where
  [code]: "read_and_queue_loop E want packets b s = do {
     (hdr, cn, s) \<leftarrow> connection_get (b_connection b) 4 s;
     let b = b\<lparr>b_connection := cn\<rparr>;
     (case hdr of None \<Rightarrow> Some (packets, 0, b, s)
      | Some bs \<Rightarrow>
          let h = decode_header bs; packets = packets + 1 in
          if opcode h = SERVER_PONG then read_and_queue_loop E want packets (b\<lparr>awaiting_pong := False\<rparr>) s
          else if opcode h = SERVER_DISABLE_SEAT \<or> opcode h = SERVER_ENABLE_SEAT then
            (let (r, b, s) = queue_event E b (opcode h) s in
             if r = - 1 then do { (b, s) \<leftarrow> set_error E b s; Some (- 1, 0, b, s) }
             else read_and_queue_loop E want packets b s)
          else if \<not> want then do {
            (b, s) \<leftarrow> set_error E b s;
            Some (- 1, 0, b\<lparr>b_connection := connection_restore (b_connection b) 4\<rparr>, s\<lparr>errno := EBADMSG\<rparr>) }
          else
            Some (packets, if connection_pending (b_connection b) \<ge> unat (msg_size h) then opcode h else 0,
                  b\<lparr>b_connection := connection_restore (b_connection b) 4\<rparr>, s)) }"

definition read_and_queue ::
    "env \<Rightarrow> bool \<Rightarrow> backend_seatd \<Rightarrow> 'a os_scheme \<Rightarrow> (int \<times> u16 \<times> backend_seatd \<times> 'a os_scheme) option" where
  "read_and_queue E want b s = read_and_queue_loop E want 0 b s"

definition poll_connection :: "env \<Rightarrow> backend_seatd \<Rightarrow> int \<Rightarrow> 'a os_scheme \<Rightarrow> (int \<times> backend_seatd \<times> 'a os_scheme) option" where
  "poll_connection E b timeout s = do {
     let (r, s) = sys_call E (C_poll (conn_fd (b_connection b)) timeout) s;
     (case r of Inl e \<Rightarrow> Some (if e = EAGAIN \<or> e = EINTR then 0 else - 1, b, s)
      | Inr revents \<Rightarrow>
          if revents AND (POLLERR OR POLLHUP) \<noteq> 0 then do {
            (b, s) \<leftarrow> set_error E b s;
            Some (- 1, b, s\<lparr>errno := EPIPE\<rparr>) }
          else if revents AND POLLIN \<noteq> 0 then do {
            (len, cn, s) \<leftarrow> connection_read E (b_connection b) s;
            let b = b\<lparr>b_connection := cn\<rparr>;
            if len = 0 then do {
              (b, s) \<leftarrow> set_error E b s;
              Some (- 1, b, s\<lparr>errno := EIO\<rparr>) }
            else if len = - 1 \<and> errno s \<noteq> EAGAIN then do {
              (b, s) \<leftarrow> set_error E b s;
              Some (- 1, b, s) }
            else Some (len, b, s) }
          else Some (0, b, s)) }"

partial_function (option) response_loop ::
    "env \<Rightarrow> backend_seatd \<Rightarrow> 'a os_scheme \<Rightarrow> (int \<times> backend_seatd \<times> 'a os_scheme) option" where
  [code]: "response_loop E b s = do {
     (packets, op, b, s) \<leftarrow> read_and_queue E True b s;
     if packets = - 1 then Some (- 1, b, s)
     else if op \<noteq> 0 then Some (0, b, s)
     else do {
       (len, b, s) \<leftarrow> poll_connection E b (- 1) s;
       if len = - 1 then Some (- 1, b, s) else response_loop E b s } }"

definition read_until_response :: "env \<Rightarrow> backend_seatd \<Rightarrow> 'a os_scheme \<Rightarrow> (int \<times> backend_seatd \<times> 'a os_scheme) option" where
  "read_until_response E b s = do {
     (r, b, s) \<leftarrow> conn_flush E b s;
     if r = - 1 then Some (- 1, b, s) else response_loop E b s }"

section \<open>The calls of the library\<close>

text \<open>
  A request: the messages are put, the connection is flushed and read until a response is there.
\<close>

definition request_response :: "env \<Rightarrow> backend_seatd \<Rightarrow> bytes list \<Rightarrow> 'a os_scheme \<Rightarrow> (int \<times> backend_seatd \<times> 'a os_scheme) option" where
  "request_response E b bss s = do {
     (r, b, s) \<leftarrow> conn_put_all E b bss s;
     if r = - 1 then Some (- 1, b, s) else read_until_response E b s }"

definition send_ping :: "env \<Rightarrow> backend_seatd \<Rightarrow> 'a os_scheme \<Rightarrow> (int \<times> backend_seatd \<times> 'a os_scheme) option" where
  "send_ping E b s = do {
     (r, b, s) \<leftarrow> conn_put E b (header_bytes CLIENT_PING 0) s;
     if r = - 1 then Some (- 1, b, s)
     else do {
       (r, b, s) \<leftarrow> conn_flush E b s;
       if r = - 1 then Some (- 1, b, s) else Some (0, b, s) } }"

definition check_pending_events :: "env \<Rightarrow> backend_seatd \<Rightarrow> 'a os_scheme \<Rightarrow> (backend_seatd \<times> 'a os_scheme) option" where
  "check_pending_events E b s = do {
     (packets, _, b, s) \<leftarrow> read_and_queue E False b s;
     if packets = - 1 then Some (b, s)
     else if pending_events b = [] then Some (b, s)
     else if awaiting_pong b then Some (b, s)
     else do {
       (r, b, s) \<leftarrow> send_ping E b s;
       if r = - 1 then Some (b, s) else Some (b\<lparr>awaiting_pong := True\<rparr>, s) } }"

definition get_fd :: "'z lib_scheme \<Rightarrow> (int \<times> 'z lib_scheme) option" where
  "get_fd s = do { b \<leftarrow> backend s; Some (conn_fd (b_connection b), s) }"

text \<open>The name up to the terminating zero.\<close>

definition seat_name_of :: "'z lib_scheme \<Rightarrow> string option" where
  "seat_name_of s = do { b \<leftarrow> backend s; Some (bytes_string (takeWhile (\<lambda>x. x \<noteq> 0) (b_seat_name b))) }"

text \<open>The messages of a request to open a device.\<close>

definition open_device_msgs :: "string \<Rightarrow> bytes list" where
  "open_device_msgs path =
     (let pathlen = length path + 1 in
      [header_bytes CLIENT_OPEN_DEVICE (2 + pathlen), encode_len_msg (of_nat pathlen), string_bytes path @ [0]])"

text \<open>The second result is the descriptor that is stored through the pointer.\<close>

definition open_device ::
    "env \<Rightarrow> string \<Rightarrow> 'z lib_scheme \<Rightarrow> (int \<times> int option \<times> 'z lib_scheme) option" where
  "open_device E path s = do {
     b \<leftarrow> backend s;
     let pathlen = length path + 1;
     if b_error b then Some (- 1, None, s\<lparr>errno := ENOTCONN\<rparr>)
     else if pathlen > MAX_PATH_LEN then Some (- 1, None, s\<lparr>errno := EINVAL\<rparr>)
     else do {
       (r, b, s) \<leftarrow> request_response E b (open_device_msgs path) s;
       if r = - 1 then Some (- 1, None, s\<lparr>backend := Some b\<rparr>)
       else do {
         (n, b, s) \<leftarrow> read_header E b SERVER_DEVICE_OPENED 4 False s;
         (msg, b, s) \<leftarrow> (if n = None then Some (None, b, s) else conn_get E b 4 s);
         (fd, b, s) \<leftarrow> (if msg = None then Some (None, b, s) else conn_get_fd E b s);
         let res = (case (msg, fd) of (Some bs, Some _) \<Rightarrow> decode_int_msg bs | _ \<Rightarrow> - 1);
         (b, s) \<leftarrow> check_pending_events E b s;
         Some (res, fd, s\<lparr>backend := Some b\<rparr>) } } }"

text \<open>
  The three requests whose answer is only a header: the messages, and the opcode that is
  expected.
\<close>

definition simple_request :: "env \<Rightarrow> bytes list \<Rightarrow> u16 \<Rightarrow> backend_seatd \<Rightarrow> 'z lib_scheme \<Rightarrow> (int \<times> 'z lib_scheme) option" where
  "simple_request E bss answer b s = do {
     (r, b, s) \<leftarrow> request_response E b bss s;
     if r = - 1 then Some (- 1, s\<lparr>backend := Some b\<rparr>)
     else do {
       (n, b, s) \<leftarrow> read_header E b answer 0 False s;
       (b, s) \<leftarrow> check_pending_events E b s;
       Some (if n = None then - 1 else 0, s\<lparr>backend := Some b\<rparr>) } }"

definition close_device :: "env \<Rightarrow> int \<Rightarrow> 'z lib_scheme \<Rightarrow> (int \<times> 'z lib_scheme) option" where
  "close_device E dev_id s = do {
     b \<leftarrow> backend s;
     if b_error b then Some (- 1, s\<lparr>errno := ENOTCONN\<rparr>)
     else if dev_id < 0 then Some (- 1, s\<lparr>errno := EINVAL\<rparr>)
     else simple_request E [header_bytes CLIENT_CLOSE_DEVICE 4, encode_int_msg dev_id] SERVER_DEVICE_CLOSED b s }"

definition switch_session :: "env \<Rightarrow> int \<Rightarrow> 'z lib_scheme \<Rightarrow> (int \<times> 'z lib_scheme) option" where
  "switch_session E session s = do {
     b \<leftarrow> backend s;
     if b_error b then Some (- 1, s\<lparr>errno := ENOTCONN\<rparr>)
     else if session < 0 then Some (- 1, s\<lparr>errno := EINVAL\<rparr>)
     else simple_request E [header_bytes CLIENT_SWITCH_SESSION 4, encode_int_msg session] SERVER_SESSION_SWITCHED b s }"

definition disable_seat :: "env \<Rightarrow> 'z lib_scheme \<Rightarrow> (int \<times> 'z lib_scheme) option" where
  "disable_seat E s = do {
     b \<leftarrow> backend s;
     if b_error b then Some (- 1, s\<lparr>errno := ENOTCONN\<rparr>)
     else simple_request E [header_bytes CLIENT_DISABLE_SEAT 0] SERVER_SEAT_DISABLED b s }"

text \<open>The second half of \<open>dispatch\<close>, after something may have been read.\<close>

definition dispatch_pending :: "env \<Rightarrow> 'z listener \<Rightarrow> 'z lib_scheme \<Rightarrow> (int \<times> 'z lib_scheme) option" where
  "dispatch_pending E L s = do {
     b \<leftarrow> backend s;
     (packets, _, b, s) \<leftarrow> read_and_queue E False b s;
     let s = s\<lparr>backend := Some b\<rparr>;
     if packets = - 1 then Some (- 1, s)
     else do {
       (executed, s) \<leftarrow> execute_events L s;
       Some (packets + executed, s) } }"

definition dispatch_seat :: "env \<Rightarrow> 'z listener \<Rightarrow> int \<Rightarrow> 'z lib_scheme \<Rightarrow> (int \<times> 'z lib_scheme) option" where
  "dispatch_seat E L timeout s = do {
     b \<leftarrow> backend s;
     if b_error b then Some (- 1, s\<lparr>errno := ENOTCONN\<rparr>)
     else do {
       (predispatch, s) \<leftarrow> dispatch_pending E L s;
       if predispatch = - 1 then Some (- 1, s)
       else do {
         b \<leftarrow> backend s;
         (rd, b, s) \<leftarrow> (if predispatch > 0 \<or> timeout = 0 then do {
             (r, cn, s) \<leftarrow> connection_read E (b_connection b) s;
             Some (r, b\<lparr>b_connection := cn\<rparr>, s) }
           else poll_connection E b timeout s);
         let s = s\<lparr>backend := Some b\<rparr>;
         if rd = 0 then Some (predispatch, s)
         else if rd = - 1 \<and> errno s \<noteq> EAGAIN then Some (- 1, s)
         else do {
           (postdispatch, s) \<leftarrow> dispatch_pending E L s;
           if postdispatch = - 1 then Some (- 1, s) else Some (predispatch + postdispatch, s) } } } }"

section \<open>Opening and closing a seat\<close>

text \<open>
  The name in a \<open>SERVER_SEAT_OPENED\<close> message as it ends up in the array of the backend: an old server does not send
  the terminating zero. \<open>None\<close> if it is not terminated.
\<close>

definition terminate_name :: "bytes \<Rightarrow> bytes option" where
  "terminate_name bs =
     (let n = length bs; arr = bs @ replicate (MAX_SEAT_LEN - n) 0;
          add = n = 0 \<or> n < MAX_SEAT_LEN \<and> arr ! (n - 1) \<noteq> 0;
          arr = (if add then arr[n := 0] else arr); n = (if add then n + 1 else n) in
      if n = 0 \<or> strnlen arr n \<noteq> n - 1 then None else Some arr)"

text \<open>
  The part of \<open>_open_seat\<close> up to the end of the message: whether it went well.
\<close>

definition negotiate :: "env \<Rightarrow> backend_seatd \<Rightarrow> 'a os_scheme \<Rightarrow> (bool \<times> backend_seatd \<times> 'a os_scheme) option" where
  "negotiate E b s = do {
     (r, b, s) \<leftarrow> request_response E b [header_bytes CLIENT_OPEN_SEAT 0] s;
     if r = - 1 then Some (False, b, s)
     else do {
       (n, b, s) \<leftarrow> read_header E b SERVER_SEAT_OPENED 2 True s;
       (case n of None \<Rightarrow> Some (False, b, s)
        | Some n \<Rightarrow> do {
            (msg, b, s) \<leftarrow> conn_get E b 2 s;
            (case msg of None \<Rightarrow> Some (False, b, s)
             | Some bs \<Rightarrow>
                 let len = unat (decode_len_msg bs) in
                 if len \<noteq> n - 2 \<or> len > MAX_SEAT_LEN then Some (False, b, s\<lparr>errno := EBADMSG\<rparr>)
                 else do {
                   (name, b, s) \<leftarrow> conn_get E b len s;
                   (case name of None \<Rightarrow> Some (False, b, s)
                    | Some name \<Rightarrow>
                        (case terminate_name name of None \<Rightarrow> Some (False, b, s\<lparr>errno := EBADMSG\<rparr>)
                         | Some arr \<Rightarrow> Some (True, b\<lparr>b_seat_name := arr\<rparr>, s))) }) }) } }"

text \<open>Zeroed memory with the connection set up.\<close>

definition new_backend :: "int \<Rightarrow> backend_seatd" where
  "new_backend fd =
     (let z = \<lparr>head = 0, tail = 0, data = replicate CONNECTION_BUFFER_SIZE 0\<rparr> in
      \<lparr>b_connection = \<lparr>conn_in = z, conn_out = z, fds_in = z, fds_out = z, conn_fd = fd, want_flush = False\<rparr>,
       pending_events = [], awaiting_pong = False, b_error = False, b_seat_name = replicate MAX_SEAT_LEN 0\<rparr>)"

text \<open>Whether the seat was opened; if so the backend is in the state.\<close>

definition open_seat_fd :: "env \<Rightarrow> 'z listener \<Rightarrow> int \<Rightarrow> 'z lib_scheme \<Rightarrow> (bool \<times> 'z lib_scheme) option" where
  "open_seat_fd E L fd s = do {
     let (ok, s) = sys_alloc E s;
     if \<not> ok then Some (False, sys_close E fd s)
     else do {
       (ok, b, s) \<leftarrow> negotiate E (new_backend fd) s;
       if \<not> ok then do {
         s \<leftarrow> destroy E b s;
         Some (False, sys_close E fd s) }
       else do {
         (_, s) \<leftarrow> execute_events L (s\<lparr>backend := Some b\<rparr>);
         Some (True, s) } } }"

text \<open>A path longer than the address is cut.\<close>

definition seatd_connect :: "env \<Rightarrow> string \<Rightarrow> 'a os_scheme \<Rightarrow> int \<times> 'a os_scheme" where
  "seatd_connect E default_path s =
     (let (r, s) = sys_call E C_socket s; fd = c_int r in
      if fd = - 1 then (- 1, s)
      else let path = (case env_var E ''SEATD_SOCK'' of None \<Rightarrow> default_path | Some p \<Rightarrow> p);
               (r, s) = sys_call E (C_connect fd (take (sun_path_len (platform E) - 1) path)) s in
           if c_int r = - 1 then (- 1, sys_close E fd s) else (fd, s))"

definition open_seat :: "env \<Rightarrow> string \<Rightarrow> 'z listener \<Rightarrow> 'z lib_scheme \<Rightarrow> (bool \<times> 'z lib_scheme) option" where
  "open_seat E default_path L s =
     (let (fd, s) = seatd_connect E default_path s in
      if fd = - 1 then Some (False, s) else open_seat_fd E L fd s)"

definition close_seat :: "env \<Rightarrow> 'z listener \<Rightarrow> 'z lib_scheme \<Rightarrow> (int \<times> 'z lib_scheme) option" where
  "close_seat E L s = do {
     b \<leftarrow> backend s;
     (res, b, s) \<leftarrow> (if b_error b then Some (- 1, b, s)
       else do {
         (r, b, s) \<leftarrow> request_response E b [header_bytes CLIENT_CLOSE_SEAT 0] s;
         (n, b, s) \<leftarrow> read_header E b SERVER_SEAT_CLOSED 0 False s;
         Some (if r = - 1 \<or> n = None then - 1 else 0, b, s) });
     (_, s) \<leftarrow> execute_events L (s\<lparr>backend := Some b\<rparr>);
     b \<leftarrow> backend s;
     s \<leftarrow> destroy E b s;
     Some (res, s\<lparr>backend := None\<rparr>) }"

end
