(* ===== verification/Libseat.thy ===== *)
theory Libseat
  imports Libseat_Seatd Server Log
begin

text \<open>
  The front end of the client library, \<open>libseat/libseat.c\<close>, the backend that does nothing,
  \<open>libseat/backend/noop.c\<close>, and the embedded server of \<open>libseat/backend/seatd.c\<close>. The logind backend
  is a parameter here; theory \<open>Libseat_Logind\<close> defines it.
\<close>

section \<open>The backend that does nothing\<close>

record backend_noop =
  initial_setup :: bool
  sockets :: "int \<times> int"

text \<open>The state of the library: the backends that are open, and the log.\<close>

record libs = lib +
  noop :: "backend_noop option"
  lib_log :: log

text \<open>A listener that works on this state.\<close>

type_synonym 'z seat_listener = "'z libs_ext listener"

definition noop_destroy :: "env \<Rightarrow> backend_noop \<Rightarrow> 'z libs_scheme \<Rightarrow> 'z libs_scheme" where
  "noop_destroy E b s = (sys_close E (snd (sockets b)) (sys_close E (fst (sockets b)) s))\<lparr>noop := None\<rparr>"

definition noop_close_seat :: "env \<Rightarrow> 'z libs_scheme \<Rightarrow> (int \<times> 'z libs_scheme) option" where
  "noop_close_seat E s = do { b \<leftarrow> noop s; Some (0, noop_destroy E b s) }"

definition noop_disable_seat :: "'z libs_scheme \<Rightarrow> (int \<times> 'z libs_scheme) option" where
  "noop_disable_seat s = Some (0, s)"

definition noop_seat_name :: "'z libs_scheme \<Rightarrow> string option" where
  "noop_seat_name s = Some ''seat0''"

definition noop_open_device :: "env \<Rightarrow> string \<Rightarrow> 'z libs_scheme \<Rightarrow> (int \<times> int option \<times> 'z libs_scheme) option" where
  "noop_open_device E path s =
     (let (tmpfd, s) = sys_open E path [O_RDWR, O_NOCTTY, O_NOFOLLOW, O_CLOEXEC, O_NONBLOCK] s in
      if tmpfd < 0 then Some (- 1, None, s) else Some (tmpfd, Some tmpfd, s))"

definition noop_close_device :: "int \<Rightarrow> 'z libs_scheme \<Rightarrow> (int \<times> 'z libs_scheme) option" where
  "noop_close_device dev_id s = Some (0, s)"

definition noop_switch_session :: "int \<Rightarrow> 'z libs_scheme \<Rightarrow> (int \<times> 'z libs_scheme) option" where
  "noop_switch_session session s = Some (- 1, s)"

definition noop_get_fd :: "'z libs_scheme \<Rightarrow> (int \<times> 'z libs_scheme) option" where
  "noop_get_fd s = do { b \<leftarrow> noop s; Some (fst (sockets b), s) }"

definition dispatch_background :: "env \<Rightarrow> 'z seat_listener \<Rightarrow> int \<Rightarrow> 'z libs_scheme \<Rightarrow> (int \<times> 'z libs_scheme) option" where
  "dispatch_background E L timeout s = do {
     b \<leftarrow> noop s;
     s \<leftarrow> (if initial_setup b then L True (s\<lparr>noop := Some (b\<lparr>initial_setup := False\<rparr>)\<rparr>) else Some s);
     b \<leftarrow> noop s;
     let (r, s) = sys_call E (C_poll (fst (sockets b)) timeout) s;
     (case r of Inl e \<Rightarrow> Some (if e = EAGAIN \<or> e = EINTR then 0 else - 1, s) | Inr _ \<Rightarrow> Some (0, s)) }"

section \<open>The embedded server\<close>

text \<open>
  The process that \<open>builtin_open_seat\<close> forks: it serves the other end of the socket pair and
  exits with the result. The signals that arrive are those of \<open>run_server\<close>.
\<close>

definition builtin_server :: "env \<Rightarrow> int list list \<Rightarrow> int \<Rightarrow> sys \<Rightarrow> (int \<times> sys) option" where
  "builtin_server E rounds fd s = do {
     (r, s) \<leftarrow> server_init E s;
     if r = - 1 then Some (1, sys_close E fd s)
     else do {
       (r, s) \<leftarrow> server_add_client E fd s;
       (res, s) \<leftarrow> (if r = - 1 then Some (1, s) else run_server E rounds s);
       s \<leftarrow> server_finish E s;
       Some (res, sys_close E fd s) } }"

section \<open>The choice of a backend\<close>

datatype seat_impl_id = Seatd_impl | Logind_impl | Builtin_impl | Noop_impl

text \<open>
  \<open>struct seat_impl\<close>. Opening a seat gives the implementation that the calls on the new seat will use, or \<open>None\<close>.
\<close>

record 'z seat_impl =
  impl_open_seat :: "'z seat_listener \<Rightarrow> 'z libs_scheme \<Rightarrow> (seat_impl_id option \<times> 'z libs_scheme) option"
  impl_disable_seat :: "'z libs_scheme \<Rightarrow> (int \<times> 'z libs_scheme) option"
  impl_close_seat :: "'z seat_listener \<Rightarrow> 'z libs_scheme \<Rightarrow> (int \<times> 'z libs_scheme) option"
  impl_seat_name :: "'z libs_scheme \<Rightarrow> string option"
  impl_open_device :: "string \<Rightarrow> 'z libs_scheme \<Rightarrow> (int \<times> int option \<times> 'z libs_scheme) option"
  impl_close_device :: "int \<Rightarrow> 'z libs_scheme \<Rightarrow> (int \<times> 'z libs_scheme) option"
  impl_switch_session :: "int \<Rightarrow> 'z libs_scheme \<Rightarrow> (int \<times> 'z libs_scheme) option"
  impl_get_fd :: "'z libs_scheme \<Rightarrow> (int \<times> 'z libs_scheme) option"
  impl_dispatch :: "'z seat_listener \<Rightarrow> int \<Rightarrow> 'z libs_scheme \<Rightarrow> (int \<times> 'z libs_scheme) option"

definition noop_open_seat :: "env \<Rightarrow> 'z seat_listener \<Rightarrow> 'z libs_scheme \<Rightarrow> (seat_impl_id option \<times> 'z libs_scheme) option" where
  "noop_open_seat E L s =
     (let (ok, s) = sys_alloc E s in
      if \<not> ok then Some (None, s)
      else let (r, s) = sys_socketpair E s in
        case r of Inl _ \<Rightarrow> Some (None, s)
        | Inr fds \<Rightarrow> Some (Some Noop_impl, s\<lparr>noop := Some \<lparr>initial_setup = True, sockets = fds\<rparr>\<rparr>))"

definition seatd_open_seat ::
    "env \<Rightarrow> string \<Rightarrow> 'z seat_listener \<Rightarrow> 'z libs_scheme \<Rightarrow> (seat_impl_id option \<times> 'z libs_scheme) option" where
  "seatd_open_seat E default_path L s = do {
     (ok, s) \<leftarrow> open_seat E default_path L s;
     Some (if ok then Some Seatd_impl else None, s) }"

text \<open>The child does not return to the caller. The parent uses the implementation of the seatd backend.\<close>

definition builtin_open_seat ::
    "env \<Rightarrow> int list list \<Rightarrow> 'z seat_listener \<Rightarrow> 'z libs_scheme \<Rightarrow> (seat_impl_id option \<times> 'z libs_scheme) option" where
  "builtin_open_seat E rounds L s =
     (let (r, s) = sys_socketpair E s in
      case r of Inl _ \<Rightarrow> Some (None, s)
      | Inr (fd0, fd1) \<Rightarrow>
          let (r, s) = sys_call E C_fork s in
          case r of Inl _ \<Rightarrow> Some (None, sys_close E fd1 (sys_close E fd0 s))
          | Inr pid \<Rightarrow>
              if pid = 0 then do {
                let s = sys_close E fd1 s;
                (res, s) \<leftarrow> builtin_server E rounds fd0 (boot\<lparr>errno := errno s, trace := trace s\<rparr>);
                None }
              else do {
                (ok, s) \<leftarrow> open_seat_fd E L fd1 (sys_close E fd0 s);
                Some (if ok then Some Seatd_impl else None, s) })"

definition seatd_impl :: "env \<Rightarrow> string \<Rightarrow> 'z seat_impl" where
  "seatd_impl E default_path = \<lparr>impl_open_seat = seatd_open_seat E default_path, impl_disable_seat = disable_seat E,
     impl_close_seat = close_seat E, impl_seat_name = seat_name_of, impl_open_device = open_device E,
     impl_close_device = close_device E, impl_switch_session = switch_session E, impl_get_fd = get_fd,
     impl_dispatch = dispatch_seat E\<rparr>"

definition builtin_impl :: "env \<Rightarrow> int list list \<Rightarrow> 'z seat_impl" where
  "builtin_impl E rounds = \<lparr>impl_open_seat = builtin_open_seat E rounds, impl_disable_seat = disable_seat E,
     impl_close_seat = close_seat E, impl_seat_name = seat_name_of, impl_open_device = open_device E,
     impl_close_device = close_device E, impl_switch_session = switch_session E, impl_get_fd = get_fd,
     impl_dispatch = dispatch_seat E\<rparr>"

definition noop_impl :: "env \<Rightarrow> 'z seat_impl" where
  "noop_impl E = \<lparr>impl_open_seat = noop_open_seat E, impl_disable_seat = noop_disable_seat,
     impl_close_seat = (\<lambda>_. noop_close_seat E), impl_seat_name = noop_seat_name, impl_open_device = noop_open_device E,
     impl_close_device = noop_close_device, impl_switch_session = noop_switch_session, impl_get_fd = noop_get_fd,
     impl_dispatch = dispatch_background E\<rparr>"

text \<open>
  What the build has switched on, and the four implementations; that of logind is an argument.
\<close>

record build =
  SEATD_ENABLED :: bool
  LOGIND_ENABLED :: bool
  BUILTIN_ENABLED :: bool

definition impls :: "build \<Rightarrow> (string \<times> seat_impl_id) list" where
  "impls B = (if SEATD_ENABLED B then [(''seatd'', Seatd_impl)] else [])
     @ (if LOGIND_ENABLED B then [(''logind'', Logind_impl)] else [])
     @ (if BUILTIN_ENABLED B then [(''builtin'', Builtin_impl)] else []) @ [(''noop'', Noop_impl)]"

definition impl_of :: "env \<Rightarrow> string \<Rightarrow> int list list \<Rightarrow> 'z seat_impl \<Rightarrow> seat_impl_id \<Rightarrow> 'z seat_impl" where
  "impl_of E default_path rounds logind i = (case i of
     Seatd_impl \<Rightarrow> seatd_impl E default_path
   | Logind_impl \<Rightarrow> logind
   | Builtin_impl \<Rightarrow> builtin_impl E rounds
   | Noop_impl \<Rightarrow> noop_impl E)"

fun try_backends ::
    "(seat_impl_id \<Rightarrow> 'z seat_impl) \<Rightarrow> 'z seat_listener \<Rightarrow> (string \<times> seat_impl_id) list \<Rightarrow> 'z libs_scheme \<Rightarrow>
      (seat_impl_id option \<times> 'z libs_scheme) option" where
  "try_backends I L [] s = Some (None, s\<lparr>errno := ENOSYS\<rparr>)"
| "try_backends I L ((name, i) # bs) s =
     (if i = Noop_impl then try_backends I L bs s
      else do {
        (h, s) \<leftarrow> impl_open_seat (I i) L s;
        if h \<noteq> None then Some (h, s) else try_backends I L bs s })"

text \<open>The listener is \<open>None\<close> if it or one of its callbacks is null.\<close>

definition libseat_open_seat ::
    "env \<Rightarrow> build \<Rightarrow> (seat_impl_id \<Rightarrow> 'z seat_impl) \<Rightarrow> 'z seat_listener option \<Rightarrow> 'z libs_scheme \<Rightarrow>
      (seat_impl_id option \<times> 'z libs_scheme) option" where
  "libseat_open_seat E B I listener s =
     (case listener of None \<Rightarrow> Some (None, s\<lparr>errno := EINVAL\<rparr>)
      | Some L \<Rightarrow>
          let (lg, s) = log_init E (lib_log s) s; s = s\<lparr>lib_log := lg\<rparr> in
          case env_var E ''LIBSEAT_BACKEND'' of
            Some backend_type \<Rightarrow>
              (case find (\<lambda>(name, i). backend_type = name) (impls B) of
                 None \<Rightarrow> Some (None, s\<lparr>errno := EINVAL\<rparr>)
               | Some (name, i) \<Rightarrow> impl_open_seat (I i) L s)
          | None \<Rightarrow> try_backends I L (impls B) s)"

text \<open>The calls on a seat; a null pointer fails the assertion.\<close>

definition libseat_disable_seat :: "(seat_impl_id \<Rightarrow> 'z seat_impl) \<Rightarrow> seat_impl_id option \<Rightarrow> 'z libs_scheme \<Rightarrow> (int \<times> 'z libs_scheme) option" where
  "libseat_disable_seat I seat s = do { i \<leftarrow> seat; impl_disable_seat (I i) s }"

definition libseat_close_seat ::
    "(seat_impl_id \<Rightarrow> 'z seat_impl) \<Rightarrow> 'z seat_listener \<Rightarrow> seat_impl_id option \<Rightarrow> 'z libs_scheme \<Rightarrow> (int \<times> 'z libs_scheme) option" where
  "libseat_close_seat I L seat s = do { i \<leftarrow> seat; impl_close_seat (I i) L s }"

definition libseat_seat_name :: "(seat_impl_id \<Rightarrow> 'z seat_impl) \<Rightarrow> seat_impl_id option \<Rightarrow> 'z libs_scheme \<Rightarrow> string option" where
  "libseat_seat_name I seat s = do { i \<leftarrow> seat; impl_seat_name (I i) s }"

definition libseat_open_device ::
    "(seat_impl_id \<Rightarrow> 'z seat_impl) \<Rightarrow> seat_impl_id option \<Rightarrow> string \<Rightarrow> 'z libs_scheme \<Rightarrow> (int \<times> int option \<times> 'z libs_scheme) option" where
  "libseat_open_device I seat path s = do { i \<leftarrow> seat; impl_open_device (I i) path s }"

definition libseat_close_device :: "(seat_impl_id \<Rightarrow> 'z seat_impl) \<Rightarrow> seat_impl_id option \<Rightarrow> int \<Rightarrow> 'z libs_scheme \<Rightarrow> (int \<times> 'z libs_scheme) option" where
  "libseat_close_device I seat dev_id s = do { i \<leftarrow> seat; impl_close_device (I i) dev_id s }"

definition libseat_get_fd :: "(seat_impl_id \<Rightarrow> 'z seat_impl) \<Rightarrow> seat_impl_id option \<Rightarrow> 'z libs_scheme \<Rightarrow> (int \<times> 'z libs_scheme) option" where
  "libseat_get_fd I seat s = do { i \<leftarrow> seat; impl_get_fd (I i) s }"

definition libseat_dispatch ::
    "(seat_impl_id \<Rightarrow> 'z seat_impl) \<Rightarrow> 'z seat_listener \<Rightarrow> seat_impl_id option \<Rightarrow> int \<Rightarrow> 'z libs_scheme \<Rightarrow> (int \<times> 'z libs_scheme) option" where
  "libseat_dispatch I L seat timeout s = do { i \<leftarrow> seat; impl_dispatch (I i) L timeout s }"

definition libseat_switch_session :: "(seat_impl_id \<Rightarrow> 'z seat_impl) \<Rightarrow> seat_impl_id option \<Rightarrow> int \<Rightarrow> 'z libs_scheme \<Rightarrow> (int \<times> 'z libs_scheme) option" where
  "libseat_switch_session I seat session s = do { i \<leftarrow> seat; impl_switch_session (I i) session s }"

end
