(* ===== verification/Libseat_Inv.thy ===== *)
theory Libseat_Inv
  imports Libseat_Seatd
begin

unbundle bit_operations_syntax

text \<open>
  The client library: what the operations on a backend keep, that they return, and what they do
  to the streams of bytes in both directions.
\<close>

section \<open>The invariant of a backend\<close>

definition be_ok :: "backend_seatd \<Rightarrow> bool" where
  "be_ok b \<longleftrightarrow> conn_ok (b_connection b) \<and> set (pending_events b) \<subseteq> {SERVER_DISABLE_SEAT, SERVER_ENABLE_SEAT}
     \<and> length (b_seat_name b) = MAX_SEAT_LEN"

definition be_in :: "backend_seatd \<Rightarrow> bytes" where
  "be_in b = contents (conn_in (b_connection b))"

text \<open>What every operation on the connection keeps; in particular none of them makes the backend wait for a pong.\<close>

definition be_step :: "backend_seatd \<Rightarrow> 'a os_scheme \<Rightarrow> backend_seatd \<Rightarrow> 'a os_scheme \<Rightarrow> bool" where
  "be_step b s b' s' \<longleftrightarrow> be_ok b' \<and> os_frame s s' \<and> conn_fd (b_connection b') = conn_fd (b_connection b)
     \<and> (b_error b \<longrightarrow> b_error b') \<and> b_seat_name b' = b_seat_name b \<and> (awaiting_pong b' \<longrightarrow> awaiting_pong b)"

lemma be_step_refl: "be_ok b \<Longrightarrow> be_step b s b s"
  by (simp add: be_step_def)

lemma be_step_trans [trans]: "be_step b s b1 s1 \<Longrightarrow> be_step b1 s1 b2 s2 \<Longrightarrow> be_step b s b2 s2"
  by (auto simp: be_step_def intro: os_frame_trans)

lemma be_step_errno [simp]: "be_step b s b' (s'\<lparr>errno := e\<rparr>) = be_step b s b' s'"
  by (simp add: be_step_def)

lemma be_step_ok: "be_step b s b' s' \<Longrightarrow> be_ok b'"
  by (simp add: be_step_def)

lemma be_ok_connection:
  "be_ok b \<Longrightarrow> conn_ok cn \<Longrightarrow> be_ok (b\<lparr>b_connection := cn\<rparr>)"
  by (simp add: be_ok_def)

lemma cleanup_ok:
  assumes "be_ok b"
  shows "\<exists>b' s'. cleanup E b s = Some (b', s') \<and> be_step b s b' s' \<and> pending_events b' = [] \<and> be_in b' = be_in b
    \<and> b_error b' = b_error b"
proof -
  let ?s = "if conn_fd (b_connection b) \<noteq> - 1 then sys_shutdown E (conn_fd (b_connection b)) s else s"
  have f: "os_frame s ?s" by (simp add: sys_frames(9))
  from connection_close_fds_ok [of "b_connection b" E ?s] assms obtain cn t where
      c: "connection_close_fds E (b_connection b) ?s = Some (cn, t)" "conn_ok cn" "os_frame ?s t"
        "conn_fd cn = conn_fd (b_connection b)" "conn_in cn = conn_in (b_connection b)"
    by (auto simp: be_ok_def)
  with assms os_frame_trans [OF f c(3)] show ?thesis by (simp add: cleanup_def be_step_def be_ok_def be_in_def)
qed

lemma set_error_ok:
  assumes "be_ok b"
  shows "\<exists>b' s'. set_error E b s = Some (b', s') \<and> be_step b s b' s' \<and> b_error b' \<and> be_in b' = be_in b"
proof (cases "b_error b")
  case False
  have "be_ok (b\<lparr>b_error := True\<rparr>)" using assms by (simp add: be_ok_def)
  from cleanup_ok [OF this, of E s] False show ?thesis by (auto simp: set_error_def be_step_def be_in_def)
qed (use assms in \<open>simp add: set_error_def be_step_refl\<close>)

section \<open>Sending\<close>

text \<open>What has been sent and what is about to be.\<close>

definition be_sent :: "backend_seatd \<Rightarrow> 'a os_scheme \<Rightarrow> bytes" where
  "be_sent b s = sent_on (conn_fd (b_connection b)) (trace s) @ contents (conn_out (b_connection b))"

lemma conn_put_ok:
  assumes b: "be_ok b" and E: "kernel_ok E"
  shows "\<exists>r b' s'. conn_put E b bs s = Some (r, b', s') \<and> be_step b s b' s' \<and> be_in b' = be_in b
    \<and> (r = 0 \<and> be_sent b' s' = be_sent b s @ bs \<and> b_error b' = b_error b \<and> pending_events b' = pending_events b
         \<and> fds_in (b_connection b') = fds_in (b_connection b)
       \<or> r = - 1 \<and> b_error b')"
proof -
  have c: "conn_ok (b_connection b)" using b by (simp add: be_ok_def)
  obtain r cn t where put: "connection_put E (b_connection b) bs s = Some (r, cn, t)"
    using connection_put_returns [OF c kernel_okD(1,2) [OF E]] by blast
  note ok = connection_put_ok [OF c kernel_okD(1) [OF E] put]
  let ?b = "b\<lparr>b_connection := cn\<rparr>"
  have b': "be_step b s ?b t" "be_in ?b = be_in b" using ok b by (auto simp: be_step_def be_ok_def be_in_def)
  show ?thesis
  proof (cases "r = - 1")
    case True
    from set_error_ok [OF be_step_ok [OF b'(1)], of E t] obtain b2 t2 where
        "set_error E ?b t = Some (b2, t2)" "be_step ?b t b2 t2" "b_error b2" "be_in b2 = be_in ?b" by blast
    with True put b' show ?thesis by (auto simp: conn_put_def intro: be_step_trans)
  next
    case False
    with ok put b' show ?thesis by (auto simp: conn_put_def be_sent_def)
  qed
qed

lemma conn_flush_ok:
  assumes b: "be_ok b" and E: "kernel_ok E"
  shows "\<exists>r b' s'. conn_flush E b s = Some (r, b', s') \<and> be_step b s b' s' \<and> be_in b' = be_in b
    \<and> (r = 0 \<and> be_sent b' s' = be_sent b s \<and> b_error b' = b_error b \<and> pending_events b' = pending_events b
         \<and> fds_in (b_connection b') = fds_in (b_connection b)
       \<or> r = - 1 \<and> b_error b')"
proof -
  have c: "conn_ok (b_connection b)" using b by (simp add: be_ok_def)
  obtain r cn t where fl: "connection_flush E (b_connection b) s = Some (r, cn, t)"
    using connection_flush_returns [OF c kernel_okD(1,2) [OF E]] by blast
  note ok = connection_flush_ok [OF c kernel_okD(1) [OF E] fl, unfolded flushed_def]
  let ?b = "b\<lparr>b_connection := cn\<rparr>"
  have b': "be_step b s ?b t" "be_in ?b = be_in b" using ok b by (auto simp: be_step_def be_ok_def be_in_def)
  show ?thesis
  proof (cases "r = - 1")
    case True
    from set_error_ok [OF be_step_ok [OF b'(1)], of E t] obtain b2 t2 where
        "set_error E ?b t = Some (b2, t2)" "be_step ?b t b2 t2" "b_error b2" "be_in b2 = be_in ?b" by blast
    with True fl b' show ?thesis by (auto simp: conn_flush_def intro: be_step_trans)
  next
    case False
    with ok fl b' show ?thesis by (auto simp: conn_flush_def be_sent_def)
  qed
qed

section \<open>Receiving\<close>

lemma conn_get_ok:
  assumes b: "be_ok b"
  shows "\<exists>r b' s'. conn_get E b n s = Some (r, b', s') \<and> be_step b s b' s'
    \<and> (if n \<le> length (be_in b) then r = Some (take n (be_in b)) \<and> be_in b' = drop n (be_in b) \<and> s' = s
         \<and> b' = b\<lparr>b_connection := (b_connection b)\<lparr>conn_in := connection_buffer_consume (conn_in (b_connection b)) n\<rparr>\<rparr>
       else r = None \<and> b_error b' \<and> be_in b' = be_in b \<and> errno s' = EBADMSG)"
proof -
  have c: "conn_ok (b_connection b)" using b by (simp add: be_ok_def)
  show ?thesis
  proof (cases "n \<le> length (be_in b)")
    case True
    have cb: "cb_ok (conn_in (b_connection b))" using c by (simp add: conn_ok_def)
    have n: "n \<le> unat (connection_buffer_size (conn_in (b_connection b)))" using True by (simp add: be_in_def)
    let ?cn = "(b_connection b)\<lparr>conn_in := connection_buffer_consume (conn_in (b_connection b)) n\<rparr>"
    have "conn_ok ?cn" "contents (conn_in ?cn) = drop n (be_in b)"
      using connection_buffer_consume_ok [OF cb n] c by (auto simp: conn_ok_def be_in_def)
    then show ?thesis
      using True b connection_get_ok [OF c, of n s] by (simp add: conn_get_def be_step_def be_ok_def be_in_def)
  next
    case False
    have "connection_get (b_connection b) n s = Some (None, b_connection b, s\<lparr>errno := EAGAIN\<rparr>)"
      using False connection_get_ok [OF c, of n s] by (simp add: be_in_def)
    moreover from set_error_ok [OF b, of E "s\<lparr>errno := EAGAIN\<rparr>"] obtain b' s' where
        "set_error E b (s\<lparr>errno := EAGAIN\<rparr>) = Some (b', s')" "be_step b (s\<lparr>errno := EAGAIN\<rparr>) b' s'" "b_error b'" "be_in b' = be_in b" by blast
    ultimately show ?thesis using False by (auto simp: conn_get_def be_step_def os_frame_def)
  qed
qed

lemma conn_get_fd_ok:
  assumes b: "be_ok b"
  shows "\<exists>r b' s'. conn_get_fd E b s = Some (r, b', s') \<and> be_step b s b' s' \<and> be_in b' = be_in b
    \<and> (if 4 \<le> length (contents (fds_in (b_connection b))) then r = Some (bytes_int (take 4 (contents (fds_in (b_connection b))))) \<and> s' = s
         \<and> b_error b' = b_error b \<and> pending_events b' = pending_events b
       else r = None \<and> b_error b' \<and> errno s' = EBADMSG)"
proof -
  have c: "conn_ok (b_connection b)" using b by (simp add: be_ok_def)
  show ?thesis
  proof (cases "4 \<le> length (contents (fds_in (b_connection b)))")
    case True
    have cb: "cb_ok (fds_in (b_connection b))" using c by (simp add: conn_ok_def)
    let ?cn = "(b_connection b)\<lparr>fds_in := connection_buffer_consume (fds_in (b_connection b)) 4\<rparr>"
    have "conn_ok ?cn" using connection_buffer_consume_ok [OF cb, of 4] c True by (auto simp: conn_ok_def)
    then show ?thesis
      using True b connection_get_fd_ok [OF c, of s] by (simp add: conn_get_fd_def be_step_def be_ok_def be_in_def)
  next
    case False
    have "connection_get_fd (b_connection b) s = Some (None, b_connection b, s\<lparr>errno := EAGAIN\<rparr>)"
      using False connection_get_fd_ok [OF c, of s] by simp
    moreover from set_error_ok [OF b, of E "s\<lparr>errno := EAGAIN\<rparr>"] obtain b' s' where
        "set_error E b (s\<lparr>errno := EAGAIN\<rparr>) = Some (b', s')" "be_step b (s\<lparr>errno := EAGAIN\<rparr>) b' s'" "b_error b'" "be_in b' = be_in b" by blast
    ultimately show ?thesis using False by (auto simp: conn_get_fd_def be_step_def os_frame_def)
  qed
qed

text \<open>
  A header at the front of the input: what \<open>read_header\<close> makes of it. The result is the size of the message that was expected;
  otherwise \<open>errno\<close> is the code of an error message, and anything else marks the connection
  as broken.
\<close>

lemma read_header_ok:
  assumes b: "be_ok b"
  shows "\<exists>r b' s'. read_header E b op n var s = Some (r, b', s') \<and> be_step b s b' s'"
proof -
  have err: "\<exists>b' s'. set_error E b1 s1 = Some (b', s') \<and> be_step b s b' s'" if "be_step b s b1 s1" for b1 and s1 :: "'a os_scheme"
    using set_error_ok [OF be_step_ok [OF that], of E s1] be_step_trans [OF that] by blast
  obtain r b1 s1 where g: "conn_get E b 4 s = Some (r, b1, s1)" "be_step b s b1 s1" using conn_get_ok [OF b, of E 4 s] by blast
  obtain r2 b2 s2 where g2: "conn_get E b1 4 s1 = Some (r2, b2, s2)" "be_step b1 s1 b2 s2"
    using conn_get_ok [OF be_step_ok [OF g(2)], of E 4 s1] by blast
  note st = be_step_trans [OF g(2) g2(2)]
  obtain b3 s3 where e1: "set_error E b1 s1 = Some (b3, s3)" "be_step b s b3 s3" using err [OF g(2)] by blast
  obtain b4 s4 where e2: "set_error E b2 s2 = Some (b4, s4)" "be_step b s b4 s4" using err [OF st] by blast
  show ?thesis
    using g g2 e1 e2 st by (cases r; cases r2) (auto simp: read_header_def Let_def)
qed

lemma read_header_expected:
  assumes b: "be_ok b" and inp: "be_in b = header_bytes op n @ rest" "n < 65536" and sz: "if var then m \<le> n else m = n"
  shows "\<exists>b'. read_header E b op m var s = Some (Some n, b', s) \<and> be_step b s b' s \<and> be_in b' = rest
    \<and> fds_in (b_connection b') = fds_in (b_connection b) \<and> pending_events b' = pending_events b \<and> b_error b' = b_error b
    \<and> conn_out (b_connection b') = conn_out (b_connection b) \<and> awaiting_pong b' = awaiting_pong b"
proof -
  have "4 \<le> length (be_in b)" using inp(1) by simp
  with conn_get_ok [OF b, of E 4 s] inp(1) obtain b' where
      g: "conn_get E b 4 s = Some (Some (header_bytes op n), b', s)" "be_step b s b' s" "be_in b' = rest"
        "b' = b\<lparr>b_connection := (b_connection b)\<lparr>conn_in := connection_buffer_consume (conn_in (b_connection b)) 4\<rparr>\<rparr>" by auto
  have "decode_header (header_bytes op n) = \<lparr>opcode = op, msg_size = of_nat n\<rparr>" by (simp add: header_bytes_def header.dec_enc)
  moreover have "unat (of_nat n :: u16) = n" using inp(2) by (simp add: unat_of_nat)
  ultimately show ?thesis using g sz by (auto simp: read_header_def Let_def split: if_splits)
qed

text \<open>An error message of the server is passed on as \<open>errno\<close>, and the connection stays usable.\<close>

lemma read_header_error:
  assumes b: "be_ok b" and inp: "be_in b = header_bytes SERVER_ERROR 4 @ encode_int_msg e @ rest" and op: "op \<noteq> SERVER_ERROR"
    and e: "is_int e"
  shows "\<exists>b'. read_header E b op m var s = Some (None, b', s\<lparr>errno := e\<rparr>) \<and> be_step b s b' s \<and> be_in b' = rest
    \<and> pending_events b' = pending_events b \<and> b_error b' = b_error b
    \<and> conn_out (b_connection b') = conn_out (b_connection b) \<and> awaiting_pong b' = awaiting_pong b"
proof -
  have "4 \<le> length (be_in b)" using inp(1) by simp
  with conn_get_ok [OF b, of E 4 s] inp(1) obtain b1 where
      g: "conn_get E b 4 s = Some (Some (header_bytes SERVER_ERROR 4), b1, s)" "be_step b s b1 s" "be_in b1 = encode_int_msg e @ rest"
        "b1 = b\<lparr>b_connection := (b_connection b)\<lparr>conn_in := connection_buffer_consume (conn_in (b_connection b)) 4\<rparr>\<rparr>" by auto
  from conn_get_ok [OF be_step_ok [OF g(2)], of E 4 s] g(3) obtain b2 where
      g2: "conn_get E b1 4 s = Some (Some (encode_int_msg e), b2, s)" "be_step b1 s b2 s" "be_in b2 = rest"
        "b2 = b1\<lparr>b_connection := (b_connection b1)\<lparr>conn_in := connection_buffer_consume (conn_in (b_connection b1)) 4\<rparr>\<rparr>" by auto
  have "decode_header (header_bytes SERVER_ERROR 4) = \<lparr>opcode = SERVER_ERROR, msg_size = 4\<rparr>" by (simp add: header_bytes_def header.dec_enc)
  moreover have "b_error b2 = b_error b" "pending_events b2 = pending_events b" "awaiting_pong b2 = awaiting_pong b"
      "conn_out (b_connection b2) = conn_out (b_connection b)" using g(4) g2(4) by auto
  ultimately show ?thesis
    using g(1) g2(1,3) op e be_step_trans [OF g(2) g2(2)] by (simp add: read_header_def Let_def int_msg.dec_enc)
qed

section \<open>Background events\<close>

text \<open>
  The headers of events at the front of the input, in order, and what follows them.
\<close>

definition background :: "u16 \<Rightarrow> bool" where
  "background op \<longleftrightarrow> op \<in> {SERVER_PONG, SERVER_DISABLE_SEAT, SERVER_ENABLE_SEAT}"

function scan_events :: "bytes \<Rightarrow> u16 list \<times> bytes" where
  "scan_events bs = (if length bs < 4 \<or> \<not> background (opcode (decode_header (take 4 bs))) then ([], bs)
     else let (ops, rest) = scan_events (drop 4 bs) in (opcode (decode_header (take 4 bs)) # ops, rest))"
  by pat_completeness auto
termination by (relation "measure length") auto

declare scan_events.simps [simp del]

text \<open>What \<open>read_and_queue\<close> leaves behind when it goes well.\<close>

definition queued :: "bool \<Rightarrow> backend_seatd \<Rightarrow> int \<Rightarrow> int \<Rightarrow> u16 \<Rightarrow> backend_seatd \<Rightarrow> bool" where
  "queued want b n p op b' \<longleftrightarrow> (let (ops, rest) = scan_events (be_in b); h = decode_header (take 4 rest) in
     be_in b' = rest \<and> (want \<or> length rest < 4)
     \<and> pending_events b' = rev (filter (\<lambda>x. x \<noteq> SERVER_PONG) ops) @ pending_events b
     \<and> awaiting_pong b' = (awaiting_pong b \<and> SERVER_PONG \<notin> set ops)
     \<and> p = n + int (length ops) + (if length rest < 4 then 0 else 1)
     \<and> op = (if 4 \<le> length rest \<and> unat (msg_size h) \<le> length rest - 4 then opcode h else 0)
     \<and> b_error b' = b_error b \<and> fds_in (b_connection b') = fds_in (b_connection b))"

lemma be_in_restore:
  assumes "be_ok b" and "4 \<le> length (be_in b)" and "be_ok b'"
    and "conn_in (b_connection b') = connection_buffer_consume (conn_in (b_connection b)) 4"
  shows "be_ok (b'\<lparr>b_connection := connection_restore (b_connection b') 4\<rparr>)"
    and "be_in (b'\<lparr>b_connection := connection_restore (b_connection b') 4\<rparr>) = be_in b"
proof -
  have "conn_in (connection_restore (b_connection b') 4) = conn_in (b_connection b)"
    using assms(4) by (simp add: connection_restore_def connection_buffer_restore_def connection_buffer_consume_def)
  with assms(1,3) show "be_ok (b'\<lparr>b_connection := connection_restore (b_connection b') 4\<rparr>)"
    and "be_in (b'\<lparr>b_connection := connection_restore (b_connection b') 4\<rparr>) = be_in b"
    by (auto simp: be_ok_def conn_ok_def be_in_def connection_restore_def)
qed

lemma set_error_conn_in:
  assumes "be_ok b" and "set_error E b s = Some (b', s')"
  shows "conn_in (b_connection b') = conn_in (b_connection b)"
proof -
  have "conn_in cn = conn_in (b_connection b)" if "connection_close_fds E (b_connection b) t = Some (cn, u)" for t u :: "'a os_scheme" and cn
    using connection_close_fds_ok [of "b_connection b" E t] assms(1) that by (auto simp: be_ok_def)
  with assms(2) show ?thesis by (auto simp: set_error_def cleanup_def bind_eq_Some_conv Let_def split: if_splits)
qed

text \<open>The backend after a header has been taken off the input.\<close>

definition after_header :: "backend_seatd \<Rightarrow> backend_seatd" where
  "after_header b = b\<lparr>b_connection := (b_connection b)\<lparr>conn_in := connection_buffer_consume (conn_in (b_connection b)) 4\<rparr>\<rparr>"

lemma after_header_sel [simp]:
  "pending_events (after_header b) = pending_events b" "awaiting_pong (after_header b) = awaiting_pong b"
  "b_error (after_header b) = b_error b" "b_seat_name (after_header b) = b_seat_name b"
  "fds_in (b_connection (after_header b)) = fds_in (b_connection b)"
  "conn_in (b_connection (after_header b)) = connection_buffer_consume (conn_in (b_connection b)) 4"
  "(after_header b)\<lparr>b_connection := cn\<rparr> = b\<lparr>b_connection := cn\<rparr>"
  by (simp_all add: after_header_def)

lemma after_header_ok:
  assumes "be_ok b" and "4 \<le> length (be_in b)"
  shows "connection_get (b_connection b) 4 s = Some (Some (take 4 (be_in b)), b_connection (after_header b), s)"
    and "be_step b s (after_header b) s" and "be_in (after_header b) = drop 4 (be_in b)"
    and "b\<lparr>b_connection := b_connection (after_header b)\<rparr> = after_header b"
proof -
  have "conn_ok (b_connection b)" using assms(1) by (simp add: be_ok_def)
  then show "connection_get (b_connection b) 4 s = Some (Some (take 4 (be_in b)), b_connection (after_header b), s)"
    using assms(2) connection_get_ok [of "b_connection b" 4 s] by (simp add: be_in_def after_header_def)
  from conn_get_ok [OF assms(1), of undefined 4 s] assms(2) show "be_step b s (after_header b) s" "be_in (after_header b) = drop 4 (be_in b)"
    by (auto simp: after_header_def)
qed (simp add: after_header_def)

lemma scan_events_step:
  assumes "4 \<le> length (be_in b)" and "be_ok b"
  shows "scan_events (be_in b) = (let op = opcode (decode_header (take 4 (be_in b))) in
    if background op then (op # fst (scan_events (be_in (after_header b))), snd (scan_events (be_in (after_header b)))) else ([], be_in b))"
  using assms(1) after_header_ok(3) [OF assms(2,1)] by (simp add: scan_events.simps [of "be_in b"] split_def Let_def)

lemma queued_step:
  assumes "queued want b2 (n + 1) p op b'" and "be_ok b" and "4 \<le> length (be_in b)" and "be_in b2 = be_in (after_header b)"
    and "h = decode_header (take 4 (be_in b))" and "background (opcode h)"
    and "awaiting_pong b2 = (awaiting_pong b \<and> opcode h \<noteq> SERVER_PONG)" and "b_error b2 = b_error b"
    and "pending_events b2 = (if opcode h = SERVER_PONG then [] else [opcode h]) @ pending_events b"
    and "fds_in (b_connection b2) = fds_in (b_connection b)"
  shows "queued want b n p op b'"
  using assms scan_events_step [OF assms(3,2)] by (auto simp: queued_def Let_def split_def)

text \<open>A header that is not that of an event ends the loop and is put back.\<close>

lemma read_and_queue_stop:
  assumes b: "be_ok b" "4 \<le> length (be_in b)" and h: "h = decode_header (take 4 (be_in b))" "\<not> background (opcode h)" and n: "0 \<le> n"
  shows "\<exists>p op b' s'. read_and_queue_loop E want n b s = Some (p, op, b', s') \<and> be_step b s b' s'
    \<and> (if want then 0 \<le> p \<and> queued want b n p op b' else p = - 1 \<and> b_error b' \<and> op = 0)"
proof -
  let ?b = "after_header b"
  note ah = after_header_ok(1,2) [OF b, of s] after_header_ok(3,4) [OF b]
  have ne: "opcode h \<noteq> SERVER_PONG" "opcode h \<noteq> SERVER_DISABLE_SEAT" "opcode h \<noteq> SERVER_ENABLE_SEAT" using h(2) by (auto simp: background_def)
  have sc: "scan_events (be_in b) = ([], be_in b)" using scan_events_step [OF b(2,1)] h by simp
  show ?thesis
  proof (cases want)
    case True
    have "connection_pending (b_connection ?b) = length (be_in b) - 4"
      using ah(3) by (simp add: connection_pending_def be_in_def flip: length_contents)
    then have "read_and_queue_loop E want n b s = Some (n + 1, if unat (msg_size h) \<le> length (be_in b) - 4 then opcode h else 0,
        b\<lparr>b_connection := connection_restore (b_connection ?b) 4\<rparr>, s)"
      using True ne ah(1) h(1) unfolding read_and_queue_loop.simps [of E want n b s] by (simp add: Let_def ah(4))
    moreover from be_in_restore [OF b be_step_ok [OF ah(2)]] ah(2)
    have "be_step b s (b\<lparr>b_connection := connection_restore (b_connection ?b) 4\<rparr>) s"
        "be_in (b\<lparr>b_connection := connection_restore (b_connection ?b) 4\<rparr>) = be_in b"
      by (simp_all add: be_step_def connection_restore_def)
    ultimately show ?thesis using True sc b(2) h(1) n by (simp add: queued_def connection_restore_def)
  next
    case False
    from set_error_ok [OF be_step_ok [OF ah(2)], of E s] obtain b2 s2 where
        e: "set_error E ?b s = Some (b2, s2)" "be_step ?b s b2 s2" "b_error b2" by blast
    have "conn_in (b_connection b2) = connection_buffer_consume (conn_in (b_connection b)) 4"
      using set_error_conn_in [OF be_step_ok [OF ah(2)] e(1)] by simp
    from be_in_restore [OF b be_step_ok [OF e(2)] this] be_step_trans [OF ah(2) e(2)]
    have "be_step b s (b2\<lparr>b_connection := connection_restore (b_connection b2) 4\<rparr>) s2"
      by (simp add: be_step_def connection_restore_def)
    with False ne e ah(1) h(1) show ?thesis
      unfolding read_and_queue_loop.simps [of E want n b s] by (simp add: Let_def ah(4) be_step_def)
  qed
qed

lemma read_and_queue_loop_ok:
  assumes "be_ok b" and "0 \<le> n"
  shows "\<exists>p op b' s'. read_and_queue_loop E want n b s = Some (p, op, b', s') \<and> be_step b s b' s'
    \<and> (p = - 1 \<and> b_error b' \<and> op = 0 \<and> ((\<forall>tr. k_alloc E tr) \<longrightarrow> \<not> want \<and> 4 \<le> length (snd (scan_events (be_in b))))
       \<or> 0 \<le> p \<and> queued want b n p op b')"
  using assms
proof (induction "length (be_in b)" arbitrary: b n s rule: less_induct)
  case less
  let ?b = "after_header b" and ?h = "decode_header (take 4 (be_in b))"
  consider "length (be_in b) < 4" | "4 \<le> length (be_in b)" "\<not> background (opcode ?h)" | "4 \<le> length (be_in b)" "background (opcode ?h)"
    by linarith
  then show ?case
  proof cases
    case 1
    have "conn_ok (b_connection b)" using less.prems by (simp add: be_ok_def)
    then have "read_and_queue_loop E want n b s = Some (n, 0, b, s\<lparr>errno := EAGAIN\<rparr>)"
      using 1 connection_get_ok [of "b_connection b" 4 s] by (simp add: read_and_queue_loop.simps [of E want n b s] be_in_def)
    moreover have "queued want b n n 0 b" using 1 by (simp add: queued_def scan_events.simps [of "be_in b"])
    ultimately show ?thesis using less.prems be_step_refl [OF less.prems(1), of s] by simp
  next
    case 2
    with read_and_queue_stop [OF less.prems(1) 2(1) refl 2(2) less.prems(2), of E want s] scan_events_step [OF 2(1) less.prems(1)]
    show ?thesis by (auto split: if_splits)
  next
    case 3
    note ah = after_header_ok(1,2) [OF less.prems(1) 3(1), of s] after_header_ok(3,4) [OF less.prems(1) 3(1)]
    have sc: "snd (scan_events (be_in b)) = snd (scan_events (be_in ?b))" using scan_events_step [OF 3(1) less.prems(1)] 3(2) by simp
    have rec: ?thesis if b2: "be_ok b2" "be_in b2 = be_in ?b" "be_step b s b2 s2"
        and run: "read_and_queue_loop E want n b s = read_and_queue_loop E want (n + 1) b2 s2"
        and eq: "awaiting_pong b2 = (awaiting_pong b \<and> opcode ?h \<noteq> SERVER_PONG)" "b_error b2 = b_error b"
          "pending_events b2 = (if opcode ?h = SERVER_PONG then [] else [opcode ?h]) @ pending_events b"
          "fds_in (b_connection b2) = fds_in (b_connection b)" for b2 and s2 :: "'a os_scheme"
    proof -
      have "length (be_in b2) < length (be_in b)" using 3(1) ah(3) b2(2) by simp
      moreover have "0 \<le> n + 1" using less.prems(2) by simp
      ultimately obtain p op b' s' where
          r: "read_and_queue_loop E want (n + 1) b2 s2 = Some (p, op, b', s')" "be_step b2 s2 b' s'"
            "p = - 1 \<and> b_error b' \<and> op = 0 \<and> ((\<forall>tr. k_alloc E tr) \<longrightarrow> \<not> want \<and> 4 \<le> length (snd (scan_events (be_in b2))))
              \<or> 0 \<le> p \<and> queued want b2 (n + 1) p op b'"
        using less.hyps [OF _ b2(1), of "n + 1" s2] by metis
      from r run be_step_trans [OF b2(3) r(2)] sc b2(2) queued_step [OF _ less.prems(1) 3(1) b2(2) refl 3(2) eq, of want n p op b']
      show ?thesis by auto
    qed
    show ?thesis
    proof (cases "opcode ?h = SERVER_PONG")
      case True
      have run: "read_and_queue_loop E want n b s = read_and_queue_loop E want (n + 1) (?b\<lparr>awaiting_pong := False\<rparr>) s"
        using True ah(1) by (simp add: read_and_queue_loop.simps [of E want n b s] Let_def after_header_def)
      show ?thesis
        by (rule rec [OF _ _ _ run]) (use True ah be_step_ok [OF ah(2)] in \<open>auto simp: be_ok_def be_in_def be_step_def\<close>)
    next
      case False
      then have ev: "opcode ?h = SERVER_DISABLE_SEAT \<or> opcode ?h = SERVER_ENABLE_SEAT" using 3(2) by (auto simp: background_def)
      obtain ok s2 where al: "sys_alloc E s = (ok, s2)" by force
      have f: "os_frame s s2" using al sys_alloc_frame [of s E] by simp
      show ?thesis
      proof (cases ok)
        case True
        have run: "read_and_queue_loop E want n b s = read_and_queue_loop E want (n + 1) (?b\<lparr>pending_events := opcode ?h # pending_events ?b\<rparr>) s2"
          using True False ev al ah(1) by (auto simp: read_and_queue_loop.simps [of E want n b s] Let_def queue_event_def after_header_def)
        show ?thesis
          by (rule rec [OF _ _ _ run])
            (use False ev f ah be_step_ok [OF ah(2)] in \<open>auto simp: be_ok_def be_in_def be_step_def\<close>)
      next
        case oom: False
        from set_error_ok [OF be_step_ok [OF ah(2)], of E s2] obtain b' s' where
            e: "set_error E ?b s2 = Some (b', s')" "be_step ?b s2 b' s'" "b_error b'" by blast
        have "be_step b s ?b s2" using ah(2) f by (auto simp: be_step_def intro: os_frame_trans)
        moreover have "\<not> (\<forall>tr. k_alloc E tr)" using al oom by (auto simp: sys_alloc_def split: if_splits)
        ultimately show ?thesis using False oom ev al e ah(1) be_step_trans
          by (fastforce simp: read_and_queue_loop.simps [of E want n b s] Let_def queue_event_def ah(4))
      qed
    qed
  qed
qed

lemma read_and_queue_ok:
  assumes "be_ok b"
  shows "\<exists>p op b' s'. read_and_queue E want b s = Some (p, op, b', s') \<and> be_step b s b' s'
    \<and> (p = - 1 \<and> b_error b' \<and> op = 0 \<and> ((\<forall>tr. k_alloc E tr) \<longrightarrow> \<not> want \<and> 4 \<le> length (snd (scan_events (be_in b))))
       \<or> 0 \<le> p \<and> queued want b 0 p op b')"
  unfolding read_and_queue_def using assms by (intro read_and_queue_loop_ok) simp_all

section \<open>Waiting for a response\<close>

lemma poll_connection_ok:
  assumes b: "be_ok b" and E: "kernel_ok E"
  shows "\<exists>r b' s'. poll_connection E b t s = Some (r, b', s') \<and> be_step b s b' s'"
proof -
  let ?c = "sys_call E (C_poll (conn_fd (b_connection b)) t) s"
  obtain q s1 where q: "?c = (q, s1)" by force
  have f: "os_frame s s1" using sys_call_frames(1) [of s E "C_poll (conn_fd (b_connection b)) t"] q by simp
  have st: "be_step b s b s1" using b f by (simp add: be_step_def)
  have err: "\<exists>b' s'. set_error E b1 s1 = Some (b', s') \<and> be_step b s b' s'" if "be_step b s b1 s1" for b1 and s1 :: "'a os_scheme"
    using set_error_ok [OF be_step_ok [OF that], of E s1] be_step_trans [OF that] by blast
  have c: "conn_ok (b_connection b)" using b by (simp add: be_ok_def)
  obtain n cn s2 where rd: "connection_read E (b_connection b) s1 = Some (n, cn, s2)"
    using connection_read_returns [OF c kernel_okD(3,4) [OF E]] by blast
  have st2: "be_step b s (b\<lparr>b_connection := cn\<rparr>) s2"
    using connection_read_ok [OF c kernel_okD(3) [OF E] rd] st by (auto simp: be_step_def be_ok_def intro: os_frame_trans)
  obtain b3 s3 where e1: "set_error E b s1 = Some (b3, s3)" "be_step b s b3 s3" using err [OF st] by blast
  obtain b4 s4 where e2: "set_error E (b\<lparr>b_connection := cn\<rparr>) s2 = Some (b4, s4)" "be_step b s b4 s4" using err [OF st2] by blast
  have "poll_connection E b t s = (case q of Inl e \<Rightarrow> Some (if e = EAGAIN \<or> e = EINTR then 0 else - 1, b, s1)
      | Inr revents \<Rightarrow> if revents AND (POLLERR OR POLLHUP) \<noteq> 0 then Some (- 1, b3, s3\<lparr>errno := EPIPE\<rparr>)
          else if revents AND POLLIN \<noteq> 0 then if n = 0 then Some (- 1, b4, s4\<lparr>errno := EIO\<rparr>)
            else if n = - 1 \<and> errno s2 \<noteq> EAGAIN then Some (- 1, b4, s4) else Some (n, b\<lparr>b_connection := cn\<rparr>, s2)
          else Some (0, b, s1))"
    by (cases q) (auto simp: poll_connection_def Let_def q rd e1(1) e2(1))
  then show ?thesis using st st2 e1(2) e2(2) by (cases q) simp_all
qed

text \<open>
  The loop may wait forever for the server; when it returns 0, a response stands at the front of the
  input as a whole.
\<close>

definition response_ready :: "backend_seatd \<Rightarrow> bool" where
  "response_ready b \<longleftrightarrow> 4 \<le> length (be_in b) \<and> \<not> background (opcode (decode_header (take 4 (be_in b))))
     \<and> unat (msg_size (decode_header (take 4 (be_in b)))) \<le> length (be_in b) - 4"

lemma scan_events_rest: "let rest = snd (scan_events bs) in length rest < 4 \<or> \<not> background (opcode (decode_header (take 4 rest)))"
  by (induction bs rule: scan_events.induct) (subst scan_events.simps, auto simp: Let_def split_def)

lemma queued_ready:
  assumes "queued want b n p op b'" and "op \<noteq> 0"
  shows "response_ready b' \<and> op = opcode (decode_header (take 4 (be_in b')))"
  using assms scan_events_rest [of "be_in b"] by (auto simp: queued_def response_ready_def Let_def split_def split: if_splits)

lemma response_loop_ok:
  assumes "response_loop E b s = Some (r, b', s')" and "be_ok b" and "kernel_ok E"
  shows "be_step b s b' s' \<and> (r = 0 \<and> response_ready b' \<or> r = - 1)"
proof -
  let ?P = "\<lambda>E b s (r, b', s'). be_ok b \<longrightarrow> kernel_ok E \<longrightarrow> be_step b s b' s' \<and> (r = 0 \<and> response_ready b' \<or> r = - 1)"
  have "?P E b s (r, b', s')"
  proof (rule response_loop.raw_induct [where P = ?P, OF _ assms(1)])
    fix f E b and s :: "'a os_scheme" and y
    assume IH: "\<And>E b s y. f E b s = Some y \<Longrightarrow> ?P E b s y"
      and eq: "(do {
        (packets, op, b, s) \<leftarrow> read_and_queue E True b s;
        if packets = - 1 then Some (- 1, b, s)
        else if op \<noteq> 0 then Some (0, b, s)
        else do {
          (len, b, s) \<leftarrow> poll_connection E b (- 1) s;
          if len = - 1 then Some (- 1, b, s) else f E b s } }) = Some y"
    show "?P E b s y"
    proof (cases y)
      case (fields r2 b2 s2)
      have ?thesis if b: "be_ok b" "kernel_ok E"
      proof -
        obtain p op b1 s1 where q: "read_and_queue E True b s = Some (p, op, b1, s1)" "be_step b s b1 s1" "p \<noteq> - 1 \<longrightarrow> queued True b 0 p op b1"
          using read_and_queue_ok [OF b(1), of E True s] by fastforce
        obtain n b3 s3 where pc: "poll_connection E b1 (- 1) s1 = Some (n, b3, s3)" "be_step b1 s1 b3 s3"
          using poll_connection_ok [OF be_step_ok [OF q(2)] b(2)] by blast
        note st = be_step_trans [OF q(2) pc(2)]
        have "Some y = (if p = - 1 then Some (- 1, b1, s1) else if op \<noteq> 0 then Some (0, b1, s1)
            else if n = - 1 then Some (- 1, b3, s3) else f E b3 s3)"
          using eq by (simp add: q(1) pc(1) split: if_splits)
        then consider "y = (- 1, b1, s1)" | "p \<noteq> - 1" "op \<noteq> 0" "y = (0, b1, s1)" | "y = (- 1, b3, s3)" | "f E b3 s3 = Some y"
          by (metis option.inject)
        then show ?thesis
        proof cases
          case 4
          from IH [OF this] be_step_trans [OF st] be_step_ok [OF st] b show ?thesis by (auto simp: fields)
        qed (use q(2,3) st queued_ready [of True b 0 p op b1] in auto)
      qed
      then show ?thesis by (auto simp: fields)
    qed
  qed
  with assms show ?thesis by simp
qed


lemma conn_put_all_ok:
  assumes "be_ok b" and "kernel_ok E"
  shows "\<exists>r b' s'. conn_put_all E b bss s = Some (r, b', s') \<and> be_step b s b' s' \<and> be_in b' = be_in b
    \<and> (r = 0 \<and> be_sent b' s' = be_sent b s @ concat bss \<and> b_error b' = b_error b \<and> pending_events b' = pending_events b
         \<and> fds_in (b_connection b') = fds_in (b_connection b)
       \<or> r = - 1 \<and> b_error b')"
  using assms(1)
proof (induction bss arbitrary: b s)
  case (Cons bs bss)
  from conn_put_ok [OF Cons.prems assms(2), of bs s] obtain r b1 s1 where
      p: "conn_put E b bs s = Some (r, b1, s1)" "be_step b s b1 s1" "be_in b1 = be_in b"
        "r = 0 \<and> be_sent b1 s1 = be_sent b s @ bs \<and> b_error b1 = b_error b \<and> pending_events b1 = pending_events b
           \<and> fds_in (b_connection b1) = fds_in (b_connection b) \<or> r = - 1 \<and> b_error b1"
    by blast
  show ?case
  proof (cases "r = - 1")
    case False
    from Cons.IH [OF be_step_ok [OF p(2)], of s1] obtain r2 b2 s2 where
        q: "conn_put_all E b1 bss s1 = Some (r2, b2, s2)" "be_step b1 s1 b2 s2" "be_in b2 = be_in b1"
          "r2 = 0 \<and> be_sent b2 s2 = be_sent b1 s1 @ concat bss \<and> b_error b2 = b_error b1 \<and> pending_events b2 = pending_events b1
             \<and> fds_in (b_connection b2) = fds_in (b_connection b1) \<or> r2 = - 1 \<and> b_error b2"
      by blast
    with False p be_step_trans [OF p(2) q(2)] show ?thesis by auto
  qed (use p in auto)
qed (simp add: be_step_refl)

lemma request_response_ok:
  assumes "request_response E b bss s = Some (r, b', s')" and "be_ok b" and "kernel_ok E"
  shows "be_step b s b' s' \<and> (r = 0 \<and> response_ready b' \<or> r = - 1)"
proof -
  obtain r1 b1 s1 where p: "conn_put_all E b bss s = Some (r1, b1, s1)" "be_step b s b1 s1"
    using conn_put_all_ok [OF assms(2,3)] by blast
  obtain r2 b2 s2 where fl: "conn_flush E b1 s1 = Some (r2, b2, s2)" "be_step b1 s1 b2 s2"
    using conn_flush_ok [OF be_step_ok [OF p(2)] assms(3)] by blast
  note st = be_step_trans [OF p(2) fl(2)]
  have "Some (r, b', s') = (if r1 = - 1 then Some (- 1, b1, s1) else if r2 = - 1 then Some (- 1, b2, s2) else response_loop E b2 s2)"
    using assms(1) by (simp add: request_response_def read_until_response_def p(1) fl(1) split: if_splits)
  then consider "r = - 1" "be_step b s b' s'" | "response_loop E b2 s2 = Some (r, b', s')"
    using p(2) st by (auto split: if_splits)
  then show ?thesis
    using response_loop_ok [OF _ be_step_ok [OF st] assms(3)] be_step_trans [OF st] by cases auto
qed

section \<open>Waking the application up\<close>

text \<open>
  Events that were read while a response was awaited wait for the next \<open>dispatch\<close>. The
  application learns of them when the connection becomes readable, so a pong must be under way.
\<close>

definition wakes :: "backend_seatd \<Rightarrow> bool" where
  "wakes b \<longleftrightarrow> pending_events b = [] \<or> awaiting_pong b \<or> b_error b"

text \<open>From one point of a history to a later one a ping has gone out, as the last thing on the wire.\<close>

definition ping_sent :: "int \<Rightarrow> trace \<Rightarrow> trace \<Rightarrow> bool" where
  "ping_sent fd tr tr' \<longleftrightarrow> (\<exists>req. sent_on fd tr' = sent_on fd tr @ req @ header_bytes CLIENT_PING 0)"

text \<open>The flag of the backend is not a lie: there is a ping among what was sent.\<close>

definition pinged :: "backend_seatd \<Rightarrow> 'a os_scheme \<Rightarrow> bool" where
  "pinged b s \<longleftrightarrow> (awaiting_pong b \<longrightarrow>
     (\<exists>pre post. sent_on (conn_fd (b_connection b)) (trace s) = pre @ header_bytes CLIENT_PING 0 @ post))"

lemma sent_on_append: "sent_on fd (tr' @ tr) = sent_on fd tr @ sent_on fd tr'"
  by (induction fd tr' rule: sent_on.induct) auto

lemma sent_on_grows: "os_frame s s' \<Longrightarrow> \<exists>bs. sent_on fd (trace s') = sent_on fd (trace s) @ bs"
  by (auto simp: os_frame_def sent_on_append)

lemma pinged_step:
  assumes "pinged b s" and "os_frame s s'" and "conn_fd (b_connection b') = conn_fd (b_connection b)"
    and "awaiting_pong b' \<Longrightarrow> awaiting_pong b \<or> ping_sent (conn_fd (b_connection b)) (trace s) (trace s')"
  shows "pinged b' s'"
proof -
  obtain bs where "sent_on (conn_fd (b_connection b)) (trace s') = sent_on (conn_fd (b_connection b)) (trace s) @ bs"
    using sent_on_grows [OF assms(2)] by blast
  with assms(1,3,4) show ?thesis unfolding pinged_def ping_sent_def by (metis append.assoc append_Nil2)
qed

lemma ping_flushed:
  assumes b: "be_ok b" and E: "kernel_ok E" and put: "conn_put E b (header_bytes CLIENT_PING 0) s = Some (0, b1, s1)"
    and fl: "conn_flush E b1 s1 = Some (0, b2, s2)"
  shows "ping_sent (conn_fd (b_connection b)) (trace s) (trace s2)"
proof -
  have c: "conn_ok (b_connection b)" using b by (simp add: be_ok_def)
  from put obtain cn where p: "connection_put E (b_connection b) (header_bytes CLIENT_PING 0) s = Some (0, cn, s1)" "b1 = b\<lparr>b_connection := cn\<rparr>"
    using connection_put_ok [OF c kernel_okD(1) [OF E]] by (fastforce simp: conn_put_def bind_eq_Some_conv Let_def split: if_splits)
  note ok = connection_put_ok [OF c kernel_okD(1) [OF E] p(1)]
  from fl obtain r cn2 where q: "connection_flush E cn s1 = Some (r, cn2, s2)" "r \<noteq> - 1"
    by (auto simp: conn_flush_def p(2) bind_eq_Some_conv Let_def split: if_splits)
  have "conn_ok cn" "want_flush cn" using ok by auto
  with connection_flush_ok [OF _ kernel_okD(1) [OF E] q(1)] q(2) ok show ?thesis
    by (auto simp: ping_sent_def flushed_def)
qed

lemma check_pending_events_ok:
  assumes b: "be_ok b" and E: "kernel_ok E"
  shows "\<exists>b' s'. check_pending_events E b s = Some (b', s') \<and> be_ok b' \<and> os_frame s s'
    \<and> conn_fd (b_connection b') = conn_fd (b_connection b) \<and> wakes b'
    \<and> (awaiting_pong b' \<longrightarrow> awaiting_pong b \<or> ping_sent (conn_fd (b_connection b)) (trace s) (trace s'))"
proof -
  from read_and_queue_ok [OF b, of E False s] obtain p op b1 s1 where
      q: "read_and_queue E False b s = Some (p, op, b1, s1)" "be_step b s b1 s1" "p = - 1 \<longrightarrow> b_error b1" by fastforce
  from conn_put_ok [OF be_step_ok [OF q(2)] E, of "header_bytes CLIENT_PING 0" s1] obtain r2 b2 s2 where
      p: "conn_put E b1 (header_bytes CLIENT_PING 0) s1 = Some (r2, b2, s2)" "be_step b1 s1 b2 s2" "r2 = - 1 \<and> b_error b2 \<or> r2 = 0" by fastforce
  from conn_flush_ok [OF be_step_ok [OF p(2)] E, of s2] obtain r3 b3 s3 where
      fl: "conn_flush E b2 s2 = Some (r3, b3, s3)" "be_step b2 s2 b3 s3" "r3 = - 1 \<and> b_error b3 \<or> r3 = 0" by fastforce
  note st = be_step_trans [OF q(2) p(2)]
  note st3 = be_step_trans [OF st fl(2)]
  have run: "check_pending_events E b s = (if p = - 1 \<or> pending_events b1 = [] \<or> awaiting_pong b1 then Some (b1, s1)
      else if r2 = - 1 then Some (b2, s2) else if r3 = - 1 then Some (b3, s3) else Some (b3\<lparr>awaiting_pong := True\<rparr>, s3))"
    by (simp add: check_pending_events_def send_ping_def q(1) p(1) fl(1))
  have "ping_sent (conn_fd (b_connection b)) (trace s) (trace s3)" if "r2 = 0" "r3 = 0"
  proof -
    have "conn_fd (b_connection b1) = conn_fd (b_connection b)" "os_frame s s1" using q(2) by (simp_all add: be_step_def)
    moreover have "ping_sent (conn_fd (b_connection b1)) (trace s1) (trace s3)" using ping_flushed [OF be_step_ok [OF q(2)] E] p(1) fl(1) that by simp
    ultimately show ?thesis using sent_on_grows [of s s1 "conn_fd (b_connection b)"] by (auto simp: ping_sent_def)
  qed
  moreover have "be_ok (b3\<lparr>awaiting_pong := True\<rparr>)" using st3 by (auto simp: be_step_def be_ok_def)
  ultimately show ?thesis using q p fl st st3 unfolding run by (auto simp: wakes_def be_step_def)
qed

section \<open>Events reach the application\<close>

definition lib_ok :: "'z lib_scheme \<Rightarrow> bool" where
  "lib_ok s \<longleftrightarrow> (\<exists>b. backend s = Some b \<and> be_ok b)"

text \<open>
  A listener that returns and leaves the library in order; it may have called the library.
\<close>

definition listener_ok :: "'z listener \<Rightarrow> bool" where
  "listener_ok L \<longleftrightarrow> (\<forall>on s. lib_ok s \<longrightarrow> (\<exists>s'. L on s = Some s' \<and> lib_ok s'))"

lemma listener_okD: "listener_ok L \<Longrightarrow> lib_ok s \<Longrightarrow> \<exists>s'. L on s = Some s' \<and> lib_ok s'"
  by (simp add: listener_ok_def)

lemma run_events_ok:
  assumes "listener_ok L" and "lib_ok s" and "set ops \<subseteq> {SERVER_DISABLE_SEAT, SERVER_ENABLE_SEAT}"
  shows "\<exists>s'. run_events L ops n s = Some (n + int (length ops), s') \<and> lib_ok s'"
  using assms(2,3)
proof (induction ops arbitrary: n s)
  case (Cons op ops)
  obtain on where on: "run_events L (op # ops) n s = do { b \<leftarrow> backend s; s \<leftarrow> L on s; run_events L ops (n + 1) s }"
    using Cons.prems(2) by (cases "op = SERVER_DISABLE_SEAT") (auto simp: server_opcode_defs SERVER_EVENT_def)
  obtain s1 where s1: "L on s = Some s1" "lib_ok s1" using listener_okD [OF assms(1) Cons.prems(1)] by blast
  with on Cons.IH [OF s1(2), of "n + 1"] Cons.prems show ?case by (auto simp: lib_ok_def algebra_simps)
qed simp

lemma be_step_backend: "be_step b s b' s' \<Longrightarrow> backend s' = backend s"
  by (cases s; cases s') (auto simp: be_step_def os_frame_def)

lemma execute_events_ok:
  assumes "listener_ok L" and "backend s = Some b" and "be_ok b"
  shows "\<exists>s'. execute_events L s = Some (int (length (pending_events b)), s') \<and> lib_ok s'"
proof -
  have "lib_ok (s\<lparr>backend := Some (b\<lparr>pending_events := []\<rparr>)\<rparr>)" using assms(3) by (simp add: lib_ok_def be_ok_def)
  from run_events_ok [OF assms(1) this, of "pending_events b" 0] assms(2,3) show ?thesis
    by (auto simp: execute_events_def be_ok_def)
qed

lemma dispatch_pending_ok:
  assumes L: "listener_ok L" and s: "lib_ok s"
  shows "\<exists>r s'. dispatch_pending E L s = Some (r, s') \<and> lib_ok s' \<and> - 1 \<le> r"
proof -
  from s obtain b where b: "backend s = Some b" "be_ok b" by (auto simp: lib_ok_def)
  from read_and_queue_ok [OF b(2), of E False s] obtain p op b1 s1 where
      q: "read_and_queue E False b s = Some (p, op, b1, s1)" "be_step b s b1 s1" "- 1 \<le> p" by fastforce
  have b1: "be_ok b1" by (rule be_step_ok [OF q(2)])
  from execute_events_ok [OF L, of "s1\<lparr>backend := Some b1\<rparr>" b1] b1 obtain s2 where
      x: "execute_events L (s1\<lparr>backend := Some b1\<rparr>) = Some (int (length (pending_events b1)), s2)" "lib_ok s2" by auto
  have "dispatch_pending E L s = (if p = - 1 then Some (- 1, s1\<lparr>backend := Some b1\<rparr>) else Some (p + int (length (pending_events b1)), s2))"
    by (simp add: dispatch_pending_def b(1) q(1) x(1))
  then show ?thesis using q(3) x(2) b1 by (auto simp: lib_ok_def)
qed

lemma dispatch_seat_ok:
  assumes L: "listener_ok L" and E: "kernel_ok E" and s: "lib_ok s"
  shows "\<exists>r s'. dispatch_seat E L t s = Some (r, s') \<and> lib_ok s' \<and> - 1 \<le> r"
proof -
  from s obtain b where b: "backend s = Some b" "be_ok b" by (auto simp: lib_ok_def)
  show ?thesis
  proof (cases "b_error b")
    case True
    with b show ?thesis by (auto simp: dispatch_seat_def lib_ok_def)
  next
    case False
    obtain p s1 where d: "dispatch_pending E L s = Some (p, s1)" "lib_ok s1" "- 1 \<le> p" using dispatch_pending_ok [OF L s] by blast
    from d(2) obtain b1 where b1: "backend s1 = Some b1" "be_ok b1" by (auto simp: lib_ok_def)
    then have c: "conn_ok (b_connection b1)" by (simp add: be_ok_def)
    let ?rd = "if p > 0 \<or> t = 0 then do {
        (r, cn, s) \<leftarrow> connection_read E (b_connection b1) s1;
        Some (r, b1\<lparr>b_connection := cn\<rparr>, s) } else poll_connection E b1 t s1"
    have "\<exists>rd b2 s2. ?rd = Some (rd, b2, s2) \<and> be_ok b2"
    proof (cases "p > 0 \<or> t = 0")
      case True
      from connection_read_returns [OF c kernel_okD(3,4) [OF E], of s1] obtain r cn s2 where
          "connection_read E (b_connection b1) s1 = Some (r, cn, s2)" by blast
      with True connection_read_ok [OF c kernel_okD(3) [OF E] this] be_ok_connection [OF b1(2), of cn] show ?thesis by simp
    next
      case False
      with poll_connection_ok [OF b1(2) E, of t s1] show ?thesis by (auto dest: be_step_ok)
    qed
    then obtain rd b2 s2 where rd: "?rd = Some (rd, b2, s2)" "be_ok b2" by blast
    let ?s = "s2\<lparr>backend := Some b2\<rparr>"
    have s2: "lib_ok ?s" using rd(2) by (simp add: lib_ok_def)
    obtain q s3 where d2: "dispatch_pending E L ?s = Some (q, s3)" "lib_ok s3" "- 1 \<le> q" using dispatch_pending_ok [OF L s2] by blast
    have "dispatch_seat E L t s = (if p = - 1 then Some (- 1, s1) else if rd = 0 then Some (p, ?s)
        else if rd = - 1 \<and> errno ?s \<noteq> EAGAIN then Some (- 1, ?s) else if q = - 1 then Some (- 1, s3) else Some (p + q, s3))"
      using rd(1) by (auto simp: dispatch_seat_def Let_def b(1) False d(1) b1(1) d2(1))
    then show ?thesis using d(2,3) d2(2,3) s2 by auto
  qed
qed

end
