(* ===== verification/Libseat_Run.thy ===== *)
theory Libseat_Run
  imports Libseat_Inv
begin

unbundle bit_operations_syntax

text \<open>
  Whole calls of the client library: what they do when the server answers, when it refuses and
  when it hangs up, and in which order events reach the application.
\<close>

section \<open>A server that answers\<close>

text \<open>
  The connection when the server answers a request: the socket takes what is sent, \<open>poll\<close>
  reports input and \<open>recvmsg\<close> delivers the answer; and there is memory.
\<close>

definition answers :: "env \<Rightarrow> bytes \<Rightarrow> bool" where
  "answers E reply \<longleftrightarrow> kernel_ok E \<and> (\<forall>tr. k_alloc E tr) \<and> (\<forall>tr fd bs fds. \<exists>n. k_sendmsg E tr fd bs fds = Inr n)
     \<and> (\<forall>tr fd t. k_call E tr (C_poll fd t) = Inr POLLIN) \<and> (\<forall>tr fd n. k_recvmsg E tr fd n = Inr (take n reply, []))"

lemma answersD:
  assumes "answers E reply"
  shows "kernel_ok E" and "k_alloc E tr" and "\<exists>n. k_sendmsg E tr fd bs fds = Inr n" and "k_call E tr (C_poll fd t) = Inr POLLIN"
    and "k_recvmsg E tr fd n = Inr (take n reply, [])"
  using assms by (simp_all add: answers_def)

text \<open>A backend between two calls.\<close>

definition idle :: "backend_seatd \<Rightarrow> bool" where
  "idle b \<longleftrightarrow> be_ok b \<and> \<not> b_error b \<and> be_in b = [] \<and> contents (conn_out (b_connection b)) = []"

lemma flush_loop_sends:
  assumes "flush_loop E c s = Some (r, c', s')" and "\<And>tr fd bs fds. \<exists>n. k_sendmsg E tr fd bs fds = Inr n"
  shows "r = 0"
proof -
  let ?P = "\<lambda>E c s (r, c', s'). (\<forall>tr fd bs fds. \<exists>n. k_sendmsg E tr fd bs fds = Inr n) \<longrightarrow> r = 0"
  have "?P E c s (r, c', s')"
  proof (rule flush_loop.raw_induct [where P = ?P, OF _ assms(1)])
    fix f E c and s :: "'a os_scheme" and y
    assume IH: "\<And>E c s y. f E c s = Some y \<Longrightarrow> ?P E c s y"
      and eq: "(if head (conn_out c) - tail (conn_out c) \<noteq> 0 then do {
        bs \<leftarrow> gather (connection_buffer_get_iov (conn_out c)) (data (conn_out c));
        fds \<leftarrow> build_cmsg (fds_out c);
        (r, s) \<leftarrow> sendmsg_retry E (conn_fd c) bs fds s;
        (case r of Inl _ \<Rightarrow> Some (- 1, c, s)
         | Inr len \<Rightarrow> do {
             (b, s) \<leftarrow> connection_buffer_close_fds E (fds_out c) s;
             f E (c\<lparr>fds_out := b, conn_out := (conn_out c)\<lparr>tail := tail (conn_out c) + of_nat len\<rparr>\<rparr>) s }) }
      else Some (0, c, s)) = Some y"
    have *: "\<exists>n. r = Inr n" if "sendmsg_retry E fd bs fds s = Some (r, s1)" "\<forall>tr fd bs fds. \<exists>n. k_sendmsg E tr fd bs fds = Inr n"
      for fd bs fds r s1 using sendmsg_retry_result [OF that(1)] that(2) by auto
    show "?P E c s y"
    proof (cases "head (conn_out c) - tail (conn_out c) = 0")
      case False
      with eq obtain bs fds r1 s1 where r1: "sendmsg_retry E (conn_fd c) bs fds s = Some (r1, s1)"
        and rest: "(case r1 of Inl _ \<Rightarrow> Some (- 1, c, s1)
         | Inr len \<Rightarrow> do {
             (b, s) \<leftarrow> connection_buffer_close_fds E (fds_out c) s1;
             f E (c\<lparr>fds_out := b, conn_out := (conn_out c)\<lparr>tail := tail (conn_out c) + of_nat len\<rparr>\<rparr>) s }) = Some y"
        by (auto simp: bind_eq_Some_conv)
      have f: "\<exists>c s. f E c s = Some y" if "r1 = Inr n" for n using rest that by (auto simp: bind_eq_Some_conv)
      show ?thesis
      proof (cases y)
        case (fields ry cy sy)
        with f * [OF r1] IH show ?thesis by blast
      qed
    qed (use eq in auto)
  qed
  with assms(2) show ?thesis by simp
qed

lemma conn_put_fits:
  assumes "be_ok b" and "length (contents (conn_out (b_connection b))) + length bs \<le> 256"
  shows "\<exists>b'. conn_put E b bs s = Some (0, b', s) \<and> be_step b s b' s \<and> be_in b' = be_in b \<and> b_error b' = b_error b
    \<and> pending_events b' = pending_events b \<and> awaiting_pong b' = awaiting_pong b
    \<and> fds_in (b_connection b') = fds_in (b_connection b)
    \<and> contents (conn_out (b_connection b')) = contents (conn_out (b_connection b)) @ bs \<and> want_flush (b_connection b')"
proof -
  let ?c = "b_connection b"
  have c: "conn_ok ?c" using assms(1) by (simp add: be_ok_def)
  then have cb: "cb_ok (conn_out ?c)" by (simp add: conn_ok_def)
  have fits: "unat (connection_buffer_size (conn_out ?c)) + length bs \<le> 256" using assms(2) by simp
  from connection_buffer_put_ok [OF cb fits, of s] obtain o1 where
      o: "connection_buffer_put (conn_out ?c) bs s = Some (0, o1, s)" "cb_ok o1" "contents o1 = contents (conn_out ?c) @ bs" by blast
  have "conn_put E b bs s = Some (0, b\<lparr>b_connection := ?c\<lparr>conn_out := o1, want_flush := True\<rparr>\<rparr>, s)"
    using fits o(1) by (simp add: conn_put_def connection_put_def)
  then show ?thesis using assms(1) o(2,3) by (simp add: be_step_def be_ok_def conn_ok_def be_in_def)
qed

lemma conn_put_all_fits:
  assumes "be_ok b" and "length (contents (conn_out (b_connection b))) + length (concat bss) \<le> 256"
  shows "\<exists>b'. conn_put_all E b bss s = Some (0, b', s) \<and> be_step b s b' s \<and> be_in b' = be_in b \<and> b_error b' = b_error b
    \<and> pending_events b' = pending_events b \<and> awaiting_pong b' = awaiting_pong b
    \<and> fds_in (b_connection b') = fds_in (b_connection b)
    \<and> contents (conn_out (b_connection b')) = contents (conn_out (b_connection b)) @ concat bss
    \<and> (bss \<noteq> [] \<longrightarrow> want_flush (b_connection b'))"
  using assms
proof (induction bss arbitrary: b)
  case (Cons bs bss)
  have "length (contents (conn_out (b_connection b))) + length bs \<le> 256" using Cons.prems(2) by simp
  from conn_put_fits [OF Cons.prems(1) this, of E s] obtain b1 where
      b1: "conn_put E b bs s = Some (0, b1, s)" "be_step b s b1 s" "be_in b1 = be_in b" "b_error b1 = b_error b"
        "pending_events b1 = pending_events b" "awaiting_pong b1 = awaiting_pong b" "fds_in (b_connection b1) = fds_in (b_connection b)"
        "contents (conn_out (b_connection b1)) = contents (conn_out (b_connection b)) @ bs" "want_flush (b_connection b1)" by blast
  have "length (contents (conn_out (b_connection b1))) + length (concat bss) \<le> 256" using Cons.prems(2) b1(8) by simp
  from Cons.IH [OF be_step_ok [OF b1(2)] this] obtain b' where
      b': "conn_put_all E b1 bss s = Some (0, b', s)" "be_step b1 s b' s" "be_in b' = be_in b1" "b_error b' = b_error b1"
        "pending_events b' = pending_events b1" "awaiting_pong b' = awaiting_pong b1"
        "fds_in (b_connection b') = fds_in (b_connection b1)"
        "contents (conn_out (b_connection b')) = contents (conn_out (b_connection b1)) @ concat bss"
        "bss \<noteq> [] \<longrightarrow> want_flush (b_connection b')" by auto
  have "want_flush (b_connection b')" using b'(1,9) b1(9) by (cases bss) auto
  with b' b1 be_step_trans [OF b1(2) b'(2)] show ?case by simp
qed (simp add: be_step_refl)

lemma conn_flush_sends:
  assumes b: "be_ok b" and E: "answers E reply" and w: "want_flush (b_connection b)"
  shows "\<exists>b' s'. conn_flush E b s = Some (0, b', s') \<and> be_step b s b' s' \<and> be_in b' = be_in b \<and> b_error b' = b_error b
    \<and> pending_events b' = pending_events b \<and> awaiting_pong b' = awaiting_pong b
    \<and> fds_in (b_connection b') = fds_in (b_connection b) \<and> be_sent b' s' = be_sent b s \<and> contents (conn_out (b_connection b')) = []"
proof -
  have c: "conn_ok (b_connection b)" using b by (simp add: be_ok_def)
  note k = kernel_okD [OF answersD(1) [OF E]]
  obtain r cn t where fl: "connection_flush E (b_connection b) s = Some (r, cn, t)"
    using connection_flush_returns [OF c k(1,2)] by blast
  note ok = connection_flush_ok [OF c k(1) fl, unfolded flushed_def]
  have "r \<noteq> - 1"
  proof
    assume "r = - 1"
    from fl w obtain r1 c1 s1 where q: "flush_loop E (b_connection b) s = Some (r1, c1, s1)"
        "(if r1 = - 1 then Some (- 1, c1, s1) else Some (sint (head (conn_out c1) - tail (conn_out (b_connection b))), c1\<lparr>want_flush := False\<rparr>, s1))
          = Some (r, cn, t)"
      by (auto simp: connection_flush_def Let_def bind_eq_Some_conv)
    have "r1 = 0" by (rule flush_loop_sends [OF q(1) answersD(3) [OF E]])
    with q(2) have "\<not> want_flush cn" by auto
    with ok have "r = (if want_flush (b_connection b) then int (length (contents (conn_out (b_connection b)))) else 0)" by blast
    moreover have "int (length (contents (conn_out (b_connection b)))) \<noteq> - 1" by linarith
    ultimately show False using \<open>r = - 1\<close> w by metis
  qed
  with ok fl b w show ?thesis by (auto simp: conn_flush_def be_sent_def be_step_def be_ok_def be_in_def)
qed

lemma connection_read_reply:
  assumes c: "conn_ok c" and E: "answers E reply" and reply: "length reply \<le> 256" and e: "contents (conn_in c) = []"
  shows "\<exists>c' s'. connection_read E c s = Some (int (length reply), c', s') \<and> conn_ok c' \<and> os_frame s s' \<and> conn_fd c' = conn_fd c
    \<and> conn_out c' = conn_out c \<and> fds_in c' = fds_in c \<and> contents (conn_in c') = reply
    \<and> (\<forall>fd. sent_on fd (trace s') = sent_on fd (trace s))"
proof -
  note k = kernel_okD [OF answersD(1) [OF E]]
  obtain r c' s' where rd: "connection_read E c s = Some (r, c', s')" using connection_read_returns [OF c k(3,4)] by blast
  note ok = connection_read_ok [OF c k(3) rd]
  have len: "iov_len (connection_buffer_put_iov (conn_in c)) = 256"
    using scatter_put_iov [of "conn_in c"] c e by (simp add: conn_ok_def contents_Nil_iff)
  have recv: "recvmsg_retry E fd n s = Some (Inr (take n reply, []), s\<lparr>trace := E_recvmsg fd n (Inr (take n reply, [])) # trace s\<rparr>)" for fd n
    by (simp add: recvmsg_retry.simps [of E fd n s] sys_recvmsg_def Let_def answersD(5) [OF E] note_result_def)
  have "unat (connection_buffer_size (conn_in c)) < 256" using e by (simp add: contents_Nil_iff)
  with rd reply have "trace s' = E_recvmsg (conn_fd c) 256 (Inr (reply, [])) # trace s \<and> fds_in c' = fds_in c \<and> r = sint (connection_buffer_size (conn_in c'))"
    by (auto simp: connection_read_def Let_def recv len decode_cmsg_def bind_eq_Some_conv)
  moreover have "unat (connection_buffer_size (conn_in c')) \<le> 256" using ok by (simp add: conn_ok_def cb_ok_def)
  then have "sint (connection_buffer_size (conn_in c')) \<noteq> - 1" using sint_small by (metis of_nat_0_le_iff neg_0_le_iff_le not_one_le_zero)
  ultimately show ?thesis using ok rd e by (simp add: sent_on.simps)
qed


lemma poll_connection_reply:
  assumes b: "be_ok b" and E: "answers E reply" and reply: "reply \<noteq> []" "length reply \<le> 256" and e: "be_in b = []"
  shows "\<exists>n b' s'. poll_connection E b t s = Some (n, b', s') \<and> n \<noteq> - 1 \<and> be_step b s b' s' \<and> be_in b' = reply \<and> b_error b' = b_error b
    \<and> pending_events b' = pending_events b \<and> awaiting_pong b' = awaiting_pong b
    \<and> fds_in (b_connection b') = fds_in (b_connection b) \<and> be_sent b' s' = be_sent b s
    \<and> conn_out (b_connection b') = conn_out (b_connection b)"
proof -
  let ?s = "note_result (Inr POLLIN) (E_call (C_poll (conn_fd (b_connection b)) t) (Inr POLLIN)) s"
  have call: "sys_call E (C_poll (conn_fd (b_connection b)) t) s = (Inr POLLIN, ?s)" by (simp add: sys_call_def Let_def answersD(4) [OF E])
  have c: "conn_ok (b_connection b)" "contents (conn_in (b_connection b)) = []" using b e by (simp_all add: be_ok_def be_in_def)
  from connection_read_reply [OF c(1) E reply(2) c(2), of ?s] obtain cn s' where
      rd: "connection_read E (b_connection b) ?s = Some (int (length reply), cn, s')" "conn_ok cn" "os_frame ?s s'"
        "conn_fd cn = conn_fd (b_connection b)" "conn_out cn = conn_out (b_connection b)" "fds_in cn = fds_in (b_connection b)"
        "contents (conn_in cn) = reply" "\<forall>fd. sent_on fd (trace s') = sent_on fd (trace ?s)" by blast
  have "os_frame s s'" using os_frame_trans [OF os_frame_note_result rd(3)] .
  moreover have "int (length reply) \<noteq> - 1" by linarith
  moreover have "poll_connection E b t s = Some (int (length reply), b\<lparr>b_connection := cn\<rparr>, s')"
  proof -
    have "POLLIN AND (POLLERR OR POLLHUP) = 0" "POLLIN AND POLLIN \<noteq> 0" by (simp_all add: POLLIN_def POLLERR_def POLLHUP_def)
    with reply(1) calculation(2) show ?thesis by (simp add: poll_connection_def Let_def call rd(1))
  qed
  ultimately show ?thesis using rd b by (simp add: be_step_def be_ok_def be_in_def be_sent_def)
qed

text \<open>What is read is not sent.\<close>

lemma read_and_queue_quiet:
  assumes "read_and_queue E want b s = Some (p, op, b', s')" and "p \<noteq> - 1" and "be_ok b"
  shows "be_sent b' s' = be_sent b s \<and> conn_out (b_connection b') = conn_out (b_connection b)"
proof -
  let ?P = "\<lambda>E want n b s (p, op, b', s'). p \<noteq> - 1 \<longrightarrow>
    conn_fd (b_connection b') = conn_fd (b_connection b) \<and> conn_out (b_connection b') = conn_out (b_connection b) \<and> sent_on (conn_fd (b_connection b)) (trace s') = sent_on (conn_fd (b_connection b)) (trace s)"
  have "?P E want 0 b s (p, op, b', s')"
  proof (rule read_and_queue_loop.raw_induct [where P = ?P])
    show "read_and_queue_loop E want 0 b s = Some (p, op, b', s')" using assms(1) by (simp add: read_and_queue_def)
  next
    fix f E want n b and s :: "'a os_scheme" and y
    assume IH: "\<And>E want n b s y. f E want n b s = Some y \<Longrightarrow> ?P E want n b s y"
      and eq: "(do {
     (hdr, cn, s) \<leftarrow> connection_get (b_connection b) 4 s;
     let b = b\<lparr>b_connection := cn\<rparr>;
     (case hdr of None \<Rightarrow> Some (n, 0, b, s)
      | Some bs \<Rightarrow>
          let h = decode_header bs; packets = n + 1 in
          if opcode h = SERVER_PONG then f E want packets (b\<lparr>awaiting_pong := False\<rparr>) s
          else if opcode h = SERVER_DISABLE_SEAT \<or> opcode h = SERVER_ENABLE_SEAT then
            (let (r, b, s) = queue_event E b (opcode h) s in
             if r = - 1 then do { (b, s) \<leftarrow> set_error E b s; Some (- 1, 0, b, s) }
             else f E want packets b s)
          else if \<not> want then do {
            (b, s) \<leftarrow> set_error E b s;
            Some (- 1, 0, b\<lparr>b_connection := connection_restore (b_connection b) 4\<rparr>, s\<lparr>errno := EBADMSG\<rparr>) }
          else
            Some (packets, if connection_pending (b_connection b) \<ge> unat (msg_size h) then opcode h else 0,
                  b\<lparr>b_connection := connection_restore (b_connection b) 4\<rparr>, s)) }) = Some y"
    obtain hdr cn s1 where g: "connection_get (b_connection b) 4 s = Some (hdr, cn, s1)" using eq by (auto simp: bind_eq_Some_conv)
    then have cn: "conn_fd cn = conn_fd (b_connection b)" "conn_out cn = conn_out (b_connection b)" "trace s1 = trace s"
      by (auto simp: connection_get_def bind_eq_Some_conv split: if_splits)
    obtain ok s2 where al: "sys_alloc E s1 = (ok, s2)" by force
    then have s2: "sent_on fd (trace s2) = sent_on fd (trace s1)" for fd by (auto simp: sys_alloc_def split: if_splits)
    obtain p op b' s' where y: "y = (p, op, b', s')" by (cases y)
    have "conn_fd (b_connection b') = conn_fd (b_connection b) \<and> conn_out (b_connection b') = conn_out (b_connection b)
          \<and> sent_on (conn_fd (b_connection b)) (trace s') = sent_on (conn_fd (b_connection b)) (trace s)" if p: "p \<noteq> - 1"
    proof -
      let ?b = "b\<lparr>b_connection := cn\<rparr>"
      consider "b' = ?b" "s' = s1" | "b' = ?b\<lparr>b_connection := connection_restore cn 4\<rparr>" "s' = s1"
        | "f E want (n + 1) (?b\<lparr>awaiting_pong := False\<rparr>) s1 = Some y" | op where "f E want (n + 1) (?b\<lparr>pending_events := op # pending_events b\<rparr>) s2 = Some y"
        using eq p y al unfolding g
        by (cases hdr) (auto simp: Let_def queue_event_def bind_eq_Some_conv split: if_splits)
      then show ?thesis
        by cases (use cn s2 p y IH in \<open>fastforce simp: connection_restore_def\<close>)+
    qed
    then show "?P E want n b s y" by (simp add: y)
  qed
  with assms show ?thesis by (simp add: be_sent_def)
qed


lemma scan_events_headers:
  assumes "\<forall>op\<in>set ops. background op" and "length rest < 4 \<or> \<not> background (opcode (decode_header (take 4 rest)))"
  shows "scan_events (concat (map (\<lambda>op. header_bytes op 0) ops) @ rest) = (ops, rest)"
  using assms(1)
proof (induction ops)
  case Nil
  show ?case using assms(2) by (auto simp: scan_events.simps [of rest])
next
  case (Cons op ops)
  have "decode_header (header_bytes op 0) = \<lparr>opcode = op, msg_size = 0\<rparr>" by (simp add: header_bytes_def header.dec_enc)
  with Cons show ?case by (subst scan_events.simps) simp
qed

lemma read_and_queue_answered:
  assumes "be_ok b" and "answers E reply"
  shows "\<exists>p op b' s'. read_and_queue E True b s = Some (p, op, b', s') \<and> p \<noteq> - 1 \<and> be_step b s b' s' \<and> queued True b 0 p op b'
    \<and> be_sent b' s' = be_sent b s \<and> conn_out (b_connection b') = conn_out (b_connection b)"
  using read_and_queue_ok [OF assms(1), of E True s] read_and_queue_quiet [of E True b s] assms answersD(2) [OF assms(2)] by fastforce

lemma request_answered:
  assumes b: "idle b" and E: "answers E reply" and bss: "bss \<noteq> []" "length (concat bss) \<le> 256" and reply: "length reply \<le> 256"
    and scan: "scan_events reply = (evs, rest)"
    and rest: "4 \<le> length rest" "opcode (decode_header (take 4 rest)) \<noteq> 0" "unat (msg_size (decode_header (take 4 rest))) \<le> length rest - 4"
  shows "\<exists>b' s'. request_response E b bss s = Some (0, b', s') \<and> be_step b s b' s' \<and> be_in b' = rest \<and> \<not> b_error b'
    \<and> pending_events b' = rev (filter (\<lambda>x. x \<noteq> SERVER_PONG) evs) @ pending_events b
    \<and> awaiting_pong b' = (awaiting_pong b \<and> SERVER_PONG \<notin> set evs)
    \<and> be_sent b' s' = be_sent b s @ concat bss \<and> contents (conn_out (b_connection b')) = []"
proof -
  have ok: "be_ok b" and out: "contents (conn_out (b_connection b)) = []" using b by (simp_all add: idle_def)
  from conn_put_all_fits [OF ok, of bss E s] out bss obtain b1 where
      p: "conn_put_all E b bss s = Some (0, b1, s)" "be_step b s b1 s" "be_in b1 = be_in b" "b_error b1 = b_error b"
        "pending_events b1 = pending_events b" "awaiting_pong b1 = awaiting_pong b"
        "contents (conn_out (b_connection b1)) = concat bss" "want_flush (b_connection b1)" by auto
  from conn_flush_sends [OF be_step_ok [OF p(2)] E p(8), of s] obtain b2 s2 where
      fl: "conn_flush E b1 s = Some (0, b2, s2)" "be_step b1 s b2 s2" "be_in b2 = be_in b1" "b_error b2 = b_error b1"
        "pending_events b2 = pending_events b1" "awaiting_pong b2 = awaiting_pong b1" "be_sent b2 s2 = be_sent b1 s"
        "contents (conn_out (b_connection b2)) = []" by blast
  from read_and_queue_answered [OF be_step_ok [OF fl(2)] E, of s2] obtain p3 op3 b3 s3 where
      q: "read_and_queue E True b2 s2 = Some (p3, op3, b3, s3)" "p3 \<noteq> - 1" "be_step b2 s2 b3 s3" "queued True b2 0 p3 op3 b3"
        "be_sent b3 s3 = be_sent b2 s2" "conn_out (b_connection b3) = conn_out (b_connection b2)" by blast
  have e: "be_in b2 = []" using b p(3) fl(3) by (simp add: idle_def)
  then have q': "op3 = 0" "be_in b3 = []" "pending_events b3 = pending_events b2" "awaiting_pong b3 = awaiting_pong b2" "b_error b3 = b_error b2"
    using q(4) by (simp_all add: queued_def scan_events.simps [of "[]"])
  have "reply \<noteq> []" using scan rest(1) by (auto simp: scan_events.simps [of "[]"])
  from poll_connection_reply [OF be_step_ok [OF q(3)] E this reply q'(2), of "- 1" s3] obtain n b4 s4 where
      pl: "poll_connection E b3 (- 1) s3 = Some (n, b4, s4)" "n \<noteq> - 1" "be_step b3 s3 b4 s4" "be_in b4 = reply" "b_error b4 = b_error b3"
        "pending_events b4 = pending_events b3" "awaiting_pong b4 = awaiting_pong b3" "be_sent b4 s4 = be_sent b3 s3"
        "conn_out (b_connection b4) = conn_out (b_connection b3)" by blast
  from read_and_queue_answered [OF be_step_ok [OF pl(3)] E, of s4] obtain p5 op5 b5 s5 where
      r: "read_and_queue E True b4 s4 = Some (p5, op5, b5, s5)" "p5 \<noteq> - 1" "be_step b4 s4 b5 s5" "queued True b4 0 p5 op5 b5"
        "be_sent b5 s5 = be_sent b4 s4" "conn_out (b_connection b5) = conn_out (b_connection b4)" by blast
  have r': "op5 \<noteq> 0" "be_in b5 = rest" "b_error b5 = b_error b4"
      "pending_events b5 = rev (filter (\<lambda>x. x \<noteq> SERVER_PONG) evs) @ pending_events b4"
      "awaiting_pong b5 = (awaiting_pong b4 \<and> SERVER_PONG \<notin> set evs)"
    using r(4) rest by (simp_all add: queued_def pl(4) scan)
  have "response_loop E b2 s2 = Some (0, b5, s5)"
    using q(2) q'(1) pl(2) r(2) r'(1) by (simp add: response_loop.simps [of E b2 s2] response_loop.simps [of E b4 s4] q(1) pl(1) r(1))
  then have "request_response E b bss s = Some (0, b5, s5)" by (simp add: request_response_def read_until_response_def p(1) fl(1))
  moreover have "be_step b s b5 s5"
    using be_step_trans [OF p(2) be_step_trans [OF fl(2) be_step_trans [OF q(3) be_step_trans [OF pl(3) r(3)]]]] .
  moreover have "be_sent b1 s = be_sent b s @ concat bss" using p(2,7) out by (simp add: be_sent_def be_step_def)
  ultimately show ?thesis using b p fl q' pl r r' q by (simp add: idle_def)
qed

text \<open>After the response has been taken off, a ping goes out if events wait.\<close>

lemma check_pending_events_answered:
  assumes b: "idle b" and E: "answers E reply"
  shows "\<exists>b' s'. check_pending_events E b s = Some (b', s') \<and> idle b' \<and> wakes b' \<and> pending_events b' = pending_events b
    \<and> be_sent b' s' = be_sent b s @ (if pending_events b = [] \<or> awaiting_pong b then [] else header_bytes CLIENT_PING 0)"
proof -
  have ok: "be_ok b" "be_in b = []" "\<not> b_error b" using b by (simp_all add: idle_def)
  from read_and_queue_ok [OF ok(1), of E False s] answersD(2) [OF E] ok(2) obtain p op b1 s1 where
      q: "read_and_queue E False b s = Some (p, op, b1, s1)" "be_step b s b1 s1" "0 \<le> p" "queued False b 0 p op b1"
    by (auto simp: scan_events.simps [of "[]"])
  have p: "p \<noteq> - 1" using q(3) by simp
  note quiet = read_and_queue_quiet [OF q(1) p ok(1)]
  have q': "be_in b1 = []" "pending_events b1 = pending_events b" "awaiting_pong b1 = awaiting_pong b" "\<not> b_error b1"
    using q(4) ok(2,3) by (simp_all add: queued_def scan_events.simps [of "[]"])
  have out: "contents (conn_out (b_connection b1)) = []" using quiet b by (simp add: idle_def)
  show ?thesis
  proof (cases "pending_events b = [] \<or> awaiting_pong b")
    case True
    then have "check_pending_events E b s = Some (b1, s1)" using p q' by (auto simp: check_pending_events_def q(1))
    with True q(2) q' quiet out be_step_ok [OF q(2)] show ?thesis by (auto simp: idle_def wakes_def)
  next
    case False
    from conn_put_fits [OF be_step_ok [OF q(2)], of "header_bytes CLIENT_PING 0" E s1] out obtain b2 where
        c: "conn_put E b1 (header_bytes CLIENT_PING 0) s1 = Some (0, b2, s1)" "be_step b1 s1 b2 s1" "be_in b2 = be_in b1" "b_error b2 = b_error b1"
          "pending_events b2 = pending_events b1" "contents (conn_out (b_connection b2)) = header_bytes CLIENT_PING 0"
          "want_flush (b_connection b2)" by auto
    from conn_flush_sends [OF be_step_ok [OF c(2)] E c(7), of s1] obtain b3 s3 where
        fl: "conn_flush E b2 s1 = Some (0, b3, s3)" "be_step b2 s1 b3 s3" "be_in b3 = be_in b2" "b_error b3 = b_error b2"
          "pending_events b3 = pending_events b2" "be_sent b3 s3 = be_sent b2 s1" "contents (conn_out (b_connection b3)) = []" by blast
    have "check_pending_events E b s = Some (b3\<lparr>awaiting_pong := True\<rparr>, s3)"
      using False p q' by (simp add: check_pending_events_def q(1) send_ping_def c(1) fl(1))
    moreover have "be_sent b2 s1 = be_sent b1 s1 @ header_bytes CLIENT_PING 0" using c(2,6) out by (simp add: be_sent_def be_step_def)
    ultimately show ?thesis
      using False q' c fl quiet by (auto simp: idle_def wakes_def be_step_def be_ok_def be_in_def be_sent_def)
  qed
qed


lemma read_and_queue_nothing:
  assumes "be_ok b" and "be_in b = []"
  shows "read_and_queue E want b s = Some (0, 0, b, s\<lparr>errno := EAGAIN\<rparr>)"
proof -
  have "conn_ok (b_connection b)" using assms(1) by (simp add: be_ok_def)
  with assms(2) connection_get_ok [of "b_connection b" 4 s] show ?thesis
    by (simp add: read_and_queue_def read_and_queue_loop.simps [of E want 0 b s] be_in_def)
qed

lemma simple_request_answered:
  assumes b: "idle b" and E: "answers E (concat (map (\<lambda>op. header_bytes op 0) evs) @ header_bytes answer 0)"
    and evs: "set evs \<subseteq> {SERVER_DISABLE_SEAT, SERVER_ENABLE_SEAT}" "length evs \<le> 63"
    and answer: "answer \<noteq> 0" "\<not> background answer" and bss: "bss \<noteq> []" "length (concat bss) \<le> 256"
  shows "\<exists>b' s'. simple_request E bss answer b s = Some (0, s') \<and> backend s' = Some b' \<and> idle b' \<and> wakes b'
    \<and> pending_events b' = rev evs @ pending_events b
    \<and> be_sent b' s' = be_sent b s @ concat bss @ (if evs = [] \<and> pending_events b = [] \<or> awaiting_pong b then [] else header_bytes CLIENT_PING 0)"
proof -
  let ?rest = "header_bytes answer 0"
  have d: "decode_header ?rest = \<lparr>opcode = answer, msg_size = 0\<rparr>" by (simp add: header_bytes_def header.dec_enc)
  have scan: "scan_events (concat (map (\<lambda>op. header_bytes op 0) evs) @ ?rest) = (evs, ?rest)"
    by (rule scan_events_headers) (use evs(1) answer(2) d in \<open>auto simp: background_def\<close>)
  have len: "length (concat (map (\<lambda>op. header_bytes op 0) evs) @ ?rest) \<le> 256"
    using evs(2) by (simp add: length_concat comp_def sum_list_triv)
  have np: "SERVER_PONG \<notin> set evs" "filter (\<lambda>x. x \<noteq> SERVER_PONG) evs = evs"
    using evs(1) by (auto simp: filter_id_conv server_opcode_defs SERVER_EVENT_def)
  from request_answered [OF b E bss len scan, of s] d answer(1) np obtain b1 s1 where
      r: "request_response E b bss s = Some (0, b1, s1)" "be_step b s b1 s1" "be_in b1 = ?rest" "\<not> b_error b1"
        "pending_events b1 = rev evs @ pending_events b" "awaiting_pong b1 = awaiting_pong b" "be_sent b1 s1 = be_sent b s @ concat bss"
        "contents (conn_out (b_connection b1)) = []" by auto
  from read_header_expected [OF be_step_ok [OF r(2)], of answer 0 "[]" False 0 E s1] r(3) obtain b2 where
      h: "read_header E b1 answer 0 False s1 = Some (Some 0, b2, s1)" "be_step b1 s1 b2 s1" "be_in b2 = []" "pending_events b2 = pending_events b1"
        "b_error b2 = b_error b1" "conn_out (b_connection b2) = conn_out (b_connection b1)" "awaiting_pong b2 = awaiting_pong b1"
    by auto
  have "idle b2" using h r be_step_ok [OF h(2)] by (simp add: idle_def)
  from check_pending_events_answered [OF this E, of s1] obtain b3 s3 where
      c: "check_pending_events E b2 s1 = Some (b3, s3)" "idle b3" "wakes b3" "pending_events b3 = pending_events b2"
        "be_sent b3 s3 = be_sent b2 s1 @ (if pending_events b2 = [] \<or> awaiting_pong b2 then [] else header_bytes CLIENT_PING 0)" by blast
  have "simple_request E bss answer b s = Some (0, s3\<lparr>backend := Some b3\<rparr>)" by (simp add: simple_request_def r(1) h(1) c(1))
  moreover have "be_sent b2 s1 = be_sent b1 s1" using h(2,6) by (simp add: be_sent_def be_step_def)
  ultimately show ?thesis using c r h by (auto simp: be_sent_def)
qed

lemma conn_get_take:
  assumes "be_ok b" and "be_in b = bs @ rest" and "length bs = n"
  shows "\<exists>b'. conn_get E b n s = Some (Some bs, b', s) \<and> be_step b s b' s \<and> be_in b' = rest \<and> b_error b' = b_error b
    \<and> pending_events b' = pending_events b \<and> awaiting_pong b' = awaiting_pong b \<and> conn_out (b_connection b') = conn_out (b_connection b)"
  using conn_get_ok [OF assms(1), of E n s] assms(2,3) by auto

text \<open>The name that a server sends, with or without the terminating zero.\<close>

lemma terminate_name_ok:
  assumes "length name < 64" and "0 \<notin> set name" and "bs = name @ [0] \<or> bs = name"
  shows "terminate_name bs = Some (name @ replicate (64 - length name) 0)"
proof -
  let ?n = "length name" and ?arr = "name @ replicate (64 - length name) 0"
  have rep: "replicate (64 - ?n) 0 = 0 # replicate (63 - ?n) 0" using assms(1) by (simp add: Suc_diff_le flip: replicate_Suc)
  have tw: "takeWhile (\<lambda>b. b \<noteq> 0) (take (Suc ?n) ?arr) = name"
    using assms(2) by (simp add: rep takeWhile_append takeWhile_eq_all_conv)
  from assms(3) show ?thesis
  proof
    assume bs: "bs = name @ [0]"
    have "bs @ replicate (64 - length bs) 0 = ?arr" using assms(1) by (simp add: bs rep)
    moreover have "?arr ! ?n = 0" by (simp add: rep)
    ultimately show ?thesis using tw by (simp add: terminate_name_def Let_def MAX_SEAT_LEN_def strnlen_def bs)
  next
    assume bs: "bs = name"
    have upd: "?arr[?n := 0] = ?arr" by (simp add: rep)
    have "name = [] \<or> ?arr ! (?n - 1) \<noteq> 0" using assms(2) by (cases name rule: rev_cases) (auto simp: nth_append)
    with assms(1) tw upd show ?thesis by (auto simp: terminate_name_def Let_def MAX_SEAT_LEN_def strnlen_def bs)
  qed
qed

lemma idle_new_backend [simp]: "idle (new_backend fd)" "pending_events (new_backend fd) = []" "\<not> awaiting_pong (new_backend fd)"
  by (simp_all add: idle_def be_ok_def be_in_def conn_ok_def cb_ok_def new_backend_def Let_def connection_buffer_size_def
      CONNECTION_BUFFER_SIZE_def MAX_SEAT_LEN_def contents_Nil_iff)

text \<open>The message with which a server answers the request to open a seat.\<close>

definition seat_opened :: "bytes \<Rightarrow> bytes" where
  "seat_opened bs = header_bytes SERVER_SEAT_OPENED (2 + length bs) @ encode_len_msg (of_nat (length bs)) @ bs"

lemma negotiate_answered:
  assumes E: "answers E (seat_opened bs @ concat (map (\<lambda>op. header_bytes op 0) evs))" and name: "length name < 64" "0 \<notin> set name"
    and bs: "bs = name @ [0] \<or> bs = name" and evs: "length evs \<le> 40"
  shows "\<exists>b' s'. negotiate E (new_backend fd) s = Some (True, b', s') \<and> be_ok b' \<and> \<not> b_error b' \<and> pending_events b' = []
    \<and> be_in b' = concat (map (\<lambda>op. header_bytes op 0) evs) \<and> b_seat_name b' = name @ replicate (64 - length name) 0
    \<and> os_frame s s' \<and> conn_fd (b_connection b') = fd
    \<and> sent_on fd (trace s') = sent_on fd (trace s) @ header_bytes CLIENT_OPEN_SEAT 0"
proof -
  let ?evs = "concat (map (\<lambda>op. header_bytes op 0) evs)" and ?b = "new_backend fd"
  have len: "length bs \<le> 64" using name(1) bs by auto
  then have d: "decode_header (header_bytes SERVER_SEAT_OPENED (2 + length bs)) = \<lparr>opcode = SERVER_SEAT_OPENED, msg_size = of_nat (2 + length bs)\<rparr>"
      "unat (of_nat (2 + length bs) :: u16) = 2 + length bs" "unat (of_nat (length bs) :: u16) = length bs"
    by (simp_all only: header_bytes_def header.dec_enc) (simp_all only: unat_of_nat, simp_all)
  have scan: "scan_events (seat_opened bs @ ?evs) = ([], seat_opened bs @ ?evs)"
    by (subst scan_events.simps) (use d(1) in \<open>simp add: seat_opened_def background_def server_opcode_defs SERVER_EVENT_def\<close>)
  have l: "length (seat_opened bs @ ?evs) \<le> 256" using len evs by (simp add: seat_opened_def length_concat comp_def sum_list_triv)
  have "\<exists>b' s'. request_response E ?b [header_bytes CLIENT_OPEN_SEAT 0] s = Some (0, b', s') \<and> be_step ?b s b' s' \<and> be_in b' = seat_opened bs @ ?evs
      \<and> \<not> b_error b' \<and> pending_events b' = rev (filter (\<lambda>x. x \<noteq> SERVER_PONG) []) @ pending_events ?b
      \<and> awaiting_pong b' = (awaiting_pong ?b \<and> SERVER_PONG \<notin> set [])
      \<and> be_sent b' s' = be_sent ?b s @ concat [header_bytes CLIENT_OPEN_SEAT 0] \<and> contents (conn_out (b_connection b')) = []"
    by (rule request_answered [OF idle_new_backend(1) E _ _ l scan])
      (use d in \<open>simp_all add: seat_opened_def server_opcode_defs SERVER_EVENT_def\<close>)
  then obtain b1 s1 where r: "request_response E ?b [header_bytes CLIENT_OPEN_SEAT 0] s = Some (0, b1, s1)" "be_step ?b s b1 s1"
      "be_in b1 = seat_opened bs @ ?evs" "\<not> b_error b1" "pending_events b1 = []" "be_sent b1 s1 = be_sent ?b s @ header_bytes CLIENT_OPEN_SEAT 0"
      "contents (conn_out (b_connection b1)) = []" by auto
  from read_header_expected [OF be_step_ok [OF r(2)], of SERVER_SEAT_OPENED "2 + length bs" _ True 2 E s1] r(3) len obtain b2 where
      h: "read_header E b1 SERVER_SEAT_OPENED 2 True s1 = Some (Some (2 + length bs), b2, s1)" "be_step b1 s1 b2 s1"
        "be_in b2 = encode_len_msg (of_nat (length bs)) @ bs @ ?evs" "pending_events b2 = pending_events b1" "b_error b2 = b_error b1"
    by (auto simp: seat_opened_def)
  from conn_get_take [OF be_step_ok [OF h(2)] h(3), of 2 E s1] obtain b3 where
      g: "conn_get E b2 2 s1 = Some (Some (encode_len_msg (of_nat (length bs))), b3, s1)" "be_step b2 s1 b3 s1" "be_in b3 = bs @ ?evs"
        "b_error b3 = b_error b2" "pending_events b3 = pending_events b2" by auto
  from conn_get_take [OF be_step_ok [OF g(2)] g(3) refl, of E s1] obtain b4 where
      n: "conn_get E b3 (length bs) s1 = Some (Some bs, b4, s1)" "be_step b3 s1 b4 s1" "be_in b4 = ?evs"
        "b_error b4 = b_error b3" "pending_events b4 = pending_events b3" by auto
  let ?b' = "b4\<lparr>b_seat_name := name @ replicate (64 - length name) 0\<rparr>"
  have st: "be_step ?b s b4 s1" by (rule be_step_trans [OF r(2) be_step_trans [OF h(2) be_step_trans [OF g(2) n(2)]]])
  have "negotiate E ?b s = Some (True, ?b', s1)"
    using len by (simp add: negotiate_def r(1) h(1) g(1) n(1) Let_def len_msg.dec_enc d(3) MAX_SEAT_LEN_def terminate_name_ok [OF name bs])
  moreover have "be_ok ?b'" using be_step_ok [OF st] name(1) by (simp add: be_ok_def MAX_SEAT_LEN_def)
  moreover have "conn_fd (b_connection b1) = fd" "conn_fd (b_connection b4) = fd" "be_sent ?b s = sent_on fd (trace s)"
    using st r(2) by (simp_all add: be_step_def new_backend_def Let_def be_sent_def contents_Nil_iff connection_buffer_size_def)
  ultimately show ?thesis using r n g h st by (auto simp: be_in_def be_sent_def be_step_def)
qed

text \<open>A connection that the server has closed.\<close>

definition hangs_up :: "env \<Rightarrow> bool" where
  "hangs_up E \<longleftrightarrow> kernel_ok E \<and> (\<forall>tr. k_alloc E tr) \<and> (\<forall>tr fd t. k_call E tr (C_poll fd t) = Inr POLLHUP)"

lemma request_hangup:
  assumes b: "idle b" and E: "hangs_up E"
  shows "\<exists>b' s'. request_response E b bss s = Some (- 1, b', s') \<and> be_step b s b' s' \<and> b_error b'"
proof -
  have k: "kernel_ok E" "\<And>tr. k_alloc E tr" "\<And>tr fd t. k_call E tr (C_poll fd t) = Inr POLLHUP" and ok: "be_ok b" "be_in b = []"
    using E b by (simp_all add: hangs_up_def idle_def)
  from conn_put_all_ok [OF ok(1) k(1), of bss s] obtain r1 b1 s1 where
      p: "conn_put_all E b bss s = Some (r1, b1, s1)" "be_step b s b1 s1" "be_in b1 = be_in b" "r1 = - 1 \<longrightarrow> b_error b1" by fastforce
  from conn_flush_ok [OF be_step_ok [OF p(2)] k(1), of s1] obtain r2 b2 s2 where
      fl: "conn_flush E b1 s1 = Some (r2, b2, s2)" "be_step b1 s1 b2 s2" "be_in b2 = be_in b1" "r2 = - 1 \<longrightarrow> b_error b2" by fastforce
  let ?s = "note_result (Inr POLLHUP) (E_call (C_poll (conn_fd (b_connection b2)) (- 1)) (Inr POLLHUP)) (s2\<lparr>errno := EAGAIN\<rparr>)"
  from set_error_ok [OF be_step_ok [OF fl(2)], of E ?s] obtain b3 s3 where
      e: "set_error E b2 ?s = Some (b3, s3)" "be_step b2 ?s b3 s3" "b_error b3" by blast
  have "POLLHUP AND (POLLERR OR POLLHUP) \<noteq> 0" by (simp add: POLLERR_def POLLHUP_def)
  then have "response_loop E b2 s2 = Some (- 1, b3, s3\<lparr>errno := EPIPE\<rparr>)"
    using read_and_queue_nothing [OF be_step_ok [OF fl(2)], of E True s2] ok(2) p(3) fl(3)
    by (simp add: response_loop.simps [of E b2 s2] poll_connection_def sys_call_def Let_def k(3) e(1))
  then have "request_response E b bss s = (if r1 = - 1 then Some (- 1, b1, s1) else if r2 = - 1 then Some (- 1, b2, s2) else Some (- 1, b3, s3\<lparr>errno := EPIPE\<rparr>))"
    by (simp add: request_response_def read_until_response_def p(1) fl(1))
  moreover have "be_step b2 s2 b3 s3"
  proof -
    have "os_frame s2 ?s" using os_frame_note_result os_frame_errno os_frame_trans by blast
    with e(2) show ?thesis by (auto simp: be_step_def intro: os_frame_trans)
  qed
  ultimately show ?thesis using p fl e be_step_trans [OF p(2)] be_step_trans [OF be_step_trans [OF p(2) fl(2)]] by auto
qed


lemma destroy_ok:
  assumes "be_ok b"
  shows "\<exists>s'. destroy E b s = Some s' \<and> os_frame s s'
    \<and> (conn_fd (b_connection b) \<noteq> - 1 \<longrightarrow> (\<exists>tr. trace s' = tr @ trace s \<and> conn_fd (b_connection b) \<in> set (closed_fds tr)))"
proof (cases "conn_fd (b_connection b) = - 1")
  case True
  with cleanup_ok [OF assms, of E s] show ?thesis by (auto simp: destroy_def be_step_def)
next
  case False
  let ?b = "b\<lparr>b_connection := (b_connection b)\<lparr>conn_fd := - 1\<rparr>\<rparr>" and ?s = "sys_close E (conn_fd (b_connection b)) s"
  have "be_ok ?b" using assms by (simp add: be_ok_def conn_ok_def)
  from cleanup_ok [OF this, of E ?s] obtain b' s' where
      c: "cleanup E ?b ?s = Some (b', s')" "os_frame ?s s'" by (auto simp: be_step_def)
  then obtain tr where "trace s' = tr @ trace ?s" by (auto simp: os_frame_def)
  with False c os_frame_trans [OF sys_frames(2) c(2)] show ?thesis
    by (auto simp: destroy_def sys_close_def Let_def closed_fds_append intro!: exI [of _ "tr @ [_]"])
qed





text \<open>A seat that could not be opened.\<close>

lemma negotiate_step:
  assumes "negotiate E b s = Some (False, b', s')" and "be_ok b" and "kernel_ok E"
  shows "be_step b s b' s'"
proof -
  from assms(1) obtain r b1 s1 where q: "request_response E b [header_bytes CLIENT_OPEN_SEAT 0] s = Some (r, b1, s1)"
    by (auto simp: negotiate_def bind_eq_Some_conv)
  have b1: "be_step b s b1 s1" using request_response_ok [OF q assms(2,3)] by blast
  obtain n b2 s2 where h: "read_header E b1 SERVER_SEAT_OPENED 2 True s1 = Some (n, b2, s2)" "be_step b1 s1 b2 s2"
    using read_header_ok [OF be_step_ok [OF b1]] by blast
  note st2 = be_step_trans [OF b1 h(2)]
  obtain m b3 s3 where g: "conn_get E b2 2 s2 = Some (m, b3, s3)" "be_step b2 s2 b3 s3" using conn_get_ok [OF be_step_ok [OF st2]] by blast
  note st3 = be_step_trans [OF st2 g(2)]
  have "be_step b s b4 s4" if "conn_get E b3 len s3 = Some (nm, b4, s4)" for len nm b4 s4
    using conn_get_ok [OF be_step_ok [OF st3], of E len s3] that be_step_trans [OF st3] by auto
  with assms(1) q h g b1 st2 st3 show ?thesis
    by (auto simp: negotiate_def Let_def bind_eq_Some_conv split: if_splits option.splits)
qed

text \<open>A backend that has received bytes.\<close>

definition received :: "bytes \<Rightarrow> backend_seatd" where
  "received bs = (new_backend 5)\<lparr>b_connection := (b_connection (new_backend 5))\<lparr>conn_in :=
     (case connection_buffer_put (conn_in (b_connection (new_backend 5))) bs \<lparr>errno = 0, trace = []\<rparr> of
        Some (_, b, _) \<Rightarrow> b | None \<Rightarrow> conn_in (b_connection (new_backend 5)))\<rparr>\<rparr>"

lemma received_ok:
  assumes "length bs \<le> 256"
  shows "be_ok (received bs)" "be_in (received bs) = bs" "pending_events (received bs) = []"
proof -
  let ?z = "conn_in (b_connection (new_backend 5))"
  have z: "cb_ok ?z" "contents ?z = []" "be_ok (new_backend 5)" using idle_new_backend(1) [of 5] by (auto simp: idle_def be_ok_def conn_ok_def be_in_def)
  from connection_buffer_put_ok [OF z(1), of bs "\<lparr>errno = 0, trace = []\<rparr>"] z(2) assms obtain b where
      "connection_buffer_put ?z bs \<lparr>errno = 0, trace = []\<rparr> = Some (0, b, \<lparr>errno = 0, trace = []\<rparr>)" "cb_ok b" "contents b = bs"
    by (auto simp: contents_Nil_iff)
  with z(3) show "be_ok (received bs)" "be_in (received bs) = bs" "pending_events (received bs) = []"
    by (auto simp: received_def be_ok_def conn_ok_def be_in_def)
qed

section \<open>Properties\<close>

text \<open>A kernel in which a server answers, and one in which it has hung up.\<close>

definition answering :: "bytes \<Rightarrow> env" where
  "answering reply = sample_env\<lparr>k_call := (\<lambda>_ c. case c of C_poll _ _ \<Rightarrow> Inr POLLIN | _ \<Rightarrow> Inr 0),
     k_recvmsg := (\<lambda>_ _ n. Inr (take n reply, []))\<rparr>"

lemma answers_answering: "answers (answering reply) reply"
  by (auto simp: answers_def answering_def kernel_ok_def sample_env_def send_progress_def recv_bounded_def
      send_not_interrupted_forever_def recv_not_interrupted_forever_def)

definition closed_env :: env where
  "closed_env = sample_env\<lparr>k_call := (\<lambda>_ c. case c of C_poll _ _ \<Rightarrow> Inr POLLHUP | _ \<Rightarrow> Inr 0)\<rparr>"

lemma hangs_up_closed_env: "hangs_up closed_env"
  by (auto simp: hangs_up_def closed_env_def kernel_ok_def sample_env_def send_progress_def recv_bounded_def
      send_not_interrupted_forever_def recv_not_interrupted_forever_def)

definition sample_lib :: lib where
  "sample_lib = \<lparr>errno = 0, trace = [], backend = Some (new_backend 5)\<rparr>"

lemma sample_lib_backend [simp]: "backend sample_lib = Some (new_backend 5)"
  by (simp add: sample_lib_def)

text \<open>C8: closing a device sends exactly the request and, when the server answers it, returns 0 and leaves the
  connection ready for the next call. Events that arrived before the answer are kept, and a ping is
  sent so that the application will be woken up for them.\<close>

theorem close_device_answered:
  assumes "backend s = Some b" and "idle b" and "0 \<le> dev_id" and "set evs \<subseteq> {SERVER_DISABLE_SEAT, SERVER_ENABLE_SEAT}" and "length evs \<le> 63"
    and "answers E (concat (map (\<lambda>op. header_bytes op 0) evs) @ header_bytes SERVER_DEVICE_CLOSED 0)"
  shows "\<exists>b' s'. close_device E dev_id s = Some (0, s') \<and> backend s' = Some b' \<and> idle b' \<and> wakes b'
    \<and> pending_events b' = rev evs @ pending_events b
    \<and> be_sent b' s' = be_sent b s @ header_bytes CLIENT_CLOSE_DEVICE 4 @ encode_int_msg dev_id
        @ (if evs = [] \<and> pending_events b = [] \<or> awaiting_pong b then [] else header_bytes CLIENT_PING 0)"
proof -
  have "SERVER_DEVICE_CLOSED \<noteq> 0" "\<not> background SERVER_DEVICE_CLOSED" by (simp_all add: background_def server_opcode_defs SERVER_EVENT_def)
  from simple_request_answered [OF assms(2,6,4,5) this, of "[header_bytes CLIENT_CLOSE_DEVICE 4, encode_int_msg dev_id]" s] assms(1-3)
  show ?thesis by (simp add: close_device_def idle_def)
qed

theorem close_device_answered_witness:
  "\<exists>b' s'. close_device (answering (header_bytes SERVER_ENABLE_SEAT 0 @ header_bytes SERVER_DEVICE_CLOSED 0)) 3 sample_lib = Some (0, s')
    \<and> backend s' = Some b' \<and> pending_events b' = [SERVER_ENABLE_SEAT]"
  using close_device_answered [of sample_lib "new_backend 5" 3 "[SERVER_ENABLE_SEAT]"] answers_answering by fastforce

text \<open>C25: when the server refuses to open a device, the caller gets -1 but not the error code that the server sent:
  \<open>check_pending_events\<close> looks for more input, finds none, and \<open>connection_get\<close> sets
  \<open>errno\<close> to \<open>EAGAIN\<close>.\<close>

theorem server_error_lost:
  assumes "backend s = Some b" and "idle b" and "pending_events b = []" and "length path < 250" and "is_int e"
    and "answers E (header_bytes SERVER_ERROR 4 @ encode_int_msg e)"
  shows "\<exists>b' s'. open_device E path s = Some (- 1, None, s') \<and> errno s' = EAGAIN \<and> backend s' = Some b' \<and> idle b'"
proof -
  let ?reply = "header_bytes SERVER_ERROR 4 @ encode_int_msg e"
  have d: "decode_header (header_bytes SERVER_ERROR 4) = \<lparr>opcode = SERVER_ERROR, msg_size = 4\<rparr>" by (simp add: header_bytes_def header.dec_enc)
  have "\<not> background SERVER_ERROR" by (simp add: background_def server_opcode_defs SERVER_EVENT_def)
  then have scan: "scan_events ?reply = ([], ?reply)" by (subst scan_events.simps) (simp add: d)
  have ne: "SERVER_DEVICE_OPENED \<noteq> SERVER_ERROR" "SERVER_ERROR \<noteq> 0" by (simp_all add: server_opcode_defs SERVER_EVENT_def)
  from request_answered [OF assms(2,6) _ _ _ scan, of "open_device_msgs path" s] d ne(2) assms(4) obtain b1 s1 where
      r: "request_response E b (open_device_msgs path) s = Some (0, b1, s1)" "be_step b s b1 s1" "be_in b1 = ?reply" "\<not> b_error b1"
        "pending_events b1 = pending_events b" "contents (conn_out (b_connection b1)) = []"
    by (auto simp: open_device_msgs_def Let_def)
  from read_header_error [OF be_step_ok [OF r(2)], of e "[]" SERVER_DEVICE_OPENED E 4 False s1] r(3) ne(1) assms(5) obtain b2 where
      h: "read_header E b1 SERVER_DEVICE_OPENED 4 False s1 = Some (None, b2, s1\<lparr>errno := e\<rparr>)" "be_step b1 s1 b2 s1" "be_in b2 = []"
        "pending_events b2 = pending_events b1" "b_error b2 = b_error b1" "conn_out (b_connection b2) = conn_out (b_connection b1)" by auto
  have "check_pending_events E b2 (s1\<lparr>errno := e\<rparr>) = Some (b2, s1\<lparr>errno := EAGAIN\<rparr>)"
    using read_and_queue_nothing [OF be_step_ok [OF h(2)] h(3), of E False "s1\<lparr>errno := e\<rparr>"] h(4) r(5) assms(3)
    by (simp add: check_pending_events_def)
  then have "open_device E path s = Some (- 1, None, s1\<lparr>errno := EAGAIN, backend := Some b2\<rparr>)"
    using assms(1,2,4) by (simp add: open_device_def r(1) h(1) idle_def MAX_PATH_LEN_def)
  then show ?thesis using h r be_step_ok [OF h(2)] by (simp add: idle_def)
qed

theorem server_error_lost_witness:
  "\<exists>b' s'. open_device (answering (header_bytes SERVER_ERROR 4 @ encode_int_msg EPERM)) ''/dev/dri/card0'' sample_lib = Some (- 1, None, s')
    \<and> errno s' = EAGAIN \<and> backend s' = Some b' \<and> idle b'"
  using server_error_lost [OF sample_lib_backend idle_new_backend(1,2) _ _ answers_answering [of "header_bytes SERVER_ERROR 4 @ encode_int_msg EPERM"],
    of "''/dev/dri/card0''"] by (simp add: is_int_def EPERM_def INT_MIN_def INT_MAX_def)

text \<open>C32: a seat that a server offers is opened under the name that the server sent, with or without the terminating
  zero that old servers leave out, and the request is all that is sent.\<close>

theorem open_seat_answered:
  assumes "answers E (seat_opened bs @ concat (map (\<lambda>op. header_bytes op 0) evs))" and "length evs \<le> 40"
    and "length name < 64" and "0 \<notin> set (string_bytes name)" and "bs = string_bytes name @ [0] \<or> bs = string_bytes name"
  shows "\<exists>b' s'. open_seat_fd E L fd s = Some (True, s') \<and> backend s' = Some b' \<and> be_ok b' \<and> \<not> b_error b' \<and> seat_name_of s' = Some name
    \<and> be_in b' = concat (map (\<lambda>op. header_bytes op 0) evs) \<and> sent_on fd (trace s') = sent_on fd (trace s) @ header_bytes CLIENT_OPEN_SEAT 0"
proof -
  let ?nm = "string_bytes name" and ?s = "s\<lparr>trace := E_alloc True # trace s\<rparr>"
  have al: "sys_alloc E s = (True, ?s)" using answersD(2) [OF assms(1)] by (simp add: sys_alloc_def)
  from negotiate_answered [OF assms(1), of ?nm fd ?s] assms(2-5) obtain b' s' where
      n: "negotiate E (new_backend fd) ?s = Some (True, b', s')" "be_ok b'" "\<not> b_error b'" "pending_events b' = []"
        "be_in b' = concat (map (\<lambda>op. header_bytes op 0) evs)" "b_seat_name b' = ?nm @ replicate (64 - length name) 0"
        "sent_on fd (trace s') = sent_on fd (trace ?s) @ header_bytes CLIENT_OPEN_SEAT 0" by auto
  have "takeWhile (\<lambda>x. x \<noteq> 0) (b_seat_name b') = ?nm"
    using assms(3,4) n(6) by (cases "64 - length name") (auto simp: takeWhile_append takeWhile_eq_all_conv)
  with n show ?thesis by (simp add: open_seat_fd_def al execute_events_def seat_name_of_def be_ok_def be_in_def)
qed

theorem open_seat_answered_witness:
  "\<exists>s'. open_seat_fd (answering (seat_opened (string_bytes ''seat0'' @ [0]) @ concat (map (\<lambda>op. header_bytes op 0) [SERVER_ENABLE_SEAT])))
      (\<lambda>_. Some) 5 (sample_lib\<lparr>backend := None\<rparr>) = Some (True, s') \<and> seat_name_of s' = Some ''seat0''"
  using open_seat_answered [OF answers_answering, of "[SERVER_ENABLE_SEAT]" "''seat0''" "string_bytes ''seat0'' @ [0]" "\<lambda>_. Some" 5]
  by (auto simp: string_bytes_def)

text \<open>C27: when opening a seat fails after memory for the backend was obtained, for whatever reason, the descriptor of the connection
  is closed twice, by \<open>destroy\<close> and by \<open>_open_seat\<close> itself; when there is no memory it is closed once.\<close>

theorem open_failure_closes_twice:
  assumes "kernel_ok E" and "fd \<noteq> - 1" and "open_seat_fd E L fd s = Some (False, s')"
  shows "\<exists>tr. trace s' = tr @ trace s
    \<and> (if k_alloc E (trace s) then 2 \<le> length (filter (\<lambda>f. f = fd) (closed_fds tr)) else closed_fds tr = [fd])"
proof (cases "k_alloc E (trace s)")
  case True
  let ?s = "s\<lparr>trace := E_alloc True # trace s\<rparr>"
  have al: "sys_alloc E s = (True, ?s)" using True by (simp add: sys_alloc_def)
  with assms(3) obtain b1 s1 s2 where n: "negotiate E (new_backend fd) ?s = Some (False, b1, s1)" and d: "destroy E b1 s1 = Some s2"
      and s': "s' = sys_close E fd s2"
    by (auto simp: open_seat_fd_def bind_eq_Some_conv split: if_splits)
  have st: "be_step (new_backend fd) ?s b1 s1"
    using negotiate_step [OF n _ assms(1)] idle_new_backend(1) [of fd] by (simp add: idle_def)
  then have "conn_fd (b_connection b1) = fd" by (simp add: be_step_def new_backend_def Let_def)
  with destroy_ok [OF be_step_ok [OF st], of E s1] d assms(2) obtain tr where
      tr: "trace s2 = tr @ trace s1" "fd \<in> set (closed_fds tr)" by auto
  obtain tr1 where tr1: "trace s1 = tr1 @ trace ?s" using st by (auto simp: be_step_def os_frame_def)
  have "Suc 0 \<le> length (filter (\<lambda>f. f = fd) (closed_fds tr)) + k" for k
    using tr(2) by (cases "filter (\<lambda>f. f = fd) (closed_fds tr)") (auto simp: filter_empty_conv)
  moreover obtain q where "trace s' = (E_close fd q # tr @ tr1 @ [E_alloc True]) @ trace s"
    using tr1 tr(1) by (auto simp: s' sys_close_def Let_def)
  ultimately show ?thesis using True by (auto simp: closed_fds_append)
next
  case False
  with assms(3) have "s' = sys_close E fd (s\<lparr>errno := ENOMEM, trace := E_alloc False # trace s\<rparr>)"
    by (simp add: open_seat_fd_def sys_alloc_def)
  with False show ?thesis by (auto simp: sys_close_def Let_def intro!: exI [of _ "[_, E_alloc False]"])
qed

theorem open_failure_closes_twice_witness:
  "\<exists>s'. open_seat_fd closed_env (\<lambda>_. Some) 5 sample_lib = Some (False, s') \<and> 2 \<le> length (filter (\<lambda>f. f = 5) (closed_fds (trace s')))"
proof -
  let ?s = "sample_lib\<lparr>trace := [E_alloc True]\<rparr>"
  have k: "kernel_ok closed_env" "k_alloc closed_env []" using hangs_up_closed_env by (simp_all add: hangs_up_def)
  have al: "sys_alloc closed_env sample_lib = (True, ?s)" using k(2) by (simp add: sys_alloc_def sample_lib_def)
  from request_hangup [OF idle_new_backend(1) hangs_up_closed_env, of 5 "[header_bytes CLIENT_OPEN_SEAT 0]" ?s] obtain b1 s1 where
      r: "request_response closed_env (new_backend 5) [header_bytes CLIENT_OPEN_SEAT 0] ?s = Some (- 1, b1, s1)" "be_ok b1"
    by (auto dest: be_step_ok)
  obtain s' where s': "open_seat_fd closed_env (\<lambda>_. Some) 5 sample_lib = Some (False, s')"
    using destroy_ok [OF r(2), of closed_env s1] by (auto simp: open_seat_fd_def al negotiate_def r(1))
  from open_failure_closes_twice [OF k(1) _ s'] s' k(2) show ?thesis by (auto simp: sample_lib_def)
qed

text \<open>C24: events that are read together are delivered in the wrong order, the newest first: when the seat was enabled
  and then disabled, the application is told that it is disabled and then that it is enabled.\<close>

theorem events_newest_first:
  assumes "backend s = Some b" and "be_ok b" and "pending_events b = []" and "\<forall>tr. k_alloc E tr"
    and "be_in b = concat (map (\<lambda>op. header_bytes op 0) ops)" and "set ops \<subseteq> {SERVER_DISABLE_SEAT, SERVER_ENABLE_SEAT}"
  shows "\<exists>b' t. os_frame s t \<and> be_ok b' \<and> pending_events b' = [] \<and> dispatch_pending E L s
    = map_option (\<lambda>(n, s'). (int (length ops) + n, s')) (run_events L (rev ops) 0 (t\<lparr>backend := Some b'\<rparr>))"
proof -
  have "\<forall>op\<in>set ops. background op" using assms(6) by (auto simp: background_def)
  then have scan: "scan_events (be_in b) = (ops, [])" using scan_events_headers [of ops "[]"] assms(5) by simp
  have np: "filter (\<lambda>x. x \<noteq> SERVER_PONG) ops = ops" using assms(6) by (auto simp: filter_id_conv server_opcode_defs SERVER_EVENT_def)
  from read_and_queue_ok [OF assms(2), of E False s] assms(4) scan obtain p op b1 s1 where
      q: "read_and_queue E False b s = Some (p, op, b1, s1)" "be_step b s b1 s1" "0 \<le> p" "queued False b 0 p op b1" by auto
  have "p = int (length ops)" "pending_events b1 = rev ops" using q(4) assms(3) by (simp_all add: queued_def scan np)
  moreover have "be_ok (b1\<lparr>pending_events := []\<rparr>)" "os_frame s s1" using q(2) by (auto simp: be_step_def be_ok_def)
  ultimately have "dispatch_pending E L s = map_option (\<lambda>(n, s'). (int (length ops) + n, s'))
      (run_events L (rev ops) 0 (s1\<lparr>backend := Some (b1\<lparr>pending_events := []\<rparr>)\<rparr>))"
    by (cases "run_events L (rev ops) 0 (s1\<lparr>backend := Some (b1\<lparr>pending_events := []\<rparr>)\<rparr>)")
      (auto simp: dispatch_pending_def assms(1) q(1) execute_events_def)
  with \<open>be_ok (b1\<lparr>pending_events := []\<rparr>)\<close> \<open>os_frame s s1\<close> show ?thesis by fastforce
qed

theorem events_newest_first_witness:
  "\<exists>s'. dispatch_pending sample_env (\<lambda>on s. Some (s\<lparr>errno := if on then EPERM else EIO\<rparr>))
      (sample_lib\<lparr>backend := Some (received (header_bytes SERVER_ENABLE_SEAT 0 @ header_bytes SERVER_DISABLE_SEAT 0))\<rparr>) = Some (4, s') \<and> errno s' = EPERM"
  using events_newest_first [of "sample_lib\<lparr>backend := Some (received (header_bytes SERVER_ENABLE_SEAT 0 @ header_bytes SERVER_DISABLE_SEAT 0))\<rparr>"
      _ sample_env "[SERVER_ENABLE_SEAT, SERVER_DISABLE_SEAT]" "\<lambda>on s. Some (s\<lparr>errno := if on then EPERM else EIO\<rparr>)"]
    received_ok [of "header_bytes SERVER_ENABLE_SEAT 0 @ header_bytes SERVER_DISABLE_SEAT 0"]
  by (auto simp: sample_env_def server_opcode_defs SERVER_EVENT_def)

text \<open>C9: \<open>dispatch\<close> returns, whatever the server sends and whatever the timeout is, provided the listener
  returns and leaves the library in order; in particular no event that the server can cause makes it abort.\<close>

theorem dispatch_returns:
  assumes "listener_ok L" and "kernel_ok E" and "lib_ok s"
  shows "\<exists>r s'. dispatch_seat E L timeout s = Some (r, s') \<and> lib_ok s' \<and> - 1 \<le> r"
  using assms by (rule dispatch_seat_ok)

theorem dispatch_returns_witness:
  "\<exists>r s'. dispatch_seat closed_env (\<lambda>_. Some) 100 sample_lib = Some (r, s') \<and> lib_ok s' \<and> - 1 \<le> r"
  using dispatch_returns [of "\<lambda>_. Some" closed_env sample_lib 100] hangs_up_closed_env idle_new_backend(1) [of 5]
  by (simp add: listener_ok_def lib_ok_def hangs_up_def idle_def)



end
