(* ===== verification/Composition.thy ===== *)
theory Composition
  imports Libseat_Run Sample
begin

text \<open>
  The client library and the server together: what the server finds in its input when the
  library has sent a request.
\<close>

lemma client_get_front:
  assumes inv: "server_inv s" and k: "client_heap s c = Some k" and inp: "input s c = bs @ rest" "length bs = n"
  shows "\<exists>cn. client_get c n s = Some (Some bs, s\<lparr>client_heap := (client_heap s)(c \<mapsto> k\<lparr>connection := cn\<rparr>)\<rparr>)
    \<and> server_inv (s\<lparr>client_heap := (client_heap s)(c \<mapsto> k\<lparr>connection := cn\<rparr>)\<rparr>)
    \<and> contents (conn_in cn) = rest"
proof -
  let ?cn = "(connection k)\<lparr>conn_in := connection_buffer_consume (conn_in (connection k)) n\<rparr>"
  have ok: "conn_ok (connection k)" using inv graph_conn_ok [OF _ k] by (auto simp: server_inv_def)
  have len: "n \<le> length (input s c)" using inp by simp
  have "conn_ok ?cn" "conn_fd ?cn = conn_fd (connection k)" "contents (conn_in ?cn) = rest"
    using connection_buffer_consume_ok [of "conn_in (connection k)" n] ok len k inp by (auto simp: conn_ok_def input_def)
  with set_connection_inv(1) [OF inv k this(1,2)] client_get_eq [OF inv k, of n] len inp show ?thesis by auto
qed

text \<open>The sample server when its first client has sent something.\<close>

definition fed_sys :: "bytes \<Rightarrow> sys" where
  "fed_sys bs = (sample_sys (sample_seat True [2, 1]))\<lparr>client_heap := (client_heap (sample_sys (sample_seat True [2, 1])))
     (1 \<mapsto> (sample_client 1 11 0 CLIENT_ACTIVE [sample_device])\<lparr>connection := (b_connection (received bs))\<lparr>conn_fd := 11\<rparr>\<rparr>)\<rparr>"

lemma fed_sys_ok:
  assumes "length bs \<le> 256"
  shows "server_inv (fed_sys bs)"
    and "client_heap (fed_sys bs) 1 = Some ((sample_client 1 11 0 CLIENT_ACTIVE [sample_device])\<lparr>connection := (b_connection (received bs))\<lparr>conn_fd := 11\<rparr>\<rparr>)"
    and "input (fed_sys bs) 1 = bs"
proof -
  have "conn_ok ((b_connection (received bs))\<lparr>conn_fd := 11\<rparr>)" using received_ok(1) [OF assms] by (simp add: be_ok_def conn_ok_def)
  from set_connection_inv(1) [OF sample_inv sample_clients(1) this, of True] show "server_inv (fed_sys bs)"
    by (simp add: fed_sys_def sample_client_def zero_connection_def)
  show "input (fed_sys bs) 1 = bs" using received_ok(2) [OF assms] by (simp add: fed_sys_def input_def be_in_def)
qed (simp add: fed_sys_def)

end
