(* ===== verification/Main_Inv.thy ===== *)
theory Main_Inv
  imports Seatd_Main Libseat Composition
begin

text \<open>
  The programs around the server: what seatd makes of its options, that neither seatd nor the server
  embedded in the library leaves anything behind, and how the library chooses a backend.
\<close>

section \<open>Options\<close>

text \<open>Every character that \<open>getopt\<close> reports is an option of the specification or \<open>?\<close>.\<close>

lemma getopt_known:
  "\<forall>(c, arg) \<in> set (fst (getopt spec args)). c = CHR ''?'' \<or> takes_argument spec c \<noteq> None"
  "\<forall>(c, arg) \<in> set (fst (getopt_cluster spec cs args)). c = CHR ''?'' \<or> takes_argument spec c \<noteq> None"
  by (induction spec args and spec cs args rule: getopt_getopt_cluster.induct)
    (auto simp: split_def Let_def split: option.splits bool.splits list.splits)

text \<open>The characters that \<open>getopt\<close> can report to seatd, with arguments that \<open>atoi\<close> can read.\<close>

definition option_known :: "char \<times> string \<Rightarrow> bool" where
  "option_known x \<longleftrightarrow> (fst x = CHR ''?'' \<or> takes_argument ''vhn:g:u:l:z'' (fst x) \<noteq> None) \<and> (fst x = CHR ''n'' \<longrightarrow> atoi (snd x) \<noteq> None)"

definition opts_ok :: "options \<Rightarrow> bool" where
  "opts_ok opts \<longleftrightarrow> (unlink_existing_socket opts = chown_socket opts) \<and> (chown_socket opts \<or> opt_uid opts = - 1 \<and> opt_gid opts = - 1)"

lemma handle_option_ok:
  assumes "opts_ok opts" and "option_known (c, arg)"
  shows "\<exists>r s'. handle_option E c arg opts s = Some (r, s')
    \<and> (\<forall>opts'. r = Inr opts' \<longrightarrow> opts_ok opts' \<and> (chown_socket opts' \<longrightarrow> chown_socket opts \<and> c \<noteq> CHR ''z''))"
proof -
  have "c \<in> {CHR ''v'', CHR ''h'', CHR ''n'', CHR ''g'', CHR ''u'', CHR ''l'', CHR ''z'', CHR ''?''}" "c = CHR ''n'' \<longrightarrow> atoi arg \<noteq> None"
    using assms(2) by (simp_all add: option_known_def split: if_splits)
  then show ?thesis
    using assms(1) by (elim insertE emptyE) (auto simp: handle_option_def opts_ok_def Let_def split_def split: sum.split option.split)
qed

lemma handle_options_ok:
  assumes "opts_ok opts" and "\<forall>x \<in> set cs. option_known x"
  shows "\<exists>r s'. handle_options E cs opts s = Some (r, s')
    \<and> (\<forall>opts'. r = Inr opts' \<longrightarrow> opts_ok opts' \<and> (chown_socket opts' \<longrightarrow> chown_socket opts \<and> CHR ''z'' \<notin> fst ` set cs))"
  using assms
proof (induction cs arbitrary: opts s)
  case (Cons x cs)
  obtain c arg where x: "x = (c, arg)" by force
  have "option_known (c, arg)" using Cons.prems(2) x by simp
  from handle_option_ok [OF Cons.prems(1) this, of E s] obtain r s1 where
      r: "handle_option E c arg opts s = Some (r, s1)"
        "\<forall>opts'. r = Inr opts' \<longrightarrow> opts_ok opts' \<and> (chown_socket opts' \<longrightarrow> chown_socket opts \<and> c \<noteq> CHR ''z'')" by blast
  show ?case
  proof (cases r)
    case (Inr opts1)
    then have "opts_ok opts1" using r(2) by blast
    from Cons.IH [OF this, of s1] Cons.prems(2) obtain r' s' where
        q: "handle_options E cs opts1 s1 = Some (r', s')"
          "\<forall>opts'. r' = Inr opts' \<longrightarrow> opts_ok opts' \<and> (chown_socket opts' \<longrightarrow> chown_socket opts1 \<and> CHR ''z'' \<notin> fst ` set cs)" by auto
    have "handle_options E (x # cs) opts s = Some (r', s')" by (simp add: x r(1) Inr q(1))
    moreover have "opts_ok opts' \<and> (chown_socket opts' \<longrightarrow> chown_socket opts \<and> CHR ''z'' \<notin> fst ` set (x # cs))" if "r' = Inr opts'" for opts'
    proof -
      have "chown_socket opts1 \<longrightarrow> chown_socket opts \<and> c \<noteq> CHR ''z''" using r(2) Inr by blast
      moreover have "opts_ok opts' \<and> (chown_socket opts' \<longrightarrow> chown_socket opts1 \<and> CHR ''z'' \<notin> fst ` set cs)" using q(2) that by blast
      ultimately show ?thesis by (simp add: x) metis
    qed
    ultimately show ?thesis by blast
  qed (simp add: x r(1))
qed simp

section \<open>The life of a server\<close>

definition released :: "sys \<Rightarrow> bool" where
  "released s \<longleftrightarrow> client_heap s = Map.empty \<and> seat_heap s = Map.empty \<and> seats s = [] \<and> idle_clients s = []"

lemma released_os_frame: "os_frame s t \<Longrightarrow> released t = released s"
  by (cases s; cases t) (simp add: os_frame_def released_def)

lemma server_finish_released: "server_inv s \<Longrightarrow> send_progress E \<Longrightarrow> server_finish E s = Some s' \<Longrightarrow> released s'"
  using server_finish_ok by (simp add: released_def)

lemma server_init_fails:
  assumes "released s" and "send_progress E" and "server_init E s = Some (r, s')"
  shows "r = - 1 \<and> released s' \<or> r = 0 \<and> server_inv s'"
proof -
  have m: "client_heap s = Map.empty" "seat_heap s = Map.empty" using assms(1) by (simp_all add: released_def)
  obtain r1 s1 where 1: "poller_init E s = Some (r1, s1)" using assms(3) by (auto simp: server_init_def bind_eq_Some_conv)
  note init = poller_init_ok [OF 1]
  show ?thesis
  proof (cases "r1 = - 1")
    case True
    moreover have "released s1" using init assms(1) by (cases s; cases s1) (simp add: released_def)
    ultimately show ?thesis using assms(3) 1 by (simp add: server_init_def)
  next
    case False
    let ?s = "s1\<lparr>seats := [], idle_clients := []\<rparr>"
    let ?hs = "[(SIGUSR1, Server_handle_vt_rel), (SIGUSR2, Server_handle_vt_acq), (SIGINT, Server_handle_kill), (SIGTERM, Server_handle_kill)]"
    have m1: "client_heap s1 = Map.empty" "seat_heap s1 = Map.empty" using init m by (cases s; cases s1; simp)+
    have inv: "server_inv ?s"
      using init False m1 by (simp add: server_inv_def graph_def shape_ok_def view_def fresh_ok_def sources_ok_def owners_def)
    obtain ok s2 where 2: "add_signals E ?hs ?s = (ok, s2)" by force
    have i2: "server_inv s2" using add_signals_inv [OF inv _ 2] by simp
    let ?vt = "env_var E ''SEATD_VTBOUND'' = None \<or> env_var E ''SEATD_VTBOUND'' = Some ''1''"
    obtain st s3 where 3: "seat_create E ''seat0'' ?vt s2 = (st, s3)" by force
    have i3: "server_inv s3" if "st = None" using seat_create_cases [OF 3] that server_inv_os_frame [OF i2] by auto
    have run: "Some (r, s') = (if \<not> ok then do { s \<leftarrow> server_finish E s2; Some (- 1, s) }
        else case st of None \<Rightarrow> do { s \<leftarrow> server_finish E s3; Some (- 1, s) } | Some st \<Rightarrow> Some (0, s3\<lparr>seats := st # seats s3, running := True\<rparr>))"
      using assms(3) False by (simp add: server_init_def 1 2 3 Let_def del: add_signals.simps cong: if_cong)
    then consider "r = 0" | t where "r = - 1" "server_inv t" "server_finish E t = Some s'"
      using i2 i3 by (cases st) (auto simp: bind_eq_Some_conv eq_commute [of "Some (r, s')"] split: if_splits)
    then show ?thesis
    proof cases
      case 1
      with server_init_inv [OF m, of E s'] assms(3) show ?thesis by simp
    qed (use server_finish_released assms(2) in blast)
  qed
qed

lemma run_server_inv:
  assumes "server_inv s" and "send_progress E" and "recv_bounded E" and "run_server E rounds s = Some (r, s')"
  shows "server_inv s'"
  using assms(1,4)
proof (induction rounds arbitrary: s)
  case Nil
  then show ?case by (auto split: if_splits)
next
  case (Cons sigs rounds)
  have "server_inv (fold (signal_handler E) sigs s)"
    using Cons.prems(1) by (induction sigs arbitrary: s) (auto intro: signal_handler_inv)
  then have "server_inv t" if "poller_poll E (call_signal E) (call_fd E) (fold (signal_handler E) sigs s) = Some (q, t)" for q t
    using poller_poll_inv [OF _ that] assms(2,3) by (simp add: server_ok_def)
  then show ?case
    using Cons.prems Cons.IH by (cases "running s") (auto simp: bind_eq_Some_conv split: if_splits)
qed

lemma open_socket_frame: "os_frame s (snd (open_socket E path uid gid s))"
proof -
  have c: "os_frame s u" if "sys_call E x t = (r, u)" "os_frame s t" for x r t u
    using that os_frame_trans [OF that(2) sys_call_frames(1) [of t E x]] by simp
  have d: "os_frame s (sys_close E x t)" if "os_frame s t" for x t using that sys_frames(2) os_frame_trans by blast
  obtain r1 s1 where 1: "sys_call E C_socket s = (r1, s1)" by force
  obtain r2 s2 where 2: "sys_call E (C_bind (c_int r1) (take (sun_path_len (platform E) - 1) path)) s1 = (r2, s2)" by force
  obtain r3 s3 where 3: "sys_call E (C_listen (c_int r1) LISTEN_BACKLOG) s2 = (r3, s3)" by force
  obtain r4 s4 where 4: "sys_call E (C_chmod path 0x1F8) s3 = (r4, s4)" by force
  obtain r5 s5 where 5: "sys_call E (C_chown path uid gid) s4 = (r5, s5)" by force
  have f: "os_frame s s1" "os_frame s s2" "os_frame s s3" "os_frame s s4" "os_frame s s5"
    using c [OF 1] c [OF 2] c [OF 3] c [OF 4] c [OF 5] by simp_all
  show ?thesis by (simp add: open_socket_def 1 2 [simplified] 3 4 [simplified] 5 Let_def f d)
qed

lemma stop_server_released:
  assumes "server_inv s" and "send_progress E" and "stop_server E path ret s = Some (r, s')"
  shows "released s'"
proof -
  obtain q t where t: "sys_call E (C_unlink path) s = (q, t)" by force
  have "server_inv t" using server_inv_os_frame [OF assms(1), of t] sys_call_frames(1) [of s E "C_unlink path"] t by simp
  with assms(2,3) t show ?thesis by (auto simp: stop_server_def bind_eq_Some_conv intro: server_finish_released)
qed

lemma handle_options_frame: "handle_options E cs opts s = Some (r, s') \<Longrightarrow> os_frame s s'"
proof (induction cs arbitrary: opts s)
  case (Cons x cs)
  obtain c arg where x: "x = (c, arg)" by force
  have f: "os_frame s t" if "handle_option E c arg opts s = Some (q, t)" for q t
    using that sys_call_frames(1) [of s E "C_getpwnam arg"] sys_call_frames(1) [of s E "C_getgrnam arg"]
    by (auto simp: handle_option_def Let_def split_def bind_eq_Some_conv split: if_splits)
  from Cons.prems x obtain q t where 1: "handle_option E c arg opts s = Some (q, t)"
    and 2: "(case q of Inl ret \<Rightarrow> Some (Inl ret, t) | Inr opts \<Rightarrow> handle_options E cs opts t) = Some (r, s')"
    by (auto simp: bind_eq_Some_conv)
  show ?case
    using f [OF 1] 2 Cons.IH [of _ t] by (cases q) (auto intro: os_frame_trans)
qed simp

lemma clear_socket_path_frame: "os_frame s (snd (clear_socket_path E path u s))"
proof -
  obtain q t where t: "sys_call E (C_lstat path) s = (q, t)" by force
  obtain q2 u2 where u: "sys_call E (C_unlink path) t = (q2, u2)" by force
  have "os_frame s t" "os_frame t u2" using sys_call_frames(1) [of s E "C_lstat path"] sys_call_frames(1) [of t E "C_unlink path"] t u by auto
  then show ?thesis using os_frame_trans [of s t u2] by (simp add: clear_socket_path_def t u split: sum.split)
qed

lemma notify_readiness_frame: "os_frame s (notify_readiness E fd s)"
proof (cases "fd = - 1")
  case False
  have "os_frame s (sys_close E fd (snd (sys_write E fd [0x0A] s)))" by (rule os_frame_trans [OF sys_frames(14) sys_frames(2)])
  with False show ?thesis by (simp add: notify_readiness_def)
qed (simp add: notify_readiness_def)

lemma server_part_released:
  assumes E: "send_progress E" "recv_bounded E" and s: "server_inv s" and so: "open_socket E path uid gid s = (fd, s1)" "fd \<noteq> - 1"
    and add: "poller_add_fd E fd EVENT_READABLE Server_handle_connection s1 = (src, s2)"
    and run: "(if src = None then stop_server E path 1 (sys_close E fd s2)
      else do { (ret, s) \<leftarrow> run_server E rounds (notify_readiness E rd s2); stop_server E path ret s }) = Some (ret, s')"
  shows "released s'"
proof -
  have "os_frame s s1" using open_socket_frame [of s E path uid gid] so(1) by simp
  then have i2: "server_inv s2" using listen_inv [OF server_inv_os_frame [OF s] add] by blast
  show ?thesis
  proof (cases src)
    case None
    with run stop_server_released [OF server_inv_os_frame [OF i2 sys_frames(2)] E(1)] show ?thesis by simp
  next
    case (Some i)
    with run obtain q t where "run_server E rounds (notify_readiness E rd s2) = Some (q, t)" "stop_server E path q t = Some (ret, s')"
      by (auto simp: bind_eq_Some_conv)
    with run_server_inv [OF server_inv_os_frame [OF i2 notify_readiness_frame] E] stop_server_released [OF _ E(1)] show ?thesis by blast
  qed
qed

lemma builtin_server_released:
  assumes E: "send_progress E" "recv_bounded E" and s: "released s" and run: "builtin_server E rounds fd s = Some (res, s')"
  shows "released s'"
proof -
  from run obtain r s1 where 1: "server_init E s = Some (r, s1)" by (auto simp: builtin_server_def bind_eq_Some_conv)
  note i = server_init_fails [OF s E(1) 1]
  show ?thesis
  proof (cases "r = - 1")
    case True
    with run 1 i released_os_frame [OF sys_frames(2)] show ?thesis by (auto simp: builtin_server_def)
  next
    case False
    with run 1 obtain r2 s2 s3 s4 where 2: "server_add_client E fd s1 = Some (r2, s2)"
        "(if r2 = - 1 then Some (1, s2) else run_server E rounds s2) = Some (res, s3)" "server_finish E s3 = Some s4" "s' = sys_close E fd s4"
      by (auto simp: builtin_server_def bind_eq_Some_conv split: if_splits)
    have "server_inv s2" using server_add_client_inv [OF _ E(1) 2(1)] i False by simp
    then have "server_inv s3" using 2(2) run_server_inv [OF _ E] by (auto split: if_splits)
    with server_finish_released [OF _ E(1) 2(3)] released_os_frame [OF sys_frames(2)] 2(4) show ?thesis by simp
  qed
qed

section \<open>Properties\<close>

text \<open>C34: reading the options always comes to an end, with a value to return or with settings, and the option \<open>-z\<close> of the
  launcher does what it is for, wherever it stands: an existing socket is not removed, and the socket
  is not given to a user or group, since \<open>-u\<close> and \<open>-g\<close> are refused with it.\<close>

theorem options_sound:
  assumes "\<forall>(c, arg) \<in> set (fst (getopt ''vhn:g:u:l:z'' args)). c = CHR ''n'' \<longrightarrow> atoi arg \<noteq> None"
  shows "\<exists>r s'. handle_options E (fst (getopt ''vhn:g:u:l:z'' args)) default_options s = Some (r, s')
    \<and> (\<forall>opts. r = Inr opts \<longrightarrow> (chown_socket opts \<or> opt_uid opts = - 1 \<and> opt_gid opts = - 1)
         \<and> (CHR ''z'' \<in> fst ` set (fst (getopt ''vhn:g:u:l:z'' args)) \<longrightarrow> \<not> unlink_existing_socket opts \<and> \<not> chown_socket opts))"
proof -
  let ?cs = "fst (getopt ''vhn:g:u:l:z'' args)"
  have "\<forall>x \<in> set ?cs. option_known x"
  proof
    fix x assume "x \<in> set ?cs"
    with bspec [OF getopt_known(1)] bspec [OF assms] show "option_known x" unfolding option_known_def split_beta by blast
  qed
  moreover have "opts_ok default_options" by (simp add: opts_ok_def default_options_def)
  ultimately obtain r s' where r: "handle_options E ?cs default_options s = Some (r, s')"
      "\<forall>opts'. r = Inr opts' \<longrightarrow> opts_ok opts' \<and> (chown_socket opts' \<longrightarrow> chown_socket default_options \<and> CHR ''z'' \<notin> fst ` set ?cs)"
    using handle_options_ok by blast
  then show ?thesis unfolding opts_ok_def by blast
qed

theorem options_sound_witness:
  "\<exists>r s'. handle_options sample_env (fst (getopt ''vhn:g:u:l:z'' [''-z'', ''-l'', ''debug''])) default_options boot = Some (r, s')
    \<and> (\<forall>opts. r = Inr opts \<longrightarrow> \<not> unlink_existing_socket opts)"
  using options_sound [of "[''-z'', ''-l'', ''debug'']" sample_env boot] by auto

text \<open>C19: however a server ends, it has let go of everything: when seatd returns from \<open>main\<close>, or the embedded server of the
  library exits, no client and no seat is left.\<close>

theorem servers_leave_nothing:
  assumes "send_progress E" and "recv_bounded E" and "os_frame boot s"
    and "(\<exists>lg lg'. seatd_main E path rounds args lg s = Some (ret, lg', s')) \<or> (\<exists>fd. builtin_server E rounds fd s = Some (ret, s'))"
  shows "client_heap s' = Map.empty \<and> seat_heap s' = Map.empty \<and> seats s' = [] \<and> idle_clients s' = []"
proof -
  have s: "released s" using released_os_frame [OF assms(3)] by (simp add: released_def boot_def)
  have "released s'" if m: "seatd_main E path rounds args lg s = Some (ret, lg', s')" for lg lg'
  proof -
    from m obtain q s1 where 1: "handle_options E (fst (getopt ''vhn:g:u:l:z'' args)) default_options s = Some (q, s1)"
      by (auto simp: seatd_main_def bind_eq_Some_conv)
    have r1: "released s1" using released_os_frame [OF handle_options_frame [OF 1]] s by simp
    show ?thesis
    proof (cases q)
      case (Inl n)
      with m 1 r1 show ?thesis by (simp add: seatd_main_def)
    next
      case (Inr opts)
      obtain lg2 s2 where 2: "log_init E lg s1 = (lg2, s2)" by force
      obtain ok s3 where 3: "clear_socket_path E path (unlink_existing_socket opts) s2 = (ok, s3)" by force
      have r3: "released s3"
        using r1 released_os_frame [OF log_init_frame [of s1 E lg]] 2
          released_os_frame [OF clear_socket_path_frame [of s2 E path "unlink_existing_socket opts"]] 3 by simp
      show ?thesis
      proof (cases ok)
        case True
        with m 1 Inr 2 3 obtain r4 s4 where 4: "server_init E s3 = Some (r4, s4)" by (auto simp: seatd_main_def Let_def bind_eq_Some_conv)
        note i = server_init_fails [OF r3 assms(1) 4]
        obtain fd s5 where 5: "open_socket E path (opt_uid opts) (opt_gid opts) s4 = (fd, s5)" by force
        obtain src s6 where 6: "poller_add_fd E fd EVENT_READABLE Server_handle_connection s5 = (src, s6)" by force
        have run: "(if r4 = - 1 then Some (1, s4) else if fd = - 1 then do { s \<leftarrow> server_finish E s5; Some (1, s) }
            else if src = None then stop_server E path 1 (sys_close E fd s6)
            else do { (ret, s) \<leftarrow> run_server E rounds (notify_readiness E (readiness opts) s6); stop_server E path ret s }) = Some (ret, s')"
          using m 1 Inr 2 3 4 5 6 True by (simp add: seatd_main_def Let_def bind_eq_Some_conv split: if_splits) (auto simp: bind_eq_Some_conv)
        have "server_inv s5" if "r4 \<noteq> - 1" using i that server_inv_os_frame [of s4 s5] open_socket_frame [of s4 E path "opt_uid opts" "opt_gid opts"] 5 by simp
        then show ?thesis
          using run i server_finish_released [OF _ assms(1)] server_part_released [OF assms(1,2) _ 5 _ 6, of rounds "readiness opts" ret s']
          by (auto simp: bind_eq_Some_conv split: if_splits)
      qed (use m 1 Inr 2 3 r3 in \<open>simp add: seatd_main_def\<close>)
    qed
  qed
  with assms(4) builtin_server_released [OF assms(1,2) s] show ?thesis by (auto simp: released_def)
qed

theorem servers_leave_nothing_witness:
  "\<exists>lg' s'. seatd_main (sample_env\<lparr>k_call := (\<lambda>_ _. Inr 1)\<rparr>) ''/run/seatd.sock'' [] [''-l'', ''debug'', ''-z''] initial_log boot = Some (1, lg', s')
    \<and> client_heap s' = Map.empty \<and> seat_heap s' = Map.empty"
proof -
  let ?E = "sample_env\<lparr>k_call := (\<lambda>_ _. Inr 1)\<rparr>"
  have "\<exists>lg' s'. seatd_main ?E ''/run/seatd.sock'' [] [''-l'', ''debug'', ''-z''] initial_log boot = Some (1, lg', s')"
    by (simp add: seatd_main_def handle_option_def parse_level_def default_options_def log_init_def initial_log_def clear_socket_path_def call_defs)
  moreover have "send_progress ?E" "recv_bounded ?E" by (simp_all add: sample_env_def send_progress_def recv_bounded_def)
  ultimately show ?thesis using servers_leave_nothing [OF _ _ os_frame_refl, of ?E] by blast
qed

section \<open>The choice of a backend\<close>

lemma try_backends_noop: "try_backends (I(Noop_impl := N)) L bs s = try_backends I L bs s"
proof (induction bs arbitrary: s)
  case (Cons x bs)
  then show ?case by (cases x) (simp cong: if_cong)
qed simp

lemma try_backends_fail:
  assumes "\<And>i s. i \<noteq> Noop_impl \<Longrightarrow> \<exists>s'. impl_open_seat (I i) L s = Some (None, s')"
  shows "\<exists>s'. try_backends I L bs s = Some (None, s') \<and> errno s' = ENOSYS"
proof (induction bs arbitrary: s)
  case (Cons x bs)
  obtain name i where x: "x = (name, i)" by force
  show ?case
  proof (cases "i = Noop_impl")
    case False
    from assms [OF False, of s] obtain s1 where "impl_open_seat (I i) L s = Some (None, s1)" by blast
    with False Cons.IH [of s1] show ?thesis by (simp add: x)
  qed (use Cons.IH in \<open>simp add: x\<close>)
qed simp

text \<open>Unless the application asks for it by name, the backend that grants everything is never used, whatever it
  does; and when all the others fail, opening a seat fails with \<open>ENOSYS\<close>.\<close>

lemma noop_only_by_name:
  assumes "env_var E ''LIBSEAT_BACKEND'' = None"
  shows "libseat_open_seat E B (I(Noop_impl := N)) listener s = libseat_open_seat E B I listener s
    \<and> ((\<forall>i L s. i \<noteq> Noop_impl \<longrightarrow> (\<exists>s'. impl_open_seat (I i) L s = Some (None, s'))) \<longrightarrow> listener \<noteq> None \<longrightarrow>
      (\<exists>s'. libseat_open_seat E B I listener s = Some (None, s') \<and> errno s' = ENOSYS))"
proof (cases listener)
  case (Some L)
  obtain lg t where "log_init E (lib_log s) s = (lg, t)" by force
  with Some assms try_backends_fail [of I L "impls B" "t\<lparr>lib_log := lg\<rparr>"] show ?thesis
    by (auto simp: libseat_open_seat_def try_backends_noop)
qed (simp add: libseat_open_seat_def)

end
