(* ===== verification/Seatd_Launch.thy ===== *)
theory Seatd_Launch
  imports Terminal Options
begin

unbundle bit_operations_syntax

text \<open>
  The program seatd-launch, \<open>seatd-launch/seatd-launch.c\<close>: it starts a seatd server, waits until that is
  ready, hands its socket to the user, gives up its privileges and runs a command. After a
  \<open>fork\<close> that answers 0 the model follows the child, otherwise the parent.
\<close>

text \<open>A process returns from \<open>main\<close> or exits, or another program takes its place.\<close>

datatype outcome = Exit int | Replaced

text \<open>The loop over the options: the log level in its array of 16 bytes, or the value that \<open>main\<close> returns.\<close>

fun launch_options :: "(char \<times> string) list \<Rightarrow> string \<Rightarrow> (int + string) option" where
  "launch_options [] loglevel = Some (Inr loglevel)"
| "launch_options ((c, arg) # cs) loglevel =
     (if c = CHR ''l'' then launch_options cs (take 15 arg)
      else if c = CHR ''v'' \<or> c = CHR ''h'' then Some (Inl 0)
      else if c = CHR ''?'' then Some (Inl 1)
      else None)"

text \<open>The child that becomes the server. The number of the pipe fits its array of 16 bytes.\<close>

definition start_seatd :: "env \<Rightarrow> string \<Rightarrow> int \<times> int \<Rightarrow> string \<Rightarrow> 'a os_scheme \<Rightarrow> outcome \<times> 'a os_scheme" where
  "start_seatd E install_path readiness_pipe loglevel s =
     (let s = sys_close E (fst readiness_pipe) s;
          (r, s) = sys_call E (C_execve install_path
            [''seatd'', ''-n'', dec_string (nat (snd readiness_pipe)), ''-l'', loglevel, ''-z''] []) s in
      (case r of Inl _ \<Rightarrow> Exit 1 | Inr _ \<Rightarrow> Replaced, s))"

text \<open>The loop that waits for the server: whether it is ready.\<close>

partial_function (option) wait_ready :: "env \<Rightarrow> int \<Rightarrow> int \<Rightarrow> 'a os_scheme \<Rightarrow> (bool \<times> 'a os_scheme) option" where
  [code]: "wait_ready E seatd_child fd s =
     (let (w, s) = sys_wait E seatd_child True s in
      if (case w of Inr (p, _) \<Rightarrow> p = seatd_child | Inl e \<Rightarrow> e \<noteq> EINTR \<and> e \<noteq> ECHILD) then Some (False, s)
      else let (r, s) = sys_call E (C_poll fd 1000) s in
        case r of
          Inl e \<Rightarrow> if e = EAGAIN \<or> e = EINTR then wait_ready E seatd_child fd s else Some (False, s)
        | Inr revents \<Rightarrow>
            if revents AND POLLIN \<noteq> 0 then
              (let (n, s) = sys_read E fd 1 s in
               case n of
                 Inl e \<Rightarrow> if e \<noteq> EINTR then Some (False, s) else wait_ready E seatd_child fd s
               | Inr bs \<Rightarrow> if bs \<noteq> [] then Some (True, s) else wait_ready E seatd_child fd s)
            else wait_ready E seatd_child fd s)"

text \<open>The mode is 0700; the user and the group are the real ones.\<close>

definition restrict_and_drop :: "env \<Rightarrow> string \<Rightarrow> 'a os_scheme \<Rightarrow> bool \<times> 'a os_scheme" where
  "restrict_and_drop E path s =
     (let (_, uid, gid) = self_ids E;
          (r, s) = sys_call E (C_chown path uid gid) s in
      if c_int r = - 1 then (False, s)
      else let (r, s) = sys_call E (C_chmod path 0x1C0) s in
      if c_int r = - 1 then (False, s)
      else let (r, s) = sys_call E (C_setgid gid) s in
      if c_int r = - 1 then (False, s)
      else let (r, s) = sys_call E (C_setuid uid) s in
      if c_int r = - 1 then (False, s) else (True, s))"

text \<open>The child that becomes the command.\<close>

definition start_command :: "env \<Rightarrow> string \<Rightarrow> string list \<Rightarrow> 'a os_scheme \<Rightarrow> outcome \<times> 'a os_scheme" where
  "start_command E path command s =
     (let (_, s) = sys_call E (C_setenv ''SEATD_SOCK'' path) s;
          (r, s) = sys_call E (C_execvp (hd command) command) s in
      (case r of Inl _ \<Rightarrow> Exit 1 | Inr _ \<Rightarrow> Replaced, s))"

text \<open>The loop that waits for the command: its status.\<close>

partial_function (option) wait_command :: "env \<Rightarrow> int \<Rightarrow> 'a os_scheme \<Rightarrow> (wait_status option \<times> 'a os_scheme) option" where
  [code]: "wait_command E child s =
     (let (w, s) = sys_wait E child False s in
      case w of
        Inr (p, status) \<Rightarrow> if p = child then Some (Some status, s) else wait_command E child s
      | Inl e \<Rightarrow> if e \<noteq> EINTR then Some (None, s) else wait_command E child s)"

text \<open>From the label \<open>error_seatd\<close> on.\<close>

definition launch_error :: "env \<Rightarrow> int \<Rightarrow> 'a os_scheme \<Rightarrow> outcome \<times> 'a os_scheme" where
  "launch_error E seatd_child s = (Exit 1, snd (sys_call E (C_kill seatd_child SIGTERM) s))"

text \<open>After the server is ready.\<close>

definition run_command :: "env \<Rightarrow> string \<Rightarrow> int \<Rightarrow> string list \<Rightarrow> 'a os_scheme \<Rightarrow> (outcome \<times> 'a os_scheme) option" where
  "run_command E path seatd_child command s =
     (let (ok, s) = restrict_and_drop E path s in
      if \<not> ok then Some (launch_error E seatd_child s)
      else let (r, s) = sys_call E C_fork s; child = c_int r in
      if child = - 1 then Some (launch_error E seatd_child s)
      else if child = 0 then Some (start_command E path command s)
      else do {
        (status, s) \<leftarrow> wait_command E child s;
        (case status of None \<Rightarrow> Some (launch_error E seatd_child s)
         | Some status \<Rightarrow> do {
             let (_, s) = sys_call E (C_kill seatd_child SIGTERM) s;
             (case status of
                Exited n \<Rightarrow> Some (Exit n, s)
              | Signaled sig \<Rightarrow> Some (Exit (128 + sig), s)
              | Other_status \<Rightarrow> None) }) })"

definition launch_main ::
    "env \<Rightarrow> string \<Rightarrow> string \<Rightarrow> string list \<Rightarrow> 'a os_scheme \<Rightarrow> (outcome \<times> 'a os_scheme) option" where
  "launch_main E install_path path args s = do {
     let (opts, command) = getopt ''vhl:'' args;
     r \<leftarrow> launch_options opts ''info'';
     (case r of Inl ret \<Rightarrow> Some (Exit ret, s)
      | Inr loglevel \<Rightarrow>
          if command = [] then Some (Exit 1, s)
          else let (r, s) = sys_pipe E s in
            case r of Inl _ \<Rightarrow> Some (Exit 1, s)
            | Inr readiness_pipe \<Rightarrow>
                let (r, s) = sys_call E C_fork s; seatd_child = c_int r in
                if seatd_child = - 1 then Some (Exit 1, s)
                else if seatd_child = 0 then Some (start_seatd E install_path readiness_pipe loglevel s)
                else do {
                  let s = sys_close E (snd readiness_pipe) s;
                  (ready, s) \<leftarrow> wait_ready E seatd_child (fst readiness_pipe) s;
                  if \<not> ready then Some (launch_error E seatd_child s)
                  else run_command E path seatd_child command (sys_close E (fst readiness_pipe) s) }) }"

section \<open>What the command can rely on\<close>

definition no_exec :: "trace \<Rightarrow> bool" where
  "no_exec tr \<longleftrightarrow> (\<forall>f a r. E_call (C_execvp f a) r \<notin> set tr)"

lemma no_exec_simps [simp]:
  "no_exec []"
  "no_exec (E_call c r # tr) = ((\<forall>f a. c \<noteq> C_execvp f a) \<and> no_exec tr)"
  "no_exec (E_wait p h w # tr) = no_exec tr"
  "no_exec (E_read fd n q # tr) = no_exec tr"
  "no_exec (E_close fd u # tr) = no_exec tr"
  "no_exec (E_pipe v # tr) = no_exec tr"
  by (auto simp: no_exec_def)

lemma trace_calls [simp]:
  "trace (snd (sys_call E c s)) = E_call c (k_call E (trace s) c) # trace s"
  "trace (sys_close E fd s) = E_close fd (k_close E (trace s) fd) # trace s"
  "trace (snd (sys_pipe E s)) = E_pipe (k_pipe E (trace s)) # trace s"
  "trace (snd (sys_wait E pid b s)) = E_wait pid b (k_wait E (trace s) pid b) # trace s"
  "trace (snd (sys_read E fd n s)) = E_read fd n (k_read E (trace s) fd n) # trace s"
  "fst (sys_call E c s) = k_call E (trace s) c"
  "fst (sys_pipe E s) = k_pipe E (trace s)"
  "fst (sys_wait E pid b s) = k_wait E (trace s) pid b"
  "fst (sys_read E fd n s) = k_read E (trace s) fd n"
  by (simp_all add: sys_call_def sys_close_def sys_pipe_def sys_wait_def sys_read_def Let_def)

lemma wait_ready_no_exec:
  assumes "wait_ready E child fd s = Some (r, s')" and "no_exec (trace s)"
  shows "no_exec (trace s')"
proof -
  let ?P = "\<lambda>E child fd s (r, s'). no_exec (trace s) \<longrightarrow> no_exec (trace s')"
  have "?P E child fd s (r, s')"
  proof (rule wait_ready.raw_induct [where P = ?P, OF _ assms(1)])
    fix f E child fd and s :: "'a os_scheme" and y
    assume IH: "\<And>E child fd s y. f E child fd s = Some y \<Longrightarrow> ?P E child fd s y"
      and eq: "(let (w, s) = sys_wait E child True s in
        if (case w of Inr (p, _) \<Rightarrow> p = child | Inl e \<Rightarrow> e \<noteq> EINTR \<and> e \<noteq> ECHILD) then Some (False, s)
        else let (r, s) = sys_call E (C_poll fd 1000) s in
          case r of
            Inl e \<Rightarrow> if e = EAGAIN \<or> e = EINTR then f E child fd s else Some (False, s)
          | Inr revents \<Rightarrow>
              if revents AND POLLIN \<noteq> 0 then
                (let (n, s) = sys_read E fd 1 s in
                 case n of
                   Inl e \<Rightarrow> if e \<noteq> EINTR then Some (False, s) else f E child fd s
                 | Inr bs \<Rightarrow> if bs \<noteq> [] then Some (True, s) else f E child fd s)
              else f E child fd s) = Some y"
    let ?s1 = "snd (sys_wait E child True s)"
    let ?s2 = "snd (sys_call E (C_poll fd 1000) ?s1)"
    let ?s3 = "snd (sys_read E fd 1 ?s2)"
    from eq have "snd y \<in> {?s1, ?s2, ?s3} \<or> f E child fd ?s2 = Some y \<or> f E child fd ?s3 = Some y"
      by (auto simp: Let_def split_def split: if_splits sum.splits)
    moreover have "no_exec (trace s) \<longrightarrow> no_exec (trace ?s1) \<and> no_exec (trace ?s2) \<and> no_exec (trace ?s3)" by simp
    ultimately show "?P E child fd s y" using IH [of E child fd ?s2 y] IH [of E child fd ?s3 y] by (cases y) auto
  qed
  with assms(2) show ?thesis by simp
qed

lemma wait_command_no_exec:
  assumes "wait_command E child s = Some (r, s')" and "no_exec (trace s)"
  shows "no_exec (trace s')"
proof -
  let ?P = "\<lambda>E child s (r, s'). no_exec (trace s) \<longrightarrow> no_exec (trace s')"
  have "?P E child s (r, s')"
  proof (rule wait_command.raw_induct [where P = ?P, OF _ assms(1)])
    fix f E child and s :: "'a os_scheme" and y
    assume IH: "\<And>E child s y. f E child s = Some y \<Longrightarrow> ?P E child s y"
      and eq: "(let (w, s) = sys_wait E child False s in
        case w of
          Inr (p, status) \<Rightarrow> if p = child then Some (Some status, s) else f E child s
        | Inl e \<Rightarrow> if e \<noteq> EINTR then Some (None, s) else f E child s) = Some y"
    let ?s1 = "snd (sys_wait E child False s)"
    from eq have "snd y = ?s1 \<or> f E child ?s1 = Some y"
      by (auto simp: Let_def split_def split: if_splits sum.splits)
    moreover have "no_exec (trace s) \<longrightarrow> no_exec (trace ?s1)" by simp
    ultimately show "?P E child s y" using IH [of E child ?s1 y] by (cases y) auto
  qed
  with assms(2) show ?thesis by simp
qed

text \<open>The history when the privileges have been given up.\<close>

definition dropped :: "env \<Rightarrow> string \<Rightarrow> trace \<Rightarrow> bool" where
  "dropped E path tr \<longleftrightarrow> (case self_ids E of (_, uid, gid) \<Rightarrow>
     \<exists>a b c d tr'. tr = E_call (C_setuid uid) (Inr a) # E_call (C_setgid gid) (Inr b)
       # E_call (C_chmod path 0x1C0) (Inr c) # E_call (C_chown path uid gid) (Inr d) # tr' \<and> no_exec tr')"

lemma restrict_and_drop_trace:
  assumes "restrict_and_drop E path s = (ok, s')" and "no_exec (trace s)"
  shows "no_exec (trace s') \<and> (ok \<longrightarrow> dropped E path (trace s'))"
proof -
  obtain pid uid gid where ids: "self_ids E = (pid, uid, gid)" by (cases "self_ids E")
  let ?s1 = "snd (sys_call E (C_chown path uid gid) s)"
  let ?s2 = "snd (sys_call E (C_chmod path 0x1C0) ?s1)"
  let ?s3 = "snd (sys_call E (C_setgid gid) ?s2)"
  let ?s4 = "snd (sys_call E (C_setuid uid) ?s3)"
  from assms(1) have "ok \<and> s' = ?s4 \<and> (\<exists>a b c d. k_call E (trace ?s3) (C_setuid uid) = Inr a \<and> k_call E (trace ?s2) (C_setgid gid) = Inr b
      \<and> k_call E (trace ?s1) (C_chmod path 0x1C0) = Inr c \<and> k_call E (trace s) (C_chown path uid gid) = Inr d)
    \<or> \<not> ok \<and> s' \<in> {?s1, ?s2, ?s3, ?s4}"
    by (auto simp: restrict_and_drop_def ids Let_def split_def c_int_def split: if_splits sum.splits)
  then show ?thesis using assms(2) by (auto simp: dropped_def ids)
qed


lemma run_command_exec:
  assumes "run_command E path child command s = Some (out, s')" and "no_exec (trace s)" and "\<not> no_exec (trace s')"
  shows "\<exists>r r2 tr. trace s' = E_call (C_execvp (hd command) command) r # E_call (C_setenv ''SEATD_SOCK'' path) r2 # E_call C_fork (Inr 0) # tr
    \<and> dropped E path tr \<and> no_exec tr"
proof -
  obtain ok s1 where rd: "restrict_and_drop E path s = (ok, s1)" by force
  note d = restrict_and_drop_trace [OF rd assms(2)]
  obtain s2 where call: "sys_call E C_fork s1 = (k_call E (trace s1) C_fork, s2)" by (simp add: sys_call_def Let_def)
  then have t2: "trace s2 = E_call C_fork (k_call E (trace s1) C_fork) # trace s1" using trace_calls(1) [of E C_fork s1] by simp
  have kill: "no_exec (trace t) \<Longrightarrow> no_exec (trace (snd (sys_call E (C_kill child SIGTERM) t)))" for t :: "'a os_scheme" by simp
  have err: "no_exec (trace t) \<Longrightarrow> no_exec (trace (snd (launch_error E child t)))" for t :: "'a os_scheme" by (simp add: launch_error_def)
  have n2: "no_exec (trace s2)" using d t2 by simp
  have ok: "ok"
  proof (rule ccontr)
    assume "\<not> ok"
    then have "s' = snd (launch_error E child s1)" using assms(1) rd by (simp add: run_command_def)
    with err [of s1] d assms(3) show False by simp
  qed
  let ?c = "c_int (k_call E (trace s1) C_fork)"
  have run: "(if ?c = - 1 then Some (launch_error E child s2) else if ?c = 0 then Some (start_command E path command s2)
      else do {
        (status, s) \<leftarrow> wait_command E ?c s2;
        (case status of None \<Rightarrow> Some (launch_error E child s)
         | Some status \<Rightarrow> do {
             let (_, s) = sys_call E (C_kill child SIGTERM) s;
             (case status of Exited n \<Rightarrow> Some (Exit n, s) | Signaled sig \<Rightarrow> Some (Exit (128 + sig), s) | Other_status \<Rightarrow> None) }) }) = Some (out, s')"
    using assms(1) rd ok by (simp add: run_command_def call Let_def)
  have "?c = 0"
  proof (rule ccontr)
    assume nz: "?c \<noteq> 0"
    show False
    proof (cases "?c = - 1")
      case True
      with run have "s' = snd (launch_error E child s2)" by simp
      with err [OF n2] assms(3) show False by simp
    next
      case False
      with run nz obtain st s3 where w: "wait_command E ?c s2 = Some (st, s3)"
        and rest: "(case st of None \<Rightarrow> Some (launch_error E child s3)
         | Some status \<Rightarrow> do {
             let (_, s) = sys_call E (C_kill child SIGTERM) s3;
             (case status of Exited n \<Rightarrow> Some (Exit n, s) | Signaled sig \<Rightarrow> Some (Exit (128 + sig), s) | Other_status \<Rightarrow> None) }) = Some (out, s')"
        by (auto simp: bind_eq_Some_conv)
      have "s' = snd (launch_error E child s3) \<or> s' = snd (sys_call E (C_kill child SIGTERM) s3)"
        using rest by (cases st) (auto simp: split_def Let_def split: wait_status.splits)
      with err [OF wait_command_no_exec [OF w n2]] kill [OF wait_command_no_exec [OF w n2]] assms(3) show False by auto
    qed
  qed
  then have "k_call E (trace s1) C_fork = Inr 0" by (simp add: c_int_def split: sum.splits)
  moreover have "s' = snd (start_command E path command s2)" using run \<open>?c = 0\<close> by (simp add: prod_eq_iff)
  ultimately show ?thesis using ok d t2 by (simp add: start_command_def Let_def split_def)
qed

text \<open>
  A server that becomes ready, and a command that ends. The first fork answers the process of the server and every further
  one that of the command, which is another; the system calls in between succeed. Waiting for the command gives its status; nothing
  is said of waiting for the server until it ends.
\<close>

definition forked :: "trace \<Rightarrow> bool" where
  "forked tr \<longleftrightarrow> (\<exists>r. E_call C_fork r \<in> set tr)"

definition launches :: "env \<Rightarrow> int \<Rightarrow> int \<Rightarrow> wait_status \<Rightarrow> int \<times> int \<Rightarrow> bool" where
  "launches E server child status p \<longleftrightarrow> 0 < server \<and> 0 < child \<and> server \<noteq> child
     \<and> (\<forall>tr. k_pipe E tr = Inr p) \<and> (\<forall>tr. k_call E tr C_fork = Inr (if forked tr then child else server))
     \<and> (\<forall>tr. k_call E tr (C_poll (fst p) 1000) = Inr POLLIN) \<and> (\<forall>tr. \<exists>x. k_read E tr (fst p) 1 = Inr [x])
     \<and> (\<forall>tr path u g. k_call E tr (C_chown path u g) = Inr 0) \<and> (\<forall>tr path m. k_call E tr (C_chmod path m) = Inr 0)
     \<and> (\<forall>tr g. k_call E tr (C_setgid g) = Inr 0) \<and> (\<forall>tr u. k_call E tr (C_setuid u) = Inr 0)
     \<and> (\<forall>tr. k_wait E tr server True = Inr (0, Other_status)) \<and> (\<forall>tr. k_wait E tr child False = Inr (child, status))"

lemma forked_Cons [simp]: "forked (e # tr) \<longleftrightarrow> (\<exists>r. e = E_call C_fork r) \<or> forked tr"
  by (auto simp: forked_def)

text \<open>The value that a shell gives for a status.\<close>

fun exit_value :: "wait_status \<Rightarrow> int option" where
  "exit_value (Exited n) = Some n"
| "exit_value (Signaled sig) = Some (128 + sig)"
| "exit_value Other_status = None"

lemma wait_ready_returns:
  assumes "launches E server child status p" and "forked (trace s)"
  shows "\<exists>s'. wait_ready E server (fst p) s = Some (True, s') \<and> forked (trace s')"
proof -
  let ?s = "snd (sys_read E (fst p) 1 (snd (sys_call E (C_poll (fst p) 1000) (snd (sys_wait E server True s)))))"
  have "k_wait E tr server True = Inr (0, Other_status)" "k_call E tr (C_poll (fst p) 1000) = Inr POLLIN" "\<exists>x. k_read E tr (fst p) 1 = Inr [x]" "0 < server" for tr
    using assms(1) by (auto simp: launches_def)
  moreover have "POLLIN AND POLLIN \<noteq> 0" by (simp add: POLLIN_def)
  ultimately have "wait_ready E server (fst p) s = Some (True, ?s)"
    by (subst wait_ready.simps) (auto simp: Let_def split_def split: sum.split, (metis sum.distinct(1) sum.inject(2) list.distinct(1))+)
  then show ?thesis using assms(2) by simp
qed

text \<open>A kernel in which the launcher's first child is process 50 and the second fork answers \<open>p\<close>.\<close>

definition launch_env :: "int \<Rightarrow> int \<Rightarrow> env" where
  "launch_env p n = sample_env\<lparr>k_call := (\<lambda>tr c. if c = C_poll 3 1000 then Inr POLLIN
       else if c = C_fork then Inr (if length tr < 3 then 50 else p) else Inr 0),
     k_wait := (\<lambda>_ pid nohang. if nohang then Inr (0, Other_status) else Inr (pid, Exited n)), k_read := (\<lambda>_ _ _. Inr [0x0A])\<rparr>"

lemma launch_env_simps [simp]:
  "k_call (launch_env p n) tr c = (if c = C_poll 3 1000 then Inr POLLIN
     else if c = C_fork then Inr (if length tr < 3 then 50 else p) else Inr 0)"
  "k_wait (launch_env p n) tr pid nohang = (if nohang then Inr (0, Other_status) else Inr (pid, Exited n))"
  "k_read (launch_env p n) tr fd m = Inr [0x0A]" "k_pipe (launch_env p n) tr = Inr (3, 4)" "self_ids (launch_env p n) = (1, 0, 0)"
  by (simp_all add: launch_env_def sample_env_def)

text \<open>A kernel in which the server is process 50, the command process 51, and only the command can be waited for.\<close>

definition status_env :: "wait_status \<Rightarrow> env" where
  "status_env status = sample_env\<lparr>k_call := (\<lambda>tr c. if c = C_poll 3 1000 then Inr POLLIN
       else if c = C_fork then Inr (if forked tr then 51 else 50) else Inr 0),
     k_wait := (\<lambda>_ pid nohang. if nohang then Inr (0, Other_status) else if pid = 51 then Inr (51, status) else Inl EINTR),
     k_read := (\<lambda>_ _ _. Inr [0x0A])\<rparr>"

lemma status_env_launches: "launches (status_env status) 50 51 status (3, 4)"
  by (simp add: launches_def status_env_def sample_env_def)

section \<open>Properties\<close>

text \<open>C7: the command is never started with privileges: whenever seatd-launch tries to start it, it has before,
  with success and in this order, given the socket to the user, closed it to everyone else,
  and changed its group and then its user to the real ones.\<close>

theorem privileges_dropped_first:
  assumes "launch_main E install_path path args s = Some (out, s')" and "no_exec (trace s)" and "E_call (C_execvp f a) r \<in> set (trace s')"
  shows "\<exists>r2 tr. trace s' = E_call (C_execvp f a) r # E_call (C_setenv ''SEATD_SOCK'' path) r2 # E_call C_fork (Inr 0) # tr \<and> dropped E path tr"
proof -
  obtain opts command where g: "getopt ''vhl:'' args = (opts, command)" by force
  have ex: "\<not> no_exec (trace s')" using assms(3) by (auto simp: no_exec_def)
  obtain s1 where pipe: "sys_pipe E s = (k_pipe E (trace s), s1)" by (simp add: sys_pipe_def Let_def)
  obtain s2 where call: "sys_call E C_fork s1 = (k_call E (trace s1) C_fork, s2)" by (simp add: sys_call_def Let_def)
  have n2: "no_exec (trace s1)" "no_exec (trace s2)"
    using assms(2) trace_calls(3) [of E s] trace_calls(1) [of E C_fork s1] pipe call by simp_all
  have child: "no_exec (trace (snd (start_seatd E install_path p l s2)))" for p l using n2 by (simp add: start_seatd_def Let_def split_def)
  have err: "no_exec (trace t) \<Longrightarrow> no_exec (trace (snd (launch_error E c t)))" for c and t :: "'a os_scheme" by (simp add: launch_error_def)
  from assms(1) obtain r where r: "launch_options opts ''info'' = Some r" by (auto simp: launch_main_def g bind_eq_Some_conv)
  obtain l where l: "r = Inr l" using assms(1,2) ex r by (cases r) (auto simp: launch_main_def g)
  have cmd: "command \<noteq> []" using assms(1,2) ex by (auto simp: launch_main_def g r l)
  obtain p where p: "k_pipe E (trace s) = Inr p"
    using assms(1) ex n2(1) cmd by (cases "k_pipe E (trace s)") (auto simp: launch_main_def g r l pipe)
  let ?c = "c_int (k_call E (trace s1) C_fork)"
  have run: "(if ?c = - 1 then Some (Exit 1, s2) else if ?c = 0 then Some (start_seatd E install_path p l s2)
      else do {
        (ready, s) \<leftarrow> wait_ready E ?c (fst p) (sys_close E (snd p) s2);
        if \<not> ready then Some (launch_error E ?c s) else run_command E path ?c command (sys_close E (fst p) s) }) = Some (out, s')"
    using assms(1) cmd by (simp add: launch_main_def g r l pipe p call Let_def cong: if_cong)
  have c: "?c \<noteq> - 1" "?c \<noteq> 0" using run ex n2(2) child [of p l] by (auto split: if_splits)
  with run obtain ready s3 where w: "wait_ready E ?c (fst p) (sys_close E (snd p) s2) = Some (ready, s3)"
    and rest: "(if \<not> ready then Some (launch_error E ?c s3) else run_command E path ?c command (sys_close E (fst p) s3)) = Some (out, s')"
    by (auto simp: bind_eq_Some_conv)
  have n3: "no_exec (trace s3)" using wait_ready_no_exec [OF w] n2(2) by simp
  have "ready" using rest err [OF n3, of ?c] ex by (auto split: if_splits)
  with rest have rc: "run_command E path ?c command (sys_close E (fst p) s3) = Some (out, s')" by simp
  have "no_exec (trace (sys_close E (fst p) s3))" using n3 by simp
  from run_command_exec [OF rc this ex] assms(3) show ?thesis by (auto simp: no_exec_def)
qed


theorem privileges_dropped_first_witness:
  "\<exists>s' r r2 tr. launch_main (launch_env 0 0) ''/bin/seatd'' ''/run/seatd.sock'' [''sway''] \<lparr>errno = 0, trace = []\<rparr> = Some (Replaced, s')
    \<and> trace s' = E_call (C_execvp ''sway'' [''sway'']) r # E_call (C_setenv ''SEATD_SOCK'' ''/run/seatd.sock'') r2 # E_call C_fork (Inr 0) # tr
    \<and> dropped (launch_env 0 0) ''/run/seatd.sock'' tr"
proof -
  let ?E = "launch_env 0 0"
  have ready: "wait_ready ?E 50 3 t = Some (True, snd (sys_read ?E 3 1 (snd (sys_call ?E (C_poll 3 1000) (snd (sys_wait ?E 50 True t))))))" for t :: os
    by (subst wait_ready.simps) (simp add: Let_def split_def POLLIN_def)
  have "\<exists>s' r. launch_main ?E ''/bin/seatd'' ''/run/seatd.sock'' [''sway''] \<lparr>errno = 0, trace = []\<rparr> = Some (Replaced, s')
      \<and> E_call (C_execvp ''sway'' [''sway'']) r \<in> set (trace s')"
    by (simp add: launch_main_def run_command_def restrict_and_drop_def start_command_def ready Let_def split_def c_int_def)
  then obtain s' r where m: "launch_main ?E ''/bin/seatd'' ''/run/seatd.sock'' [''sway''] \<lparr>errno = 0, trace = []\<rparr> = Some (Replaced, s')"
      "E_call (C_execvp ''sway'' [''sway'']) r \<in> set (trace s')" by blast
  from privileges_dropped_first [OF m(1) _ m(2)] m(1) show ?thesis by simp blast
qed

text \<open>C33: when the server gets ready and the command ends, seatd-launch returns the status of the command, as a shell does, after it
  has waited for the process of the command, and the last thing it does is to terminate the process of the server.\<close>

theorem launch_returns_status:
  assumes "launches E server child status p" and "\<not> forked (trace s)" and "exit_value status = Some n"
    and "fst (getopt ''vhl:'' args) = []" and "snd (getopt ''vhl:'' args) \<noteq> []"
  shows "\<exists>s' r tr. launch_main E install_path path args s = Some (Exit n, s')
    \<and> trace s' = E_call (C_kill server SIGTERM) r # E_wait child False (Inr (child, status)) # tr"
proof -
  obtain cmd where g: "getopt ''vhl:'' args = ([], cmd)" "cmd \<noteq> []" using assms(4,5) by (metis prod.collapse)
  have k: "k_pipe E tr = Inr p" "k_call E tr C_fork = Inr (if forked tr then child else server)" "k_call E tr (C_chown q u v) = Inr 0"
      "k_call E tr (C_chmod q m) = Inr 0" "k_call E tr (C_setgid v) = Inr 0" "k_call E tr (C_setuid u) = Inr 0"
      "k_wait E tr child False = Inr (child, status)" "0 < server" "0 < child"
    for tr q u v m using assms(1) by (simp_all add: launches_def)
  have wc: "wait_command E child t = Some (Some status, snd (sys_wait E child False t))" for t :: "'a os_scheme"
    by (subst wait_command.simps) (simp add: Let_def split_def k(7))
  have rc: "\<exists>s' r tr. run_command E path server cmd t = Some (Exit n, s')
      \<and> trace s' = E_call (C_kill server SIGTERM) r # E_wait child False (Inr (child, status)) # tr" if f: "forked (trace t)" for t :: "'a os_scheme"
  proof -
    obtain t1 where t1: "restrict_and_drop E path t = (True, t1)" "forked (trace t1)"
      using f by (cases "self_ids E") (simp add: restrict_and_drop_def Let_def split_def k c_int_def)
    then show ?thesis using k(9) assms(3)
      by (cases status) (simp_all add: run_command_def Let_def split_def k(2,7) c_int_def wc)
  qed
  obtain t where t: "wait_ready E server (fst p) (sys_close E (snd p) (snd (sys_call E C_fork (snd (sys_pipe E s))))) = Some (True, t)" "forked (trace t)"
    using wait_ready_returns [OF assms(1), of "sys_close E (snd p) (snd (sys_call E C_fork (snd (sys_pipe E s))))"] by auto
  have "launch_main E install_path path args s = run_command E path server cmd (sys_close E (fst p) t)"
    using g(2) k(8) t(1) assms(2) by (simp add: launch_main_def g(1) Let_def split_def k(1,2) c_int_def)
  with rc [of "sys_close E (fst p) t"] t(2) show ?thesis by simp
qed

theorem launch_returns_status_witness:
  "\<exists>s' r tr. launch_main (status_env (Signaled 9)) ''/bin/seatd'' ''/run/seatd.sock'' [''sway''] \<lparr>errno = 0, trace = []\<rparr> = Some (Exit 137, s')
    \<and> trace s' = E_call (C_kill 50 SIGTERM) r # E_wait 51 False (Inr (51, Signaled 9)) # tr"
proof -
  have "\<not> forked (trace \<lparr>errno = 0, trace = []\<rparr>)" by (simp add: forked_def)
  from launch_returns_status [OF status_env_launches this, of "Signaled 9" 137 "[''sway'']" "''/bin/seatd''" "''/run/seatd.sock''"] show ?thesis by simp
qed

text \<open>C28: if the server ends before it is ready while the launcher ignores \<open>SIGCHLD\<close>, so that \<open>waitpid\<close> reports \<open>ECHILD\<close> and the
  pipe a hangup, seatd-launch waits for it forever.\<close>

theorem launch_waits_forever:
  assumes "\<forall>tr. k_wait E tr child True = Inl ECHILD" and "\<forall>tr. k_call E tr (C_poll fd 1000) = Inr POLLHUP"
  shows "wait_ready E child fd s = None"
proof (rule ccontr)
  let ?H = "\<lambda>E child fd. (\<forall>tr. k_wait E tr child True = Inl ECHILD) \<and> (\<forall>tr. k_call E tr (C_poll fd 1000) = Inr POLLHUP)"
  assume "wait_ready E child fd s \<noteq> None"
  then obtain y where y: "wait_ready E child fd s = Some y" by blast
  have "\<not> ?H E child fd"
  proof (rule wait_ready.raw_induct [where P = "\<lambda>E child fd s y. \<not> ?H E child fd", OF _ y])
    fix f E child fd and s :: "'a os_scheme" and y
    assume IH: "\<And>E child fd s y. f E child fd s = Some y \<Longrightarrow> \<not> ?H E child fd"
      and eq: "(let (w, s) = sys_wait E child True s in
        if (case w of Inr (p, _) \<Rightarrow> p = child | Inl e \<Rightarrow> e \<noteq> EINTR \<and> e \<noteq> ECHILD) then Some (False, s)
        else let (r, s) = sys_call E (C_poll fd 1000) s in
          case r of
            Inl e \<Rightarrow> if e = EAGAIN \<or> e = EINTR then f E child fd s else Some (False, s)
          | Inr revents \<Rightarrow>
              if revents AND POLLIN \<noteq> 0 then
                (let (n, s) = sys_read E fd 1 s in
                 case n of
                   Inl e \<Rightarrow> if e \<noteq> EINTR then Some (False, s) else f E child fd s
                 | Inr bs \<Rightarrow> if bs \<noteq> [] then Some (True, s) else f E child fd s)
              else f E child fd s) = Some y"
    have "POLLHUP AND POLLIN = 0" by (simp add: POLLHUP_def POLLIN_def)
    with eq have "\<exists>t. f E child fd t = Some y" if "?H E child fd" using that by (auto simp: Let_def split_def)
    with IH show "\<not> ?H E child fd" by blast
  qed
  with assms show False by blast
qed

theorem launch_waits_forever_witness:
  "wait_ready (sample_env\<lparr>k_wait := (\<lambda>_ _ _. Inl ECHILD), k_call := (\<lambda>_ _. Inr POLLHUP)\<rparr>) 50 3 \<lparr>errno = 0, trace = []\<rparr> = None"
  using launch_waits_forever [of "sample_env\<lparr>k_wait := (\<lambda>_ _ _. Inl ECHILD), k_call := (\<lambda>_ _. Inr POLLHUP)\<rparr>" 50 3] by simp

end
