(* ===== verification/Libseat_Logind.thy ===== *)
theory Libseat_Logind
  imports Libseat
begin

text \<open>
  The logind backend, \<open>libseat/backend/logind.c\<close>. The D-Bus library and the service on the other side of
  the bus are not part of the sources: a function of type \<open>bus\<close> answers every call of the library, and
  the calls with their answers are recorded in the state, newest first. The listener of the
  application is a parameter, as in the other backends. The library calls the handlers of the backend only
  from \<open>sd_bus_process\<close>.
\<close>

unbundle bit_operations_syntax

section \<open>The bus library\<close>

text \<open>
  What one call that reads from a message gives: its result and what it stores, where the type string of the
  call says which of the fields are stored.
\<close>

record bus_data =
  ret :: int
  d_fd :: int
  d_major :: "32 word"
  d_minor :: "32 word"
  d_str :: string
  d_bool :: bool

text \<open>A message: what successive reading calls on it give. After the last one there is nothing more to read.\<close>

type_synonym bus_message = "bus_data list"

definition no_data :: "int \<Rightarrow> bus_data" where
  "no_data r = \<lparr>ret = r, d_fd = 0, d_major = 0, d_minor = 0, d_str = '''', d_bool = False\<rparr>"

fun next_item :: "bus_message \<Rightarrow> bus_data \<times> bus_message" where
  "next_item [] = (no_data 0, [])"
| "next_item (d # m) = (d, m)"

datatype bus_arg = Arg_u "32 word" | Arg_b bool | Arg_s "string option"

text \<open>The calls, with object path, interface and member; the destination is always \<open>org.freedesktop.login1\<close>.\<close>

datatype bus_call =
    Bus_default_system
  | Bus_call_method "string option" string string "bus_arg list"
  | Bus_call_method_async "string option" string string
  | Bus_get_property "string option" string string
  | Bus_match_signal "string option" string string
  | Bus_get_n_queued_read
  | Bus_get_n_queued_write
  | Bus_get_fd
  | Bus_process
  | Bus_unref
  | Session_is_active string
  | Pid_get_session int
  | Uid_get_display int
  | Session_get_seat "string option"

datatype bus_handler = Ping_handler | Handle_pause_device | Handle_properties_changed

text \<open>
  The answer to a call: also a number of messages, the reply to a method call, and the handler that
  \<open>sd_bus_process\<close> runs on a message.
\<close>

record bus_answer = bus_data +
  d_count :: nat
  d_reply :: bus_message
  d_incoming :: "(bus_handler \<times> bus_message) option"

type_synonym bus_history = "(bus_call \<times> bus_answer) list"

text \<open>The library and the service behind it; the answer may depend on everything that has happened.\<close>

type_synonym bus = "bus_history \<Rightarrow> trace \<Rightarrow> bus_call \<Rightarrow> bus_answer"

section \<open>The backend\<close>

text \<open>\<open>lg_bus\<close> is whether there is a connection to the bus; strings are null until they are set.\<close>

record backend_logind =
  lg_bus :: bool
  lg_id :: "string option"
  lg_seat :: "string option"
  lg_path :: "string option"
  lg_seat_path :: "string option"
  lg_active :: bool
  lg_initial_setup :: bool

record lgs = libs +
  logind :: "backend_logind option"
  bus_log :: bus_history

type_synonym 'z logind_listener = "'z lgs_ext seat_listener"

definition bus_do :: "bus \<Rightarrow> bus_call \<Rightarrow> 'z lgs_scheme \<Rightarrow> bus_answer \<times> 'z lgs_scheme" where
  "bus_do B c s = (let a = B (bus_log s) (trace s) c in (a, s\<lparr>bus_log := (c, a) # bus_log s\<rparr>))"

definition MANAGER :: string where "MANAGER = ''org.freedesktop.login1.Manager''"
definition SESSION :: string where "SESSION = ''org.freedesktop.login1.Session''"
definition SEAT :: string where "SEAT = ''org.freedesktop.login1.Seat''"
definition PEER :: string where "PEER = ''org.freedesktop.DBus.Peer''"
definition PROPERTIES :: string where "PROPERTIES = ''org.freedesktop.DBus.Properties''"
definition LOGIN1 :: string where "LOGIN1 = ''/org/freedesktop/login1''"

text \<open>The parts of a device number as \<open>sys/sysmacros.h\<close> takes them out.\<close>

definition dev_major :: "int \<Rightarrow> 32 word" where
  "dev_major dev = (let d = word_of_int dev :: 64 word in
     ucast (drop_bit 8 (d AND 0xfff00) OR drop_bit 32 (d AND 0xfffff00000000000)))"

definition dev_minor :: "int \<Rightarrow> 32 word" where
  "dev_minor dev = (let d = word_of_int dev :: 64 word in
     ucast ((d AND 0xff) OR drop_bit 12 (d AND 0xffffff00000)))"

definition logind_destroy :: "bus \<Rightarrow> backend_logind \<Rightarrow> 'z lgs_scheme \<Rightarrow> 'z lgs_scheme" where
  "logind_destroy B b s = (if lg_bus b then snd (bus_do B Bus_unref s) else s)"

definition ping_handler :: "bus_message \<Rightarrow> int" where
  "ping_handler m = (if d_bool (fst (next_item m)) then - 1 else 0)"

definition logind_send_ping :: "bus \<Rightarrow> 'z lgs_scheme \<Rightarrow> int \<times> 'z lgs_scheme" where
  "logind_send_ping B s =
     (let (a, s) = bus_do B (Bus_call_method_async (Some LOGIN1) PEER ''Ping'') s in
      (if ret a < 0 then ret a else 0, s))"

definition logind_check_pending_events :: "bus \<Rightarrow> 'z lgs_scheme \<Rightarrow> 'z lgs_scheme" where
  "logind_check_pending_events B s =
     (let (rd, s) = bus_do B Bus_get_n_queued_read s; (wr, s) = bus_do B Bus_get_n_queued_write s in
      if d_count rd = 0 \<and> d_count wr = 0 then s else snd (logind_send_ping B s))"

text \<open>The second result is what is stored through the pointer.\<close>

definition logind_open_device ::
    "env \<Rightarrow> bus \<Rightarrow> string \<Rightarrow> 'z lgs_scheme \<Rightarrow> (int \<times> int option \<times> 'z lgs_scheme) option" where
  "logind_open_device E B path s = do {
     b \<leftarrow> logind s;
     let (r, s) = sys_call E (C_stat path) s;
     (case r of Inl _ \<Rightarrow> Some (- 1, None, s)
      | Inr rdev \<Rightarrow>
          let (a, s) = bus_do B (Bus_call_method (lg_path b) SESSION ''TakeDevice''
                [Arg_u (dev_major rdev), Arg_u (dev_minor rdev)]) s;
              d = fst (next_item (d_reply a)) in
          if ret a < 0 \<or> ret d < 0 then Some (- 1, None, logind_check_pending_events B s)
          else let (tmpfd, s) = sys_fcntl E (d_fd d) (F_DUPFD_CLOEXEC 0) s in
            if tmpfd < 0 then Some (- 1, None, logind_check_pending_events B s)
            else Some (tmpfd, Some tmpfd, logind_check_pending_events B s)) }"

definition logind_close_device :: "env \<Rightarrow> bus \<Rightarrow> int \<Rightarrow> 'z lgs_scheme \<Rightarrow> (int \<times> 'z lgs_scheme) option" where
  "logind_close_device E B dev_id s = do {
     b \<leftarrow> logind s;
     if dev_id < 0 then Some (- 1, s\<lparr>errno := EINVAL\<rparr>)
     else let (r, s) = sys_call E (C_fstat dev_id) s in
       case r of Inl _ \<Rightarrow> Some (- 1, s)
       | Inr rdev \<Rightarrow>
           let (a, s) = bus_do B (Bus_call_method (lg_path b) SESSION ''ReleaseDevice''
                 [Arg_u (dev_major rdev), Arg_u (dev_minor rdev)]) s in
           Some (if ret a < 0 then - 1 else 0, logind_check_pending_events B s) }"

definition logind_switch_session :: "bus \<Rightarrow> int \<Rightarrow> 'z lgs_scheme \<Rightarrow> (int \<times> 'z lgs_scheme) option" where
  "logind_switch_session B n s = do {
     b \<leftarrow> logind s;
     if n < 0 then Some (- 1, s\<lparr>errno := EINVAL\<rparr>)
     else let (a, s) = bus_do B (Bus_call_method (lg_seat_path b) SEAT ''SwitchTo'' [Arg_u (word_of_int n)]) s in
       Some (if ret a < 0 then - 1 else 0, logind_check_pending_events B s) }"

definition logind_disable_seat :: "'z lgs_scheme \<Rightarrow> (int \<times> 'z lgs_scheme) option" where
  "logind_disable_seat s = Some (0, s)"

definition logind_get_fd :: "bus \<Rightarrow> 'z lgs_scheme \<Rightarrow> (int \<times> 'z lgs_scheme) option" where
  "logind_get_fd B s = do {
     b \<leftarrow> logind s;
     let (a, s) = bus_do B Bus_get_fd s;
     if ret a \<ge> 0 then Some (ret a, s) else Some (- 1, s\<lparr>errno := - ret a\<rparr>) }"

definition logind_seat_name :: "'z lgs_scheme \<Rightarrow> string option" where
  "logind_seat_name s = do { b \<leftarrow> logind s; lg_seat b }"

section \<open>Events\<close>

definition set_active :: "'z logind_listener \<Rightarrow> bool \<Rightarrow> 'z lgs_scheme \<Rightarrow> 'z lgs_scheme option" where
  "set_active L active s = do {
     b \<leftarrow> logind s;
     if lg_active b = active then Some s
     else L active (s\<lparr>logind := Some (b\<lparr>lg_active := active\<rparr>)\<rparr>) }"

definition handle_pause_device :: "bus \<Rightarrow> 'z logind_listener \<Rightarrow> bus_message \<Rightarrow> 'z lgs_scheme \<Rightarrow> 'z lgs_scheme option" where
  "handle_pause_device B L m s =
     (let d = fst (next_item m) in
      if ret d < 0 then Some s
      else if d_str d = ''gone'' then Some s
      else if d_str d = ''pause'' then do {
        s \<leftarrow> set_active L False s;
        b \<leftarrow> logind s;
        Some (snd (bus_do B (Bus_call_method (lg_path b) SESSION ''PauseDeviceComplete'' [Arg_u (d_major d), Arg_u (d_minor d)]) s)) }
      else Some s)"

text \<open>
  The parts of \<open>handle_properties_changed\<close>. The first result is false where the code jumps to \<open>error\<close>;
  the handler returns 0 in any case.
\<close>

definition read_active :: "'z logind_listener \<Rightarrow> bus_message \<Rightarrow> 'z lgs_scheme \<Rightarrow> (bool \<times> bus_message \<times> 'z lgs_scheme) option" where
  "read_active L m s =
     (let (d, m) = next_item m in
      if ret d < 0 then Some (False, m, s)
      else let (d, m) = next_item m in
        if ret d < 0 then Some (False, m, s)
        else do {
          s \<leftarrow> set_active L (d_bool d) s;
          let (d, m) = next_item m;
          Some (ret d \<ge> 0, m, s) })"

partial_function (option) changed_loop ::
    "'z logind_listener \<Rightarrow> bus_message \<Rightarrow> 'z lgs_scheme \<Rightarrow> (bool \<times> bus_message \<times> 'z lgs_scheme) option" where
  [code]: "changed_loop L m s =
     (let (d, m) = next_item m in
      if ret d \<le> 0 then Some (ret d = 0, m, s)
      else let (d, m) = next_item m in
        if ret d < 0 then Some (False, m, s)
        else do {
          (ok, m, s) \<leftarrow> (if d_str d = ''Active'' then read_active L m s
            else let (d, m) = next_item m in Some (ret d \<ge> 0, m, s));
          if \<not> ok then Some (False, m, s)
          else let (d, m) = next_item m in
            if ret d < 0 then Some (False, m, s) else changed_loop L m s })"

partial_function (option) invalidated_loop ::
    "bus \<Rightarrow> 'z logind_listener \<Rightarrow> bus_message \<Rightarrow> 'z lgs_scheme \<Rightarrow> (bool \<times> bus_message \<times> 'z lgs_scheme) option" where
  [code]: "invalidated_loop B L m s =
     (let (d, m) = next_item m in
      if ret d \<le> 0 then Some (ret d = 0, m, s)
      else if d_str d = ''Active'' then do {
        b \<leftarrow> logind s;
        let (a, s) = bus_do B (Bus_get_property (lg_path b) SESSION ''Active'') s;
        if ret a < 0 then invalidated_loop B L m s
        else do { s \<leftarrow> set_active L (d_bool a) s; invalidated_loop B L m s } }
      else invalidated_loop B L m s)"

text \<open>
  Entering the array in the second argument, its entries, and leaving it; the same for the names
  in the third.
\<close>

definition handle_properties_changed :: "bus \<Rightarrow> 'z logind_listener \<Rightarrow> bus_message \<Rightarrow> 'z lgs_scheme \<Rightarrow> 'z lgs_scheme option" where
  "handle_properties_changed B L m s =
     (let (d, m) = next_item m in
      if ret d < 0 \<or> d_str d \<noteq> SESSION then Some s
      else let (d, m) = next_item m in
        if ret d < 0 then Some s
        else do {
          (ok, m, s) \<leftarrow> changed_loop L m s;
          if \<not> ok then Some s
          else let (d, m) = next_item m in
            if ret d < 0 then Some s
            else let (d, m) = next_item m in
              if ret d < 0 then Some s
              else do {
                (ok, m, s) \<leftarrow> invalidated_loop B L m s;
                Some s } })"

definition run_handler :: "bus \<Rightarrow> 'z logind_listener \<Rightarrow> bus_handler \<Rightarrow> bus_message \<Rightarrow> 'z lgs_scheme \<Rightarrow> 'z lgs_scheme option" where
  "run_handler B L h m s = (case h of
     Ping_handler \<Rightarrow> let _ = ping_handler m in Some s
   | Handle_pause_device \<Rightarrow> handle_pause_device B L m s
   | Handle_properties_changed \<Rightarrow> handle_properties_changed B L m s)"

text \<open>
  \<open>sd_bus_process\<close> runs at most one handler, and the handler calls the listener, which may have closed the seat. The backend is
  looked up again wherever the code uses it afterwards, so that using a freed backend does not return.
\<close>

definition bus_process :: "bus \<Rightarrow> 'z logind_listener \<Rightarrow> 'z lgs_scheme \<Rightarrow> (int \<times> 'z lgs_scheme) option" where
  "bus_process B L s =
     (let (a, s) = bus_do B Bus_process s in
      case d_incoming a of None \<Rightarrow> Some (ret a, s)
      | Some (h, m) \<Rightarrow> do { s \<leftarrow> run_handler B L h m s; Some (ret a, s) })"

partial_function (option) process_loop :: "bus \<Rightarrow> 'z logind_listener \<Rightarrow> int \<Rightarrow> 'z lgs_scheme \<Rightarrow> (int \<times> 'z lgs_scheme) option" where
  [code]: "process_loop B L total_dispatched s = do {
     _ \<leftarrow> logind s;
     (dispatched, s) \<leftarrow> bus_process B L s;
     if dispatched > 0 then process_loop B L (total_dispatched + dispatched) s else Some (total_dispatched, s) }"

definition logind_poll_connection :: "env \<Rightarrow> bus \<Rightarrow> int \<Rightarrow> 'z lgs_scheme \<Rightarrow> int \<times> 'z lgs_scheme" where
  "logind_poll_connection E B timeout s =
     (let (a, s) = bus_do B Bus_get_fd s; (r, s) = sys_call E (C_poll (ret a) timeout) s in
      case r of Inl e \<Rightarrow> (if e = EAGAIN \<or> e = EINTR then 0 else - 1, s)
      | Inr revents \<Rightarrow> if revents AND (POLLERR OR POLLHUP) \<noteq> 0 then (- 1, s\<lparr>errno := ECONNRESET\<rparr>) else (0, s))"

definition dispatch_and_execute :: "env \<Rightarrow> bus \<Rightarrow> 'z logind_listener \<Rightarrow> int \<Rightarrow> 'z lgs_scheme \<Rightarrow> (int \<times> 'z lgs_scheme) option" where
  "dispatch_and_execute E B L timeout s = do {
     b \<leftarrow> logind s;
     s \<leftarrow> (if lg_initial_setup b then L (lg_active b) (s\<lparr>logind := Some (b\<lparr>lg_initial_setup := False\<rparr>)\<rparr>) else Some s);
     (total_dispatched, s) \<leftarrow> process_loop B L 0 s;
     _ \<leftarrow> logind s;
     if total_dispatched = 0 \<and> timeout \<noteq> 0 then
       (let (r, s) = logind_poll_connection E B timeout s in
        if r = - 1 then Some (- 1, s)
        else do {
          (total_dispatched, s) \<leftarrow> process_loop B L total_dispatched s;
          _ \<leftarrow> logind s;
          Some (total_dispatched, logind_check_pending_events B s) })
     else Some (total_dispatched, logind_check_pending_events B s) }"

section \<open>Opening and closing a seat\<close>

definition session_get_active :: "bus \<Rightarrow> backend_logind \<Rightarrow> 'z lgs_scheme \<Rightarrow> int \<times> backend_logind \<times> 'z lgs_scheme" where
  "session_get_active B b s =
     (let (a, s) = bus_do B (Bus_get_property (lg_path b) SESSION ''Active'') s in
      (ret a, if ret a < 0 then b else b\<lparr>lg_active := d_bool a\<rparr>, s))"

definition session_take_control :: "bus \<Rightarrow> backend_logind \<Rightarrow> 'z lgs_scheme \<Rightarrow> int \<times> 'z lgs_scheme" where
  "session_take_control B b s =
     (let (a, s) = bus_do B (Bus_call_method (lg_path b) SESSION ''TakeControl'' [Arg_b False]) s in (ret a, s))"

definition session_release_control :: "bus \<Rightarrow> backend_logind \<Rightarrow> 'z lgs_scheme \<Rightarrow> 'z lgs_scheme" where
  "session_release_control B b s = snd (bus_do B (Bus_call_method (lg_path b) SESSION ''ReleaseControl'' []) s)"

definition session_set_type :: "bus \<Rightarrow> backend_logind \<Rightarrow> string \<Rightarrow> 'z lgs_scheme \<Rightarrow> int \<times> 'z lgs_scheme" where
  "session_set_type B b type s =
     (let (a, s) = bus_do B (Bus_call_method (lg_path b) SESSION ''SetType'' [Arg_s (Some type)]) s in (ret a, s))"

definition add_signal_matches :: "bus \<Rightarrow> backend_logind \<Rightarrow> 'z lgs_scheme \<Rightarrow> int \<times> 'z lgs_scheme" where
  "add_signal_matches B b s =
     (let (a, s) = bus_do B (Bus_match_signal (lg_path b) SESSION ''PauseDevice'') s in
      if ret a < 0 then (ret a, s)
      else let (a, s) = bus_do B (Bus_match_signal (lg_path b) PROPERTIES ''PropertiesChanged'') s in
        (if ret a < 0 then ret a else 0, s))"

text \<open>A copy of a string is null when there is no memory.\<close>

definition dup_string :: "env \<Rightarrow> string \<Rightarrow> 'z lgs_scheme \<Rightarrow> string option \<times> 'z lgs_scheme" where
  "dup_string E str s = (let (ok, s) = sys_alloc E s in (if ok then Some str else None, s))"

definition manager_get_session_path :: "env \<Rightarrow> bus \<Rightarrow> backend_logind \<Rightarrow> 'z lgs_scheme \<Rightarrow> int \<times> backend_logind \<times> 'z lgs_scheme" where
  "manager_get_session_path E B b s =
     (let (a, s) = bus_do B (Bus_call_method (Some LOGIN1) MANAGER ''GetSession'' [Arg_s (lg_id b)]) s;
          d = fst (next_item (d_reply a)) in
      if ret a < 0 then (ret a, b, s)
      else if ret d < 0 then (ret d, b, s)
      else let (p, s) = dup_string E (d_str d) s in (ret d, b\<lparr>lg_path := p\<rparr>, s))"

definition manager_get_seat_path :: "env \<Rightarrow> bus \<Rightarrow> backend_logind \<Rightarrow> 'z lgs_scheme \<Rightarrow> int \<times> backend_logind \<times> 'z lgs_scheme" where
  "manager_get_seat_path E B b s =
     (let (a, s) = bus_do B (Bus_call_method (Some LOGIN1) MANAGER ''GetSeat'' [Arg_s (lg_seat b)]) s;
          d = fst (next_item (d_reply a)) in
      if ret a < 0 then (ret a, b, s)
      else if ret d < 0 then (ret d, b, s)
      else let (p, s) = dup_string E (d_str d) s in (ret d, b\<lparr>lg_seat_path := p\<rparr>, s))"

text \<open>The identifier of the session; a null one fails the assertion.\<close>

definition get_display_session :: "env \<Rightarrow> bus \<Rightarrow> 'z lgs_scheme \<Rightarrow> (int \<times> string option \<times> 'z lgs_scheme) option" where
  "get_display_session E B s =
     (case env_var E ''XDG_SESSION_ID'' of
        Some i \<Rightarrow>
          (let (a, s) = bus_do B (Session_is_active i) s in
           if ret a < 0 then Some (ret a, None, s)
           else let (i, s) = dup_string E i s in if i = None then None else Some (0, i, s))
      | None \<Rightarrow>
          (let (a, s) = bus_do B (Pid_get_session (fst (self_ids E))) s in
           if ret a = 0 then Some (0, Some (d_str a), s)
           else let (a, s) = bus_do B (Uid_get_display (fst (snd (self_ids E)))) s in
             if ret a < 0 then Some (ret a, None, s) else Some (0, Some (d_str a), s)))"

text \<open>The steps of \<open>logind_open_seat\<close> up to the taking of control, with the first negative result or that of the last.\<close>

definition logind_connect :: "env \<Rightarrow> bus \<Rightarrow> backend_logind \<Rightarrow> 'z lgs_scheme \<Rightarrow> (int \<times> backend_logind \<times> 'z lgs_scheme) option" where
  "logind_connect E B b s = do {
     (r, i, s) \<leftarrow> get_display_session E B s;
     let b = b\<lparr>lg_id := i\<rparr>;
     if r < 0 then Some (r, b, s) else do {
     let (a, s) = bus_do B (Session_get_seat (lg_id b)) s;
     if ret a < 0 then Some (ret a, b, s) else do {
     let b = b\<lparr>lg_seat := Some (d_str a)\<rparr>;
     let (a, s) = bus_do B Bus_default_system s;
     if ret a < 0 then Some (ret a, b, s) else do {
     let b = b\<lparr>lg_bus := True\<rparr>;
     let (r, b, s) = manager_get_session_path E B b s;
     if r < 0 then Some (r, b, s) else do {
     let (r, b, s) = manager_get_seat_path E B b s;
     if r < 0 then Some (r, b, s) else do {
     let (r, s) = add_signal_matches B b s;
     if r < 0 then Some (r, b, s) else do {
     let (r, b, s) = session_get_active B b s;
     if r < 0 then Some (r, b, s) else do {
     let (r, s) = session_take_control B b s;
     Some (r, b, s) } } } } } } } }"

definition logind_open_seat ::
    "env \<Rightarrow> bus \<Rightarrow> 'z logind_listener \<Rightarrow> 'z lgs_scheme \<Rightarrow> (seat_impl_id option \<times> 'z lgs_scheme) option" where
  "logind_open_seat E B L s =
     (let (ok, s) = sys_alloc E s in
      if \<not> ok then Some (None, s)
      else do {
        (r, b, s) \<leftarrow> logind_connect E B \<lparr>lg_bus = False, lg_id = None, lg_seat = None, lg_path = None, lg_seat_path = None,
          lg_active = False, lg_initial_setup = False\<rparr> s;
        if r < 0 then Some (None, (logind_destroy B b s)\<lparr>errno := - r\<rparr>)
        else
          let s = (case env_var E ''XDG_SESSION_TYPE'' of None \<Rightarrow> s | Some t \<Rightarrow> snd (session_set_type B b t s)) in
          Some (Some Logind_impl, logind_check_pending_events B (s\<lparr>logind := Some (b\<lparr>lg_initial_setup := True\<rparr>)\<rparr>)) })"

definition logind_close_seat :: "bus \<Rightarrow> 'z lgs_scheme \<Rightarrow> (int \<times> 'z lgs_scheme) option" where
  "logind_close_seat B s = do {
     b \<leftarrow> logind s;
     Some (0, (logind_destroy B b (session_release_control B b s))\<lparr>logind := None\<rparr>) }"

definition logind_impl :: "env \<Rightarrow> bus \<Rightarrow> 'z lgs_ext seat_impl" where
  "logind_impl E B = \<lparr>impl_open_seat = logind_open_seat E B, impl_disable_seat = logind_disable_seat,
     impl_close_seat = (\<lambda>_. logind_close_seat B), impl_seat_name = logind_seat_name, impl_open_device = logind_open_device E B,
     impl_close_device = logind_close_device E B, impl_switch_session = logind_switch_session B,
     impl_get_fd = logind_get_fd B, impl_dispatch = dispatch_and_execute E B\<rparr>"

end
