(* ===== verification/Logind_Inv.thy ===== *)
theory Logind_Inv
  imports Libseat_Logind
begin

text \<open>
  The logind backend: what the application is told of the session, in which order devices are given
  up, and what opening and closing a seat hold.
\<close>

lemma bus_do_effect:
  assumes "bus_do B c s = (a, s')"
  shows "bus_log s' = (c, a) # bus_log s" "logind s' = logind s" "lgs.more s' = lgs.more s" "trace s' = trace s"
    "a = B (bus_log s) (trace s) c"
  using assms by (auto simp: bus_do_def Let_def)

section \<open>What the service says\<close>

text \<open>
  A message about changed properties, read on its own: the values of \<open>Active\<close> in it, whether the entries ended well, and
  the rest of the message.
\<close>

definition active_value :: "bus_message \<Rightarrow> bool list \<times> bool \<times> bus_message" where
  "active_value m =
     (let (d, m) = next_item m in
      if ret d < 0 then ([], False, m)
      else let (d, m) = next_item m in
        if ret d < 0 then ([], False, m)
        else let (e, m) = next_item m in ([d_bool d], ret e \<ge> 0, m))"

lemma next_item_shorter: "next_item m = (d, m') \<Longrightarrow> 0 < ret d \<Longrightarrow> length m' < length m"
  by (cases m) (auto simp: no_data_def)

lemma next_item_le: "next_item m = (d, m') \<Longrightarrow> length m' \<le> length m"
  by (cases m) auto

lemma active_value_le: "active_value m = (vs, ok, m') \<Longrightarrow> length m' \<le> length m"
  by (auto simp: active_value_def dest!: next_item_le split: prod.splits if_splits)

function changed_values :: "bus_message \<Rightarrow> bool list \<times> bool \<times> bus_message" where
  "changed_values m =
     (let (d, m) = next_item m in
      if ret d \<le> 0 then ([], ret d = 0, m)
      else let (d, m) = next_item m in
        if ret d < 0 then ([], False, m)
        else let (vs, ok, m) = (if d_str d = ''Active'' then active_value m
              else let (d, m) = next_item m in ([], ret d \<ge> 0, m)) in
          if \<not> ok then (vs, False, m)
          else let (d, m) = next_item m in
            if ret d < 0 then (vs, False, m)
            else let (ws, ok, m) = changed_values m in (vs @ ws, ok, m))"
  by pat_completeness auto
termination
  by (relation "measure length")
    (auto dest!: next_item_le active_value_le dest: next_item_shorter split: if_splits prod.splits, (metis order_trans order_le_less_trans not_le next_item_le next_item_shorter active_value_le)+)

declare changed_values.simps [simp del]

definition announced :: "bus_message \<Rightarrow> bool list" where
  "announced m =
     (let (d, m) = next_item m in
      if ret d < 0 \<or> d_str d \<noteq> SESSION then []
      else let (d, m) = next_item m in if ret d < 0 then [] else fst (changed_values m))"

text \<open>A message that asks for a device to be given up.\<close>

definition pause_request :: "bus_message \<Rightarrow> (32 word \<times> 32 word) option" where
  "pause_request m = (let d = fst (next_item m) in
     if ret d \<ge> 0 \<and> d_str d = ''pause'' then Some (d_major d, d_minor d) else None)"

text \<open>
  What the service has said in a history about whether the session is active: in answers to the question, in messages that
  were delivered, and by asking for a device. Oldest first.
\<close>

fun said_in :: "bus_call \<times> bus_answer \<Rightarrow> bool list" where
  "said_in (Bus_get_property p i n, a) = (if i = SESSION \<and> n = ''Active'' \<and> ret a \<ge> 0 then [d_bool a] else [])"
| "said_in (Bus_process, a) = (case d_incoming a of
     Some (Handle_properties_changed, m) \<Rightarrow> announced m
   | Some (Handle_pause_device, m) \<Rightarrow> if pause_request m = None then [] else [False]
   | _ \<Rightarrow> [])"
| "said_in _ = []"

text \<open>The devices that were asked for, and those that were acknowledged as given up.\<close>

fun asked_in :: "bus_call \<times> bus_answer \<Rightarrow> bus_arg list list" where
  "asked_in (Bus_process, a) = (case d_incoming a of
     Some (Handle_pause_device, m) \<Rightarrow> (case pause_request m of None \<Rightarrow> [] | Some (mj, mn) \<Rightarrow> [[Arg_u mj, Arg_u mn]])
   | _ \<Rightarrow> [])"
| "asked_in _ = []"

fun acked_in :: "bus_call \<times> bus_answer \<Rightarrow> bus_arg list list" where
  "acked_in (Bus_call_method p i n as, a) = (if i = SESSION \<and> n = ''PauseDeviceComplete'' then [as] else [])"
| "acked_in _ = []"

definition said :: "bus_history \<Rightarrow> bool list" where
  "said h = concat (map said_in (rev h))"

definition asked :: "bus_history \<Rightarrow> bus_arg list list" where
  "asked h = concat (map asked_in (rev h))"

definition acked :: "bus_history \<Rightarrow> bus_arg list list" where
  "acked h = concat (map acked_in (rev h))"

lemmas history_defs = said_def asked_def acked_def

lemma history_simps [simp]:
  "said [] = []" "asked [] = []" "acked [] = []"
  "said (e # h) = said h @ said_in e" "asked (e # h) = asked h @ asked_in e" "acked (e # h) = acked h @ acked_in e"
  "said (g @ h) = said h @ said g" "asked (g @ h) = asked h @ asked g" "acked (g @ h) = acked h @ acked g"
  by (simp_all add: history_defs)

lemma acked_Nil: "acked h = [] \<longleftrightarrow> (\<forall>e \<in> set h. acked_in e = [])"
  by (simp add: acked_def)

text \<open>
  Calls that have nothing to do with this. They may be made by the listener.
\<close>

definition calm :: "bus_history \<Rightarrow> bool" where
  "calm h \<longleftrightarrow> (\<forall>e \<in> set h. (case fst e of Bus_process \<Rightarrow> False | Bus_get_property _ _ _ \<Rightarrow> False
     | Bus_call_method _ _ n _ \<Rightarrow> n \<noteq> ''PauseDeviceComplete'' | _ \<Rightarrow> True))"

lemma calm_simps [simp]: "calm []" "calm (e # h) \<longleftrightarrow> calm [e] \<and> calm h" "calm (g @ h) \<longleftrightarrow> calm g \<and> calm h"
  by (auto simp: calm_def)

lemma calm_Nil: "calm h \<Longrightarrow> said h = [] \<and> asked h = [] \<and> acked h = []"
proof (induction h)
  case (Cons e h)
  then show ?case by (cases e; cases "fst e") (auto simp: calm_def)
qed simp

section \<open>What the application is told\<close>

text \<open>
  An application that remembers what its listener was told, newest first, and when: the length of the
  history of the bus at that moment.
\<close>

record hearing = lgs +
  heard :: "(bool \<times> nat) list"

text \<open>
  The listener returns and makes a note. It may use the seat, as long as it does not close it or
  dispatch more events: the calls that open and close devices leave the record of the backend alone.
\<close>

definition listens :: "'z hearing_ext logind_listener \<Rightarrow> bool" where
  "listens L \<longleftrightarrow> (\<forall>on s. \<exists>s' h. L on s = Some s' \<and> heard s' = (on, length (bus_log s)) # heard s \<and> logind s' = logind s
     \<and> bus_log s' = h @ bus_log s \<and> calm h)"

text \<open>What the listener was last told before the history had more than \<open>n\<close> entries.\<close>

definition told_at :: "(bool \<times> nat) list \<Rightarrow> nat \<Rightarrow> bool option" where
  "told_at hs n = map_option fst (find (\<lambda>e. snd e \<le> n) hs)"

text \<open>Whenever a device was acknowledged as given up, the listener had last been told that the seat is disabled.\<close>

definition mindful :: "'z hearing_scheme \<Rightarrow> bool" where
  "mindful s \<longleftrightarrow> (\<exists>b n hs. logind s = Some b \<and> heard s = (lg_active b, n) # hs) \<and> (\<forall>e \<in> set (heard s). snd e \<le> length (bus_log s))
     \<and> (\<forall>h1 e h2. bus_log s = h1 @ e # h2 \<longrightarrow> acked_in e \<noteq> [] \<longrightarrow> told_at (heard s) (length h2) = Some False)"

text \<open>
  From one state to another the history grows by \<open>h\<close>, and the listener is told the values \<open>vs\<close>, without repetitions.
\<close>

definition tells :: "bool list \<Rightarrow> bus_history \<Rightarrow> 'z hearing_scheme \<Rightarrow> 'z hearing_scheme \<Rightarrow> bool" where
  "tells vs h s s' \<longleftrightarrow> bus_log s' = h @ bus_log s \<and> (mindful s \<longrightarrow> mindful s')
     \<and> (\<exists>b. logind s = Some b \<and> logind s' = Some (b\<lparr>lg_active := last (lg_active b # vs)\<rparr>)
          \<and> map fst (heard s') = rev (tl (remdups_adj (lg_active b # vs))) @ map fst (heard s))"

lemma tells_refl: "logind s = Some b \<Longrightarrow> tells [] [] s s"
  by (simp add: tells_def)

lemma tells_backend: "tells vs h s s' \<Longrightarrow> \<exists>b. logind s' = Some b"
  by (auto simp: tells_def)

lemma remdups_adj_append_tl: "remdups_adj (x # xs @ ys) = remdups_adj (x # xs) @ tl (remdups_adj (last (x # xs) # ys))"
  using remdups_adj_append [of "butlast (x # xs)" "last (x # xs)" ys]
  by (metis append_Cons append_Nil append_assoc append_butlast_last_id list.distinct(1))

lemma tells_trans:
  assumes "tells vs h s t" and "tells ws g t u"
  shows "tells (vs @ ws) (g @ h) s u"
proof -
  obtain b where b: "logind s = Some b" "logind t = Some (b\<lparr>lg_active := last (lg_active b # vs)\<rparr>)"
      "map fst (heard t) = rev (tl (remdups_adj (lg_active b # vs))) @ map fst (heard s)"
    using assms(1) by (auto simp: tells_def)
  have "remdups_adj (lg_active b # vs) \<noteq> []" by simp
  then have "tl (remdups_adj (lg_active b # vs @ ws)) = tl (remdups_adj (lg_active b # vs)) @ tl (remdups_adj (last (lg_active b # vs) # ws))"
    unfolding remdups_adj_append_tl by (rule tl_append2)
  moreover have "last (lg_active b # vs @ ws) = last (last (lg_active b # vs) # ws)" by (cases ws) auto
  ultimately show ?thesis using assms b by (auto simp: tells_def)
qed

text \<open>What is said in the meantime does not change what was acknowledged before.\<close>

lemma mindful_grow:
  assumes "mindful s" and "bus_log s' = h @ bus_log s" and "\<forall>e \<in> set h. acked_in e = []" and "logind s' = Some b"
    and "heard s' = heard s \<and> (\<exists>b'. logind s = Some b' \<and> lg_active b' = lg_active b) \<or> heard s' = (lg_active b, length (bus_log s)) # heard s"
  shows "mindful s'"
proof -
  have "told_at (heard s') (length h2) = Some False" if eq: "bus_log s' = h1 @ e # h2" and e: "acked_in e \<noteq> []" for h1 e h2
  proof -
    have "length h \<le> length h1"
    proof (rule ccontr)
      assume "\<not> length h \<le> length h1"
      then have "(h @ bus_log s) ! length h1 \<in> set h" by (simp add: nth_append)
      moreover have "(h @ bus_log s) ! length h1 = e" using eq assms(2) by (metis nth_append_length)
      ultimately show False using assms(3) e by auto
    qed
    then obtain h1' where "h1 = h @ h1'" "bus_log s = h1' @ e # h2" using eq assms(2) by (auto simp: append_eq_append_conv2)
    then have "told_at (heard s) (length h2) = Some False" "length h2 < length (bus_log s)"
      using assms(1) e unfolding mindful_def by (blast, simp)
    then show ?thesis using assms(5) by (auto simp: told_at_def)
  qed
  moreover have "\<forall>e \<in> set (heard s'). snd e \<le> length (bus_log s')" using assms(1,2,5) by (force simp: mindful_def)
  moreover have "\<exists>n hs. heard s' = (lg_active b, n) # hs" using assms(1,5) by (auto simp: mindful_def)
  ultimately show ?thesis using assms(4) by (simp add: mindful_def)
qed

lemma bus_do_tells:
  assumes "bus_do B c s = (a, s')" and "logind s = Some b" and "acked_in (c, a) = []"
  shows "tells [] [(c, a)] s s'"
proof -
  have s': "s' = s\<lparr>bus_log := (c, a) # bus_log s\<rparr>" using assms(1) by (auto simp: bus_do_def Let_def)
  have "mindful s \<longrightarrow> mindful s'" using mindful_grow [of s s' "[(c, a)]" b] assms(2,3) by (simp add: s')
  then show ?thesis using assms(2) by (simp add: tells_def s')
qed

lemma set_active_tells:
  assumes "listens L" and "logind s = Some b"
  shows "\<exists>s' h. set_active L v s = Some s' \<and> tells [v] h s s' \<and> calm h"
proof (cases "lg_active b = v")
  case True
  then have "b = b\<lparr>lg_active := v\<rparr>" by simp
  with True assms(2) show ?thesis by (intro exI [of _ s] exI [of _ "[]"]) (auto simp: set_active_def tells_def)
next
  case False
  let ?s = "s\<lparr>logind := Some (b\<lparr>lg_active := v\<rparr>)\<rparr>"
  obtain s' h where l: "L v ?s = Some s'" "heard s' = (v, length (bus_log s)) # heard s" "logind s' = Some (b\<lparr>lg_active := v\<rparr>)"
      "bus_log s' = h @ bus_log s" "calm h" using assms(1) unfolding listens_def by fastforce
  have "\<forall>e \<in> set h. acked_in e = []" using calm_Nil [OF l(5)] by (auto simp: acked_def)
  then have "mindful s \<longrightarrow> mindful s'" using mindful_grow [of s s' h "b\<lparr>lg_active := v\<rparr>"] l by auto
  with False assms(2) l show ?thesis by (auto simp: set_active_def tells_def)
qed

text \<open>The reference: values take effect one after the other.\<close>

primrec set_actives :: "'z logind_listener \<Rightarrow> bool list \<Rightarrow> 'z lgs_scheme \<Rightarrow> 'z lgs_scheme option" where
  "set_actives L [] s = Some s"
| "set_actives L (a # as) s = do { s \<leftarrow> set_active L a s; set_actives L as s }"

lemma set_actives_append: "set_actives L (vs @ ws) s = do { s \<leftarrow> set_actives L vs s; set_actives L ws s }"
  by (induction vs arbitrary: s) (simp_all add: bind_assoc)

lemma set_actives_tells:
  assumes "listens L" and "logind s = Some b"
  shows "\<exists>s' h. set_actives L vs s = Some s' \<and> tells vs h s s' \<and> calm h"
  using assms(2)
proof (induction vs arbitrary: s b)
  case Nil
  then show ?case using tells_refl by (auto intro!: exI [of _ "[]"])
next
  case (Cons v vs)
  obtain t h where t: "set_active L v s = Some t" "tells [v] h s t" "calm h" using set_active_tells [OF assms(1) Cons.prems] by blast
  obtain b' where "logind t = Some b'" using tells_backend [OF t(2)] by blast
  then obtain u g where "set_actives L vs t = Some u" "tells vs g t u" "calm g" using Cons.IH by blast
  with t tells_trans [OF t(2) this(2)] show ?case by (auto intro!: exI [of _ "g @ h"])
qed

section \<open>Events\<close>

text \<open>The answers of \<open>sd_bus_process\<close> in a history, and the questions about properties, newest first.\<close>

definition processed :: "bus_history \<Rightarrow> bus_answer list" where
  "processed h = map snd (filter (\<lambda>e. fst e = Bus_process) h)"

definition questions :: "bus_history \<Rightarrow> bus_call list" where
  "questions h = filter (\<lambda>c. case c of Bus_get_property _ _ _ \<Rightarrow> True | _ \<Rightarrow> False) (map fst h)"

lemma more_history_simps [simp]:
  "processed [] = []" "processed (g @ h) = processed g @ processed h" "questions [] = []" "questions (g @ h) = questions g @ questions h"
  "processed (e # h) = (if fst e = Bus_process then [snd e] else []) @ processed h"
  "questions (e # h) = (case fst e of Bus_get_property _ _ _ \<Rightarrow> [fst e] | _ \<Rightarrow> []) @ questions h"
  by (simp_all add: processed_def questions_def split: bus_call.splits)

lemma calm_Nil2: "calm h \<Longrightarrow> processed h = [] \<and> questions h = []"
proof (induction h)
  case (Cons e h)
  then show ?case by (cases "fst e") (auto simp: calm_def)
qed simp

text \<open>A message and what is said in the rest of its handling take effect; nothing else is delivered in the meantime.\<close>

definition handles :: "bool list \<Rightarrow> bus_arg list list \<Rightarrow> 'z hearing_scheme \<Rightarrow> 'z hearing_scheme \<Rightarrow> bus_history \<Rightarrow> bool" where
  "handles vs as s s' h \<longleftrightarrow> tells (vs @ said h) h s s' \<and> processed h = [] \<and> asked h = [] \<and> acked h = as"

lemma handles_calm: "tells vs h s s' \<Longrightarrow> calm h \<Longrightarrow> handles vs [] s s' h"
  using calm_Nil [of h] calm_Nil2 [of h] by (simp add: handles_def)

lemma handles_refl: "logind s = Some b \<Longrightarrow> handles [] [] s s []"
  by (simp add: handles_def tells_refl)

lemma handles_then:
  assumes "tells vs g s t" and "calm g" and "handles ws as t u h"
  shows "handles (vs @ ws) as s u (h @ g)"
  using assms calm_Nil [OF assms(2)] calm_Nil2 [OF assms(2)] tells_trans [OF assms(1), of "ws @ said h" h u] by (simp add: handles_def)

lemma read_active_eq:
  "read_active L m s = (let (vs, ok, m') = active_value m in do { s \<leftarrow> set_actives L vs s; Some (ok, m', s) })"
  by (auto simp: read_active_def active_value_def Let_def bind_assoc split: prod.splits)

text \<open>The entries are read as the reference reads them, and take effect one after the other.\<close>

lemma changed_loop_eq:
  "changed_loop L m s = (let (vs, ok, m') = changed_values m in do { s \<leftarrow> set_actives L vs s; Some (ok, m', s) })"
proof (induction m arbitrary: s rule: changed_values.induct)
  case (1 m)
  obtain d1 m1 where 1: "next_item m = (d1, m1)" by force
  obtain d2 m2 where 2: "next_item m1 = (d2, m2)" by force
  let ?v = "if d_str d2 = ''Active'' then active_value m2 else let (d, m) = next_item m2 in ([], ret d \<ge> 0, m)"
  obtain vs ok m3 where 3: "?v = (vs, ok, m3)" by (metis prod.exhaust)
  obtain d4 m4 where 4: "next_item m3 = (d4, m4)" by force
  obtain ws ok' m5 where 5: "changed_values m4 = (ws, ok', m5)" by (metis prod.exhaust)
  have r: "(if d_str d2 = ''Active'' then read_active L m2 s else let (d, m) = next_item m2 in Some (ret d \<ge> 0, m, s))
      = do { s \<leftarrow> set_actives L vs s; Some (ok, m3, s) }"
    using 3 by (auto simp: read_active_eq Let_def split: if_splits prod.splits)
  have ih: "changed_loop L m4 s = do { s \<leftarrow> set_actives L ws s; Some (ok', m5, s) }" if "\<not> ret d1 \<le> 0" "\<not> ret d2 < 0" ok "\<not> ret d4 < 0" for s
    using "1.IH" [OF 1 [symmetric] refl that(1) 2 [symmetric] refl that(2) 3 [symmetric] refl refl _ 4 [symmetric] refl that(4)] that(3) 5 by simp
  have v: "changed_values m = (if ret d1 \<le> 0 then ([], ret d1 = 0, m1) else if ret d2 < 0 then ([], False, m2)
      else if \<not> ok then (vs, False, m3) else if ret d4 < 0 then (vs, False, m4) else (vs @ ws, ok', m5))"
    using 1 2 3 4 5 by (subst changed_values.simps) simp
  show ?case
    by (subst changed_loop.simps) (cases "set_actives L vs s"; auto simp: v 1 2 r 4 ih set_actives_append)
qed

text \<open>The properties that are only named are asked for, one question for each time the name is read.\<close>

definition invalidated_names :: "bus_message \<Rightarrow> string list" where
  "invalidated_names m = map d_str (takeWhile (\<lambda>d. 0 < ret d) m)"

lemma invalidated_loop_handles:
  assumes "listens L" and "logind s = Some b"
  shows "\<exists>ok m' s' h. invalidated_loop B L m s = Some (ok, m', s') \<and> handles [] [] s s' h
    \<and> questions h = replicate (count_list (invalidated_names m) ''Active'') (Bus_get_property (lg_path b) SESSION ''Active'')"
  using assms(2)
proof (induction m arbitrary: s b)
  case Nil
  then show ?case by (subst invalidated_loop.simps) (auto simp: invalidated_names_def no_data_def intro!: exI [of _ "[]"] handles_refl)
next
  case (Cons d m)
  show ?case
  proof (cases "0 < ret d \<and> d_str d = ''Active''")
    case True
    obtain a s1 where 1: "bus_do B (Bus_get_property (lg_path b) SESSION ''Active'') s = (a, s1)" by force
    have l1: "logind s1 = Some b" using 1 Cons.prems by (auto simp: bus_do_def Let_def)
    let ?e = "(Bus_get_property (lg_path b) SESSION ''Active'', a)"
    let ?vs = "if ret a < 0 then [] else [d_bool a]"
    have t1: "tells [] [?e] s s1" using bus_do_tells [OF 1 Cons.prems] by simp
    obtain s2 g where 2: "set_actives L ?vs s1 = Some s2" "tells ?vs g s1 s2" "calm g" using set_actives_tells [OF assms(1) l1] by blast
    then have l2: "logind s2 = Some (b\<lparr>lg_active := last (lg_active b # ?vs)\<rparr>)" using l1 by (auto simp: tells_def)
    obtain ok m' s' h where 3: "invalidated_loop B L m s2 = Some (ok, m', s')" "handles [] [] s2 s' h"
        "questions h = replicate (count_list (invalidated_names m) ''Active'') (Bus_get_property (lg_path b) SESSION ''Active'')"
      using Cons.IH [OF l2] by auto
    have "invalidated_loop B L (d # m) s = Some (ok, m', s')"
      using True Cons.prems 1 2(1) 3(1) by (subst invalidated_loop.simps) (auto split: if_splits)
    moreover have "handles [] [] s s' (h @ g @ [?e])"
      using handles_then [OF 2(2,3) 3(2)] tells_trans [OF t1, of "?vs @ said (h @ g)" "h @ g" s'] calm_Nil [OF 2(3)]
      by (auto simp: handles_def)
    moreover have "questions (h @ g @ [?e])
        = replicate (count_list (invalidated_names (d # m)) ''Active'') (Bus_get_property (lg_path b) SESSION ''Active'')"
      using True 3(3) calm_Nil2 [OF 2(3)] by (simp add: invalidated_names_def replicate_app_Cons_same)
    ultimately show ?thesis by blast
  next
    case False
    show ?thesis
    proof (cases "0 < ret d")
      case True
      with False have "invalidated_loop B L (d # m) s = invalidated_loop B L m s" by (subst invalidated_loop.simps) simp
      then show ?thesis using Cons.IH [OF Cons.prems] True False by (simp add: invalidated_names_def)
    next
      case False
      then show ?thesis using handles_refl [OF Cons.prems]
        by (subst invalidated_loop.simps) (auto simp: invalidated_names_def intro!: exI [of _ "[]"])
    qed
  qed
qed

lemma handle_properties_handles:
  assumes "listens L" and "logind s = Some b"
  shows "\<exists>s' h. handle_properties_changed B L m s = Some s' \<and> handles (announced m) [] s s' h"
proof -
  obtain d1 m1 where 1: "next_item m = (d1, m1)" by force
  obtain d2 m2 where 2: "next_item m1 = (d2, m2)" by force
  obtain vs ok m3 where 3: "changed_values m2 = (vs, ok, m3)" by (metis prod.exhaust)
  obtain d4 m4 where 4: "next_item m3 = (d4, m4)" by force
  obtain d5 m5 where 5: "next_item m4 = (d5, m5)" by force
  obtain t g where t: "set_actives L vs s = Some t" "tells vs g s t" "calm g" using set_actives_tells [OF assms] by blast
  obtain b' where b': "logind t = Some b'" using tells_backend [OF t(2)] by blast
  obtain ok' m6 u h where u: "invalidated_loop B L m5 t = Some (ok', m6, u)" "handles [] [] t u h"
    using invalidated_loop_handles [OF assms(1) b'] by blast
  note h = handles_refl [OF assms(2)] handles_calm [OF t(2,3)] handles_then [OF t(2,3) u(2)]
  show ?thesis
    using 1 2 3 4 5 t(1) u(1) h by (auto simp: handle_properties_changed_def announced_def changed_loop_eq)
qed

lemma acknowledge_tells:
  assumes "bus_do B c s = (a, s')" and "logind s = Some b" and "\<not> lg_active b"
  shows "tells [] [(c, a)] s s'"
proof -
  have s': "s' = s\<lparr>bus_log := (c, a) # bus_log s\<rparr>" using assms(1) by (auto simp: bus_do_def Let_def)
  have "mindful s'" if m: "mindful s"
  proof -
    obtain n hs where h: "heard s = (False, n) # hs" "\<forall>e \<in> set (heard s). snd e \<le> length (bus_log s)"
        "\<forall>h1 e h2. bus_log s = h1 @ e # h2 \<longrightarrow> acked_in e \<noteq> [] \<longrightarrow> told_at (heard s) (length h2) = Some False"
      using m assms(2,3) unfolding mindful_def by auto
    have "told_at (heard s) (length h2) = Some False" if "(c, a) # bus_log s = h1 @ e # h2" "acked_in e \<noteq> []" for h1 e h2
    proof (cases h1)
      case Nil
      then show ?thesis using that(1) h(1,2) by (simp add: told_at_def)
    next
      case (Cons e' h1')
      then have "bus_log s = h1' @ e # h2" using that(1) by simp
      then show ?thesis using that(2) h(3) by blast
    qed
    with h assms(2,3) show ?thesis by (auto simp: mindful_def s')
  qed
  then show ?thesis using assms(2) by (simp add: tells_def s')
qed

lemma handle_pause_handles:
  assumes "listens L" and "logind s = Some b"
  shows "\<exists>s' h. handle_pause_device B L m s = Some s'
    \<and> handles (if pause_request m = None then [] else [False]) (case pause_request m of None \<Rightarrow> [] | Some (mj, mn) \<Rightarrow> [[Arg_u mj, Arg_u mn]]) s s' h"
proof (cases "pause_request m")
  case None
  then show ?thesis using handles_refl [OF assms(2)] by (auto simp: handle_pause_device_def pause_request_def Let_def split: if_splits)
next
  case (Some p)
  let ?d = "fst (next_item m)"
  obtain t g where t: "set_active L False s = Some t" "tells [False] g s t" "calm g" using set_active_tells [OF assms] by blast
  then have l: "logind t = Some (b\<lparr>lg_active := False\<rparr>)" using assms(2) by (auto simp: tells_def)
  let ?c = "Bus_call_method (lg_path b) SESSION ''PauseDeviceComplete'' [Arg_u (d_major ?d), Arg_u (d_minor ?d)]"
  obtain a u where u: "bus_do B ?c t = (a, u)" by force
  have "handles [] [[Arg_u (d_major ?d), Arg_u (d_minor ?d)]] t u [(?c, a)]"
    using acknowledge_tells [OF u l] by (simp add: handles_def)
  from handles_then [OF t(2,3) this] Some t(1) l u show ?thesis
    by (auto simp: handle_pause_device_def pause_request_def Let_def split: if_splits)
qed

lemma run_handler_handles:
  assumes "listens L" and "logind s = Some b"
  shows "\<exists>s' h. run_handler B L hl m s = Some s' \<and> (\<forall>a. d_incoming a = Some (hl, m) \<longrightarrow> handles (said_in (Bus_process, a)) (asked_in (Bus_process, a)) s s' h)"
proof (cases hl)
  case Ping_handler
  then show ?thesis using handles_refl [OF assms(2)] by (auto simp: run_handler_def)
next
  case Handle_pause_device
  then show ?thesis using handle_pause_handles [OF assms, of B m] by (fastforce simp: run_handler_def)
next
  case Handle_properties_changed
  then show ?thesis using handle_properties_handles [OF assms, of B m] by (fastforce simp: run_handler_def)
qed

text \<open>The listener is told what the service said, and the devices that were asked for are acknowledged.\<close>

definition follows :: "'z hearing_scheme \<Rightarrow> 'z hearing_scheme \<Rightarrow> bool" where
  "follows s s' \<longleftrightarrow> (\<exists>h. tells (said h) h s s' \<and> acked h = asked h)"

lemma follows_refl: "logind s = Some b \<Longrightarrow> follows s s"
  using tells_refl [of s b] by (auto simp: follows_def intro!: exI [of _ "[]"])

lemma follows_trans: "follows s t \<Longrightarrow> follows t u \<Longrightarrow> follows s u"
  unfolding follows_def using tells_trans by (metis history_simps(7-9))

lemma follows_backend: "follows s t \<Longrightarrow> \<exists>b. logind t = Some b"
  using tells_backend by (auto simp: follows_def)

lemma bus_process_follows:
  assumes "listens L" and "logind s = Some b"
  shows "\<exists>s' g a. bus_process B L s = Some (ret a, s') \<and> a = B (bus_log s) (trace s) Bus_process \<and> follows s s'
    \<and> bus_log s' = g @ bus_log s \<and> processed g = [a]"
proof -
  obtain a s1 where 1: "bus_do B Bus_process s = (a, s1)" by force
  then have a: "a = B (bus_log s) (trace s) Bus_process" "logind s1 = Some b" using assms(2) by (auto simp: bus_do_def Let_def)
  have t1: "tells [] [(Bus_process, a)] s s1" using bus_do_tells [OF 1 assms(2)] by simp
  show ?thesis
  proof (cases "d_incoming a")
    case None
    then have "follows s s1" using t1 by (auto simp: follows_def intro!: exI [of _ "[(Bus_process, a)]"])
    then show ?thesis using 1 a None t1 by (intro exI [of _ s1] exI [of _ "[(Bus_process, a)]"]) (simp add: bus_process_def tells_def)
  next
    case (Some hm)
    obtain s2 h where 2: "run_handler B L (fst hm) (snd hm) s1 = Some s2" "handles (said_in (Bus_process, a)) (asked_in (Bus_process, a)) s1 s2 h"
      using run_handler_handles [OF assms(1) a(2), of B "fst hm" "snd hm"] Some by auto
    have "tells (said (h @ [(Bus_process, a)])) (h @ [(Bus_process, a)]) s s2 \<and> acked (h @ [(Bus_process, a)]) = asked (h @ [(Bus_process, a)])"
      using tells_trans [OF t1, of "said_in (Bus_process, a) @ said h" h s2] 2(2) by (simp add: handles_def)
    then have "follows s s2" unfolding follows_def by blast
    moreover have "bus_log s2 = (h @ [(Bus_process, a)]) @ bus_log s" "processed (h @ [(Bus_process, a)]) = [a]"
      using t1 2(2) by (simp_all add: handles_def tells_def)
    ultimately show ?thesis using 1 2(1) Some a(1) by (cases hm) (auto simp: bus_process_def)
  qed
qed

lemma process_loop_follows:
  assumes "process_loop B L k s = Some (r, s')" and "listens L" and "logind s = Some b"
  shows "follows s s'"
proof -
  let ?P = "\<lambda>B L k s q. listens L \<longrightarrow> logind s \<noteq> None \<longrightarrow> follows s (snd q)"
  have "?P B L k s (r, s')"
  proof (rule process_loop.raw_induct [where P = ?P, OF _ assms(1)], intro impI)
    fix loop B and L :: "'a hearing_ext logind_listener" and k s q
    assume IH: "\<And>B L k s q. loop B L k s = Some q \<Longrightarrow> listens L \<longrightarrow> logind s \<noteq> None \<longrightarrow> follows s (snd q)"
      and loop: "do { _ \<leftarrow> logind s; (dispatched, s) \<leftarrow> bus_process B L s;
        if dispatched > 0 then loop B L (k + dispatched) s else Some (k, s) } = Some q"
      and L: "listens L" and s: "logind s \<noteq> None"
    from s obtain b where b: "logind s = Some b" by blast
    obtain t and a :: bus_answer where t: "bus_process B L s = Some (ret a, t)" "follows s t" using bus_process_follows [OF L b, of B] by blast
    then have "logind t \<noteq> None" using follows_backend by blast
    with t loop IH [of B L "k + ret a" t q] L show "follows s (snd q)"
      by (auto simp: bind_eq_Some_conv intro: follows_trans split: if_splits)
  qed
  with assms(2,3) show ?thesis by simp
qed

text \<open>
  The loop ends when \<open>sd_bus_process\<close> has nothing to do. It is taken that this is so at the latest after it has delivered \<open>n\<close>
  messages in a row.
\<close>

definition streak :: "bus_history \<Rightarrow> nat" where
  "streak h = length (takeWhile (\<lambda>a. 0 < ret a) (processed h))"

definition pauses :: "bus \<Rightarrow> nat \<Rightarrow> bool" where
  "pauses B n \<longleftrightarrow> (\<forall>h tr. n \<le> streak h \<longrightarrow> ret (B h tr Bus_process) \<le> 0)"

lemma process_loop_returns:
  assumes "listens L" and "pauses B n" and "logind s = Some b"
  shows "\<exists>r s'. process_loop B L k s = Some (r, s') \<and> k \<le> r"
  using assms(3)
proof (induction "n - streak (bus_log s)" arbitrary: s b k rule: less_induct)
  case less
  obtain t g a where t: "bus_process B L s = Some (ret a, t)" "a = B (bus_log s) (trace s) Bus_process" "follows s t"
      "bus_log t = g @ bus_log s" "processed g = [a]" using bus_process_follows [OF assms(1) less.prems] by blast
  obtain b' where b': "logind t = Some b'" using follows_backend [OF t(3)] by blast
  show ?case
  proof (cases "0 < ret a")
    case True
    then have "streak (bus_log s) < n" using assms(2) t(2) by (metis pauses_def not_le)
    then have "n - streak (bus_log t) < n - streak (bus_log s)" using True t(4,5) by (simp add: streak_def)
    from less.hyps [OF this b', of "k + ret a"] True t(1) less.prems show ?thesis
      by (subst process_loop.simps) auto
  next
    case False
    with t(1) less.prems show ?thesis by (subst process_loop.simps) simp
  qed
qed

lemma bus_do_follows:
  assumes "bus_do B c s = (a, s')" and "logind s = Some b" and "calm [(c, a)]"
  shows "follows s s'"
  using bus_do_tells [OF assms(1,2)] calm_Nil [OF assms(3)] by (auto simp: follows_def intro!: exI [of _ "[(c, a)]"])

lemma check_pending_follows:
  assumes "logind s = Some b"
  shows "follows s (logind_check_pending_events B s)"
proof -
  obtain rd s1 where 1: "bus_do B Bus_get_n_queued_read s = (rd, s1)" by force
  obtain wr s2 where 2: "bus_do B Bus_get_n_queued_write s1 = (wr, s2)" by force
  obtain a s3 where 3: "bus_do B (Bus_call_method_async (Some LOGIN1) PEER ''Ping'') s2 = (a, s3)" by force
  have l: "logind s1 = Some b" "logind s2 = Some b" using assms 1 2 by (auto simp: bus_do_def Let_def)
  have "follows s s2" using follows_trans [OF bus_do_follows [OF 1 assms] bus_do_follows [OF 2 l(1)]] by (simp add: calm_def)
  moreover have "follows s2 s3" using bus_do_follows [OF 3 l(2)] by (simp add: calm_def)
  ultimately show ?thesis by (auto simp: logind_check_pending_events_def logind_send_ping_def 1 2 3 intro: follows_trans)
qed

lemma frame_fields:
  "logind (s\<lparr>errno := e, trace := tr\<rparr>) = logind s" "heard (s\<lparr>errno := e, trace := tr\<rparr>) = heard s"
  "bus_log (s\<lparr>errno := e, trace := tr\<rparr>) = bus_log s"
  by simp_all

lemma follows_frame:
  assumes "logind s = Some b" and "os_frame s s'"
  shows "follows s s'"
proof -
  have "s' = s\<lparr>errno := errno s', trace := trace s'\<rparr>" by (rule os.equality) (use assms(2) in \<open>simp_all add: os_frame_def\<close>)
  then have f: "logind s' = logind s" "heard s' = heard s" "bus_log s' = bus_log s" by (metis frame_fields)+
  then have "mindful s' = mindful s" by (simp only: mindful_def)
  then show ?thesis using assms(1) f by (auto simp: follows_def tells_def intro!: exI [of _ "[]"])
qed

lemma logind_poll_follows:
  assumes "logind s = Some b" and "logind_poll_connection E B timeout s = (r, s')"
  shows "follows s s'"
proof -
  obtain a s1 where 1: "bus_do B Bus_get_fd s = (a, s1)" by force
  obtain q s2 where 2: "sys_call E (C_poll (ret a) timeout) s1 = (q, s2)" by force
  have f1: "follows s s1" using bus_do_follows [OF 1 assms(1)] by (simp add: calm_def)
  have l1: "logind s1 = Some b" using 1 assms(1) by (auto simp: bus_do_def Let_def)
  have "os_frame s1 s2" using sys_call_frames(1) [of s1 E "C_poll (ret a) timeout"] 2 by simp
  then have "follows s s2" "follows s (s2\<lparr>errno := ECONNRESET\<rparr>)" using follows_trans [OF f1 follows_frame [OF l1]] by simp_all
  with assms(2) show ?thesis
    by (auto simp: logind_poll_connection_def 1 2 Let_def split: sum.splits if_splits)
qed

text \<open>After the first part of \<open>dispatch_and_execute\<close> the events take effect.\<close>

definition dispatch_events :: "env \<Rightarrow> bus \<Rightarrow> 'z logind_listener \<Rightarrow> int \<Rightarrow> 'z lgs_scheme \<Rightarrow> (int \<times> 'z lgs_scheme) option" where
  "dispatch_events E B L timeout s = do {
     (total_dispatched, s) \<leftarrow> process_loop B L 0 s;
     _ \<leftarrow> logind s;
     if total_dispatched = 0 \<and> timeout \<noteq> 0 then
       (let (r, s) = logind_poll_connection E B timeout s in
        if r = - 1 then Some (- 1, s)
        else do {
          (total_dispatched, s) \<leftarrow> process_loop B L total_dispatched s;
          _ \<leftarrow> logind s;
          Some (total_dispatched, logind_check_pending_events B s) })
     else Some (total_dispatched, logind_check_pending_events B s) }"

lemma dispatch_events_follow:
  assumes "listens L" and "logind s = Some b"
  shows "(dispatch_events E B L timeout s = Some (r, s') \<longrightarrow> follows s s') \<and> (pauses B n \<longrightarrow> (\<exists>r s'. dispatch_events E B L timeout s = Some (r, s')))"
proof (cases "process_loop B L 0 s")
  case None
  then show ?thesis using process_loop_returns [OF assms(1) _ assms(2), of B n 0] by (auto simp: dispatch_events_def)
next
  case (Some q)
  then obtain k s1 where 1: "process_loop B L 0 s = Some (k, s1)" by (cases q) auto
  note f1 = process_loop_follows [OF 1 assms]
  obtain b1 where b1: "logind s1 = Some b1" using follows_backend [OF f1] by blast
  obtain p s2 where 2: "logind_poll_connection E B timeout s1 = (p, s2)" by force
  note f2 = logind_poll_follows [OF b1 2]
  obtain b2 where b2: "logind s2 = Some b2" using follows_backend [OF f2] by blast
  show ?thesis
  proof (cases "process_loop B L k s2")
    case None
    then show ?thesis using process_loop_returns [OF assms(1) _ b2, of B n k] 1 b1 2 f1 f2 check_pending_follows [OF b1, of B]
      by (auto simp: dispatch_events_def intro: follows_trans split: if_splits)
  next
    case (Some q)
    then obtain k' s3 where 3: "process_loop B L k s2 = Some (k', s3)" by (cases q) auto
    note f3 = process_loop_follows [OF 3 assms(1) b2]
    obtain b3 where b3: "logind s3 = Some b3" using follows_backend [OF f3] by blast
    have "follows s (logind_check_pending_events B s3)" using f1 f2 f3 check_pending_follows [OF b3] by (meson follows_trans)
    then show ?thesis using 1 2 3 b1 b3 f1 f2 check_pending_follows [OF b1, of B]
      by (auto simp: dispatch_events_def intro: follows_trans split: if_splits)
  qed
qed

section \<open>Opening and closing\<close>

text \<open>
  What a history leaves held: references to the bus, and the control of sessions. Control counts as taken when the call
  succeeded, and as given back when the call is made, whatever it returns: the code does not look at the answer.
\<close>

fun ref_change :: "bus_call \<times> bus_answer \<Rightarrow> int" where
  "ref_change (c, a) = (case c of Bus_default_system \<Rightarrow> if ret a < 0 then 0 else 1 | Bus_unref \<Rightarrow> - 1 | _ \<Rightarrow> 0)"

fun control_change :: "bus_call \<times> bus_answer \<Rightarrow> int" where
  "control_change (c, a) = (case c of
     Bus_call_method p i m args \<Rightarrow>
       if m = ''TakeControl'' \<and> \<not> ret a < 0 then 1 else if m = ''ReleaseControl'' then - 1 else 0
   | _ \<Rightarrow> 0)"

definition held :: "bus_history \<Rightarrow> int \<times> int" where
  "held h = (sum_list (map ref_change h), sum_list (map control_change h))"

text \<open>Calls that change nothing of this, nor anything else but the histories.\<close>

definition keeps :: "'z lgs_scheme \<Rightarrow> 'z lgs_scheme \<Rightarrow> bool" where
  "keeps s s' \<longleftrightarrow> held (bus_log s') = held (bus_log s) \<and> logind s' = logind s \<and> lgs.more s' = lgs.more s"

lemma keeps_refl [simp]: "keeps s s"
  by (simp add: keeps_def)

lemma keeps_trans: "keeps s t \<Longrightarrow> keeps t u \<Longrightarrow> keeps s u"
  by (simp add: keeps_def)

lemma bus_do_held:
  assumes "bus_do B c s = (a, s')"
  shows "held (bus_log s') = (fst (held (bus_log s)) + ref_change (c, a), snd (held (bus_log s)) + control_change (c, a))
    \<and> logind s' = logind s \<and> lgs.more s' = lgs.more s"
  using bus_do_effect [OF assms] by (simp add: held_def)

lemma bus_do_keeps:
  assumes "bus_do B c s = (a, s')" and "ref_change (c, a) = 0" and "control_change (c, a) = 0"
  shows "keeps s s'"
  using bus_do_held [OF assms(1)] by (simp only: keeps_def assms(2,3)) simp

lemma alloc_keeps: "sys_alloc E s = (ok, s') \<Longrightarrow> keeps s s'"
  by (auto simp: sys_alloc_def keeps_def split: if_splits)

lemma dup_string_keeps: "dup_string E str s = (p, s') \<Longrightarrow> keeps s s'"
  by (auto simp: dup_string_def dest: alloc_keeps split: prod.splits)

lemma get_display_session_keeps: "get_display_session E B s = Some (r, i, s') \<Longrightarrow> keeps s s'"
  by (auto simp: get_display_session_def dest!: bus_do_keeps dup_string_keeps intro: keeps_trans
      split: option.splits prod.splits if_splits)

lemma manager_keeps:
  "manager_get_session_path E B b s = (r, b', s') \<Longrightarrow> keeps s s' \<and> lg_bus b' = lg_bus b"
  "manager_get_seat_path E B b s = (r, b', s') \<Longrightarrow> keeps s s' \<and> lg_bus b' = lg_bus b"
  by (auto simp: manager_get_session_path_def manager_get_seat_path_def Let_def dest!: bus_do_keeps dup_string_keeps
      intro: keeps_trans split: prod.splits if_splits)

lemma add_signal_matches_keeps: "add_signal_matches B b s = (r, s') \<Longrightarrow> keeps s s'"
  by (auto simp: add_signal_matches_def dest!: bus_do_keeps intro: keeps_trans split: prod.splits if_splits)

lemma session_get_active_keeps: "session_get_active B b s = (r, b', s') \<Longrightarrow> keeps s s' \<and> lg_bus b' = lg_bus b"
  by (auto simp: session_get_active_def dest!: bus_do_keeps split: prod.splits if_splits)

lemma check_pending_keeps: "keeps s (logind_check_pending_events B s)"
  by (auto simp: logind_check_pending_events_def logind_send_ping_def dest!: bus_do_keeps intro: keeps_trans split: prod.splits)

lemma session_set_type_keeps: "keeps s (snd (session_set_type B b ty s))"
  by (auto simp: session_set_type_def dest!: bus_do_keeps split: prod.splits)

lemma logind_connect_held:
  assumes "logind_connect E B b s = Some (r, b', s')" and "\<not> lg_bus b"
  shows "held (bus_log s') = (fst (held (bus_log s)) + of_bool (lg_bus b'), snd (held (bus_log s)) + of_bool (\<not> r < 0))
    \<and> (\<not> r < 0 \<longrightarrow> lg_bus b') \<and> logind s' = logind s \<and> lgs.more s' = lgs.more s"
proof -
  obtain r0 i s0 where 0: "get_display_session E B s = Some (r0, i, s0)"
    using assms(1) by (auto simp: logind_connect_def bind_eq_Some_conv)
  note k0 = get_display_session_keeps [OF 0]
  obtain a1 s1 where 1: "bus_do B (Session_get_seat i) s0 = (a1, s1)" by force
  obtain a2 s2 where 2: "bus_do B Bus_default_system s1 = (a2, s2)" by force
  have k1: "keeps s s1" using k0 bus_do_keeps [OF 1] keeps_trans by simp blast
  have h2: "held (bus_log s2) = (fst (held (bus_log s)) + of_bool (\<not> ret a2 < 0), snd (held (bus_log s)))
      \<and> logind s2 = logind s \<and> lgs.more s2 = lgs.more s"
    using k1 bus_do_held [OF 2] by (simp add: keeps_def)
  let ?b2 = "b\<lparr>lg_id := i, lg_seat := Some (d_str a1), lg_bus := True\<rparr>"
  obtain r3 b3 s3 where 3: "manager_get_session_path E B ?b2 s2 = (r3, b3, s3)" by (metis prod_cases3)
  obtain r4 b4 s4 where 4: "manager_get_seat_path E B b3 s3 = (r4, b4, s4)" by (metis prod_cases3)
  obtain r5 s5 where 5: "add_signal_matches B b4 s4 = (r5, s5)" by force
  obtain r6 b6 s6 where 6: "session_get_active B b4 s5 = (r6, b6, s6)" by (metis prod_cases3)
  obtain a7 s7 where 7: "bus_do B (Bus_call_method (lg_path b6) SESSION ''TakeControl'' [Arg_b False]) s6 = (a7, s7)" by force
  note k = manager_keeps(1) [OF 3] manager_keeps(2) [OF 4] add_signal_matches_keeps [OF 5] session_get_active_keeps [OF 6]
  have "held (bus_log s7) = (fst (held (bus_log s6)), snd (held (bus_log s6)) + of_bool (\<not> ret a7 < 0))
      \<and> logind s7 = logind s6 \<and> lgs.more s7 = lgs.more s6"
    using bus_do_held [OF 7] by simp
  with assms k0 k1 h2 k show ?thesis
    by (auto simp: logind_connect_def 0 1 2 3 4 5 6 7 session_take_control_def keeps_def Let_def cong: if_cong split: if_splits)
qed

lemma logind_open_held:
  assumes "logind_open_seat E B L s = Some (h, s')"
  shows "held (bus_log s') = (fst (held (bus_log s)) + of_bool (h \<noteq> None), snd (held (bus_log s)) + of_bool (h \<noteq> None))
    \<and> lgs.more s' = lgs.more s
    \<and> (if h = None then logind s' = logind s else \<exists>b. logind s' = Some b \<and> lg_bus b \<and> lg_initial_setup b)"
proof -
  let ?b0 = "\<lparr>lg_bus = False, lg_id = None, lg_seat = None, lg_path = None, lg_seat_path = None,
          lg_active = False, lg_initial_setup = False\<rparr>"
  obtain ok s1 where 1: "sys_alloc E s = (ok, s1)" by force
  note k1 = alloc_keeps [OF 1]
  show ?thesis
  proof (cases ok)
    case True
    then obtain r b s2 where 2: "logind_connect E B ?b0 s1 = Some (r, b, s2)"
      using assms 1 by (auto simp: logind_open_seat_def bind_eq_Some_conv)
    note h2 = logind_connect_held [OF 2, simplified]
    obtain a s3 where 3: "bus_do B Bus_unref s2 = (a, s3)" by force
    have h3: "held (bus_log s3) = (fst (held (bus_log s2)) - 1, snd (held (bus_log s2))) \<and> logind s3 = logind s2 \<and> lgs.more s3 = lgs.more s2"
      using bus_do_held [OF 3] by simp
    define s4 where "s4 = (case env_var E ''XDG_SESSION_TYPE'' of None \<Rightarrow> s2 | Some t \<Rightarrow> snd (session_set_type B b t s2))"
    have k4: "keeps s2 s4" using session_set_type_keeps by (auto simp: s4_def split: option.splits)
    note k5 = check_pending_keeps [of "s4\<lparr>logind := Some (b\<lparr>lg_initial_setup := True\<rparr>)\<rparr>" B]
    from assms True 1 2 3 h2 h3 k1 k4 k5 show ?thesis
      by (auto simp: logind_open_seat_def logind_destroy_def s4_def [symmetric] keeps_def split: if_splits)
  qed (use assms 1 k1 in \<open>auto simp: logind_open_seat_def keeps_def\<close>)
qed

lemma logind_close_held:
  assumes "logind s = Some b" and "lg_bus b"
  shows "\<exists>s'. logind_close_seat B s = Some (0, s') \<and> held (bus_log s') = (fst (held (bus_log s)) - 1, snd (held (bus_log s)) - 1)
    \<and> logind s' = None"
proof -
  obtain a s1 where 1: "bus_do B (Bus_call_method (lg_path b) SESSION ''ReleaseControl'' []) s = (a, s1)" by force
  obtain a' s2 where 2: "bus_do B Bus_unref s1 = (a', s2)" by force
  from assms bus_do_held [OF 1] bus_do_held [OF 2] show ?thesis
    by (simp add: logind_close_seat_def session_release_control_def logind_destroy_def 1 2)
qed

text \<open>Opening a seat asks whether the session is active; nothing else is said.\<close>

definition speaks :: "bool list \<Rightarrow> 'z lgs_scheme \<Rightarrow> 'z lgs_scheme \<Rightarrow> bool" where
  "speaks vs s s' \<longleftrightarrow> (\<exists>h. bus_log s' = h @ bus_log s \<and> said h = vs \<and> asked h = [] \<and> acked h = [])"

lemma speaks_log: "bus_log s' = bus_log s \<Longrightarrow> speaks [] s s'"
  by (simp add: speaks_def)

lemma speaks_trans: "speaks vs s t \<Longrightarrow> speaks ws t u \<Longrightarrow> speaks (vs @ ws) s u"
  unfolding speaks_def by (metis append_assoc append_Nil history_simps(7-9))

lemma speaks_trans1: "speaks [] s t \<Longrightarrow> speaks ws t u \<Longrightarrow> speaks ws s u"
  using speaks_trans by fastforce

lemma bus_do_speaks:
  assumes "bus_do B c s = (a, s')" and "calm [(c, a)]"
  shows "speaks [] s s'"
  using bus_do_effect(1) [OF assms(1)] calm_Nil [OF assms(2)] by (auto simp: speaks_def)

lemma dup_string_speaks: "dup_string E str s = (p, s') \<Longrightarrow> speaks [] s s'"
  by (rule speaks_log) (auto simp: dup_string_def sys_alloc_def split: if_splits)

lemma get_display_session_speaks: "get_display_session E B s = Some (r, i, s') \<Longrightarrow> speaks [] s s'"
  by (auto simp: get_display_session_def calm_def dest!: bus_do_speaks dup_string_speaks intro: speaks_trans1
      split: option.splits prod.splits if_splits)

lemma manager_speaks:
  "manager_get_session_path E B b s = (r, b', s') \<Longrightarrow> speaks [] s s'"
  "manager_get_seat_path E B b s = (r, b', s') \<Longrightarrow> speaks [] s s'"
  by (auto simp: manager_get_session_path_def manager_get_seat_path_def calm_def Let_def dest!: bus_do_speaks dup_string_speaks
      intro: speaks_trans1 split: prod.splits if_splits)

lemma add_signal_matches_speaks: "add_signal_matches B b s = (r, s') \<Longrightarrow> speaks [] s s'"
  by (auto simp: add_signal_matches_def calm_def dest!: bus_do_speaks intro: speaks_trans1 split: prod.splits if_splits)

lemma session_get_active_speaks: "session_get_active B b s = (r, b', s') \<Longrightarrow> \<not> r < 0 \<Longrightarrow> speaks [lg_active b'] s s'"
  by (auto simp: session_get_active_def speaks_def dest!: bus_do_effect(1) split: prod.splits if_splits)

lemma session_take_control_speaks: "session_take_control B b s = (r, s') \<Longrightarrow> speaks [] s s'"
  by (auto simp: session_take_control_def calm_def dest!: bus_do_speaks split: prod.splits)

lemma logind_connect_speaks:
  assumes "logind_connect E B b s = Some (r, b', s')" and "\<not> r < 0"
  shows "speaks [lg_active b'] s s'"
proof -
  obtain r0 i s0 where 0: "get_display_session E B s = Some (r0, i, s0)"
    using assms(1) by (auto simp: logind_connect_def bind_eq_Some_conv)
  obtain a1 s1 where 1: "bus_do B (Session_get_seat i) s0 = (a1, s1)" by force
  obtain a2 s2 where 2: "bus_do B Bus_default_system s1 = (a2, s2)" by force
  let ?b2 = "b\<lparr>lg_id := i, lg_seat := Some (d_str a1), lg_bus := True\<rparr>"
  obtain r3 b3 s3 where 3: "manager_get_session_path E B ?b2 s2 = (r3, b3, s3)" by (metis prod_cases3)
  obtain r4 b4 s4 where 4: "manager_get_seat_path E B b3 s3 = (r4, b4, s4)" by (metis prod_cases3)
  obtain r5 s5 where 5: "add_signal_matches B b4 s4 = (r5, s5)" by force
  obtain r6 b6 s6 where 6: "session_get_active B b4 s5 = (r6, b6, s6)" by (metis prod_cases3)
  obtain r7 s7 where 7: "session_take_control B b6 s6 = (r7, s7)" by force
  have ok: "\<not> r6 < 0" "b' = b6" "s' = s7"
    using assms by (auto simp: logind_connect_def 0 1 2 3 4 5 6 7 Let_def cong: if_cong split: if_splits)
  have "speaks [] s s2"
    using speaks_trans1 [OF get_display_session_speaks [OF 0] speaks_trans1 [OF bus_do_speaks [OF 1] bus_do_speaks [OF 2]]] by (simp add: calm_def)
  then have "speaks [] s s5" using manager_speaks(1) [OF 3] manager_speaks(2) [OF 4] add_signal_matches_speaks [OF 5] by (meson speaks_trans1)
  then have "speaks [lg_active b6] s s6" using session_get_active_speaks [OF 6 ok(1)] speaks_trans1 by blast
  then show ?thesis using speaks_trans [OF _ session_take_control_speaks [OF 7]] ok by simp
qed

lemma logind_open_speaks:
  assumes "logind_open_seat E B L s = Some (Some i, s')" and "logind s' = Some b"
  shows "speaks [lg_active b] s s'"
proof -
  obtain ok s1 where 1: "sys_alloc E s = (ok, s1)" by force
  obtain r b2 s2 where 2: "logind_connect E B \<lparr>lg_bus = False, lg_id = None, lg_seat = None, lg_path = None, lg_seat_path = None,
          lg_active = False, lg_initial_setup = False\<rparr> s1 = Some (r, b2, s2)" "\<not> r < 0"
    and s': "s' = logind_check_pending_events B
      ((case env_var E ''XDG_SESSION_TYPE'' of None \<Rightarrow> s2 | Some t \<Rightarrow> snd (session_set_type B b2 t s2))\<lparr>logind := Some (b2\<lparr>lg_initial_setup := True\<rparr>)\<rparr>)"
    using assms(1) 1 by (auto simp: logind_open_seat_def bind_eq_Some_conv Let_def split: if_splits)
  have "lg_active b = lg_active b2"
    using s' assms(2) by (auto simp: logind_check_pending_events_def logind_send_ping_def bus_do_def Let_def split: if_splits)
  moreover have "\<exists>h. bus_log s' = h @ bus_log s2 \<and> calm h"
    unfolding s' by (auto simp: logind_check_pending_events_def logind_send_ping_def session_set_type_def bus_do_def Let_def calm_def split: option.splits)
  then have "speaks [] s2 s'" using calm_Nil by (auto simp: speaks_def)
  moreover have "speaks [] s s1" using 1 by (intro speaks_log) (auto simp: sys_alloc_def split: if_splits)
  ultimately show ?thesis using speaks_trans [OF speaks_trans1 [OF _ logind_connect_speaks [OF 2]], of s "[]" s'] by simp
qed

section \<open>Whole runs\<close>

text \<open>An application that dispatches with one timeout after the other.\<close>

primrec dispatch_times :: "env \<Rightarrow> bus \<Rightarrow> 'z logind_listener \<Rightarrow> int list \<Rightarrow> 'z lgs_scheme \<Rightarrow> 'z lgs_scheme option" where
  "dispatch_times E B L [] s = Some s"
| "dispatch_times E B L (t # ts) s = do { (r, s) \<leftarrow> dispatch_and_execute E B L t s; dispatch_times E B L ts s }"

lemma more_heard:
  assumes "lgs.more s' = lgs.more s"
  shows "heard s' = heard s"
proof -
  have "s' = s\<lparr>errno := errno s', trace := trace s', backend := backend s', noop := noop s', lib_log := lib_log s',
      logind := logind s', bus_log := bus_log s'\<rparr>"
    by (rule lgs.equality) (simp_all add: assms)
  then have "heard s' = heard (s\<lparr>errno := errno s', trace := trace s', backend := backend s', noop := noop s', lib_log := lib_log s',
      logind := logind s', bus_log := bus_log s'\<rparr>)" by (rule arg_cong)
  then show ?thesis by simp
qed

text \<open>
  The invariant of a run that started with an empty history: the backend knows the last thing the service said. Before the first
  dispatch the listener knows nothing; afterwards it was told everything, without repetitions.
\<close>

definition in_step :: "'z hearing_scheme \<Rightarrow> bool" where
  "in_step s \<longleftrightarrow> (\<exists>b vs v. logind s = Some b \<and> said (bus_log s) = vs @ [v] \<and> lg_active b = v \<and> acked (bus_log s) = asked (bus_log s)
     \<and> (if lg_initial_setup b then heard s = [] \<and> vs = [] \<and> acked (bus_log s) = []
        else rev (map fst (heard s)) = remdups_adj (said (bus_log s)) \<and> mindful s))"

definition set_up :: "'z hearing_scheme \<Rightarrow> bool" where
  "set_up s \<longleftrightarrow> in_step s \<and> (\<exists>b. logind s = Some b \<and> \<not> lg_initial_setup b)"

lemma follows_set_up:
  assumes "set_up s" and "follows s s'"
  shows "set_up s'"
proof -
  obtain b vs where b: "logind s = Some b" "said (bus_log s) = vs @ [lg_active b]" "acked (bus_log s) = asked (bus_log s)" "\<not> lg_initial_setup b"
      "rev (map fst (heard s)) = remdups_adj (said (bus_log s))" "mindful s"
    using assms(1) by (auto simp: set_up_def in_step_def)
  obtain h where h: "bus_log s' = h @ bus_log s" "mindful s'" "acked h = asked h" "logind s' = Some (b\<lparr>lg_active := last (lg_active b # said h)\<rparr>)"
      "map fst (heard s') = rev (tl (remdups_adj (lg_active b # said h))) @ map fst (heard s)"
    using assms(2) b(1,6) by (auto simp: follows_def tells_def)
  have "rev (map fst (heard s')) = remdups_adj (vs @ [lg_active b]) @ tl (remdups_adj (lg_active b # said h))"
    using h(5) b(2,5) by simp
  also have "\<dots> = remdups_adj (said (bus_log s'))"
    using h(1) b(2) remdups_adj_append [of vs "lg_active b" "said h"] by simp
  finally have "rev (map fst (heard s')) = remdups_adj (said (bus_log s'))" .
  moreover have "\<exists>ws. said (bus_log s') = ws @ [last (lg_active b # said h)]"
    using h(1) b(2) by (cases "said h" rule: rev_cases) auto
  ultimately show ?thesis using h b(3,4) by (auto simp: set_up_def in_step_def)
qed

text \<open>The first part of \<open>dispatch_and_execute\<close>.\<close>

lemma initial_setup_told:
  assumes "listens L" and "in_step s" and "logind s = Some b"
  shows "\<exists>s'. (if lg_initial_setup b then L (lg_active b) (s\<lparr>logind := Some (b\<lparr>lg_initial_setup := False\<rparr>)\<rparr>) else Some s) = Some s'
    \<and> set_up s'"
proof (cases "lg_initial_setup b")
  case True
  let ?s = "s\<lparr>logind := Some (b\<lparr>lg_initial_setup := False\<rparr>)\<rparr>"
  have s: "said (bus_log s) = [lg_active b]" "acked (bus_log s) = []" "asked (bus_log s) = []" "heard s = []"
    using assms(2,3) True by (auto simp: in_step_def)
  obtain s' h where s': "L (lg_active b) ?s = Some s'" "heard s' = [(lg_active b, length (bus_log s))]" "logind s' = logind ?s"
      "bus_log s' = h @ bus_log s" "calm h"
    using assms(1) s(4) unfolding listens_def by fastforce
  have "acked (bus_log s') = []" using s' s calm_Nil [OF s'(5)] by simp
  then have "\<forall>e \<in> set (bus_log s'). acked_in e = []" by (simp add: acked_def)
  then have "\<forall>h1 e h2. bus_log s' = h1 @ e # h2 \<longrightarrow> acked_in e = []" by (metis in_set_conv_decomp)
  then have "mindful s'" using s'(2-4) unfolding mindful_def by (auto simp del: split_paired_All)
  with True s s' calm_Nil [OF s'(5)] show ?thesis by (auto simp: set_up_def in_step_def)
next
  case False
  with assms(2,3) show ?thesis by (simp add: set_up_def)
qed

lemma dispatch_in_step:
  assumes "listens L" and "in_step s"
  shows "(dispatch_and_execute E B L timeout s = Some (r, s') \<longrightarrow> set_up s')
    \<and> (pauses B n \<longrightarrow> (\<exists>r s'. dispatch_and_execute E B L timeout s = Some (r, s')))"
proof -
  obtain b where b: "logind s = Some b" using assms(2) unfolding in_step_def by blast
  obtain s1 where 1: "(if lg_initial_setup b then L (lg_active b) (s\<lparr>logind := Some (b\<lparr>lg_initial_setup := False\<rparr>)\<rparr>) else Some s) = Some s1"
    and up: "set_up s1" using initial_setup_told [OF assms b] by blast
  obtain b1 where b1: "logind s1 = Some b1" using up by (auto simp: set_up_def)
  have "dispatch_and_execute E B L timeout s = dispatch_events E B L timeout s1"
    using b 1 by (simp add: dispatch_and_execute_def dispatch_events_def)
  with dispatch_events_follow [OF assms(1) b1, of E B timeout r s' n] follows_set_up [OF up] show ?thesis by auto
qed

lemma dispatch_times_in_step:
  assumes "listens L" and "in_step s"
  shows "(dispatch_times E B L ts s = Some s' \<longrightarrow> in_step s' \<and> (ts \<noteq> [] \<longrightarrow> set_up s')) \<and> (pauses B n \<longrightarrow> (\<exists>s'. dispatch_times E B L ts s = Some s'))"
  using assms(2)
proof (induction ts arbitrary: s)
  case (Cons t ts)
  show ?case
  proof (cases "dispatch_and_execute E B L t s")
    case None
    then show ?thesis using dispatch_in_step [OF assms(1) Cons.prems, of E B t _ _ n] by auto
  next
    case (Some q)
    then obtain r s1 where 1: "dispatch_and_execute E B L t s = Some (r, s1)" by (cases q) auto
    then have up: "set_up s1" using dispatch_in_step [OF assms(1) Cons.prems, of E B t r s1 n] by simp
    then have "in_step s1" by (simp add: set_up_def)
    from Cons.IH [OF this] up 1 show ?thesis by (cases ts) auto
  qed
qed auto

lemma open_in_step:
  assumes "bus_log s = []" and "heard s = []" and "logind_open_seat E B L s = Some (Some i, s')"
  shows "in_step s'"
proof -
  obtain b where b: "logind s' = Some b" "lg_initial_setup b" and more: "lgs.more s' = lgs.more s"
    using logind_open_held [OF assms(3)] by auto
  have "said (bus_log s') = [lg_active b] \<and> asked (bus_log s') = [] \<and> acked (bus_log s') = []"
    using logind_open_speaks [OF assms(3) b(1)] assms(1) by (simp add: speaks_def)
  moreover have "heard s' = []" using more_heard [OF more] assms(2) by simp
  ultimately show ?thesis using b by (simp add: in_step_def)
qed

section \<open>A bus\<close>

text \<open>
  The message about changed properties as the service writes it: the interface, the changed properties, each with its value, and
  the names of those that were only invalidated. Containers are entered with a positive result, and left with any that
  is not negative.
\<close>

definition item :: bus_data where
  "item = no_data 1"

definition entry_items :: "string \<times> bool \<Rightarrow> bus_message" where
  "entry_items e = (if fst e = ''Active'' then [item, item\<lparr>d_str := ''Active''\<rparr>, item, item\<lparr>d_bool := snd e\<rparr>, item, item]
     else [item, item\<lparr>d_str := fst e\<rparr>, item, item])"

definition properties_message :: "string \<Rightarrow> (string \<times> bool) list \<Rightarrow> string list \<Rightarrow> bus_message" where
  "properties_message i cs ns = [item\<lparr>d_str := i\<rparr>, item] @ concat (map entry_items cs) @ [no_data 0, item, item]
     @ map (\<lambda>n. item\<lparr>d_str := n\<rparr>) ns @ [no_data 0, item]"

lemma item_simps [simp]:
  "ret item = 1" "ret (no_data r) = r"
  by (simp_all add: item_def no_data_def)

lemma changed_values_entries:
  "changed_values (concat (map entry_items cs) @ no_data 0 # m) = (map snd (filter (\<lambda>e. fst e = ''Active'') cs), True, m)"
proof (induction cs)
  case Nil
  show ?case by (subst changed_values.simps) simp
next
  case (Cons e cs)
  then show ?case by (subst changed_values.simps) (simp add: entry_items_def [of e] active_value_def Let_def)
qed

lemma invalidated_names_items: "invalidated_names (map (\<lambda>n. item\<lparr>d_str := n\<rparr>) ns @ no_data 0 # m) = ns"
  by (induction ns) (simp_all add: invalidated_names_def)

text \<open>
  A service that grants everything, asks once for a device to be given up and announces later that the session is active again;
  and an application that only makes a note of what it is told.
\<close>

definition sample_answer :: bus_answer where
  "sample_answer = \<lparr>ret = 0, d_fd = 12, d_major = 0, d_minor = 0, d_str = ''seat0'', d_bool = True, d_count = 0,
     d_reply = [item\<lparr>d_str := ''/seat''\<rparr>], d_incoming = None\<rparr>"

definition sample_bus :: bus where
  "sample_bus h tr c = (if c = Bus_process \<and> length (processed h) = 0
     then sample_answer\<lparr>ret := 1, d_incoming := Some (Handle_pause_device, [item\<lparr>d_major := 226, d_str := ''pause''\<rparr>])\<rparr>
     else if c = Bus_process \<and> length (processed h) = 1
     then sample_answer\<lparr>ret := 1, d_incoming := Some (Handle_properties_changed, properties_message SESSION [(''Active'', True)] [''Active''])\<rparr>
     else sample_answer)"

definition note_call :: "unit hearing_ext logind_listener" where
  "note_call on s = Some (s\<lparr>heard := (on, length (bus_log s)) # heard s\<rparr>)"

definition sample_app :: "backend_logind option \<Rightarrow> (bool \<times> nat) list \<Rightarrow> hearing" where
  "sample_app b hs = \<lparr>errno = 0, trace = [], backend = None, noop = None, lib_log = initial_log, logind = b, bus_log = [], heard = hs\<rparr>"

definition sample_logind :: backend_logind where
  "sample_logind = \<lparr>lg_bus = True, lg_id = Some ''1'', lg_seat = Some ''seat0'', lg_path = Some ''/session'', lg_seat_path = Some ''/seat'',
     lg_active = True, lg_initial_setup = False\<rparr>"

lemma sample_listens: "listens note_call"
  by (simp add: listens_def note_call_def)

lemma sample_pauses: "pauses sample_bus 2"
proof -
  have "ret (sample_bus h tr Bus_process) \<le> 0" if n: "2 \<le> streak h" for h tr
    using n length_takeWhile_le [of "\<lambda>a. 0 < ret a" "processed h"] by (auto simp: streak_def sample_bus_def sample_answer_def)
  then show ?thesis by (simp add: pauses_def)
qed

lemma sample_open: "\<exists>s. logind_open_seat sample_env sample_bus L (sample_app None []) = Some (Some Logind_impl, s)"
  by (simp add: logind_open_seat_def logind_connect_def get_display_session_def manager_get_session_path_def
      manager_get_seat_path_def add_signal_matches_def session_get_active_def session_take_control_def dup_string_def
      bus_do_def call_defs sample_env_def sample_bus_def sample_answer_def)

lemma sample_run:
  "\<exists>s0 s'. logind_open_seat sample_env sample_bus note_call (sample_app None []) = Some (Some Logind_impl, s0)
    \<and> dispatch_times sample_env sample_bus note_call [0] s0 = Some s' \<and> acked (bus_log s') = [[Arg_u 226, Arg_u 0]]"
  by (simp add: logind_open_seat_def logind_connect_def get_display_session_def manager_get_session_path_def
      manager_get_seat_path_def add_signal_matches_def session_get_active_def session_take_control_def dup_string_def logind_check_pending_events_def
      bus_do_def call_defs sample_env_def sample_bus_def sample_answer_def sample_app_def note_call_def
      dispatch_and_execute_def process_loop.simps bus_process_def run_handler_def handle_pause_device_def
      handle_properties_changed_def properties_message_def entry_items_def changed_loop.simps read_active_def invalidated_loop.simps set_active_def item_def no_data_def Let_def)

section \<open>Properties\<close>

text \<open>C11: however often a client of logind dispatches after it has opened a seat, its listener has been told exactly what the service said
  about the session, in that order and without repetitions: in the answer when the seat was opened and in answers to later questions,
  in announcements of changes, and by asking for devices. The backend knows the last of these. This is for a listener that
  returns and neither closes the seat nor dispatches; every call returns if in addition the bus does not deliver messages without end.\<close>

theorem application_in_step:
  assumes "listens L" and "bus_log s = []" and "heard s = []" and "logind_open_seat E B L s = Some (Some i, s0)" and "ts \<noteq> []"
  shows "(\<forall>s'. dispatch_times E B L ts s0 = Some s' \<longrightarrow> rev (map fst (heard s')) = remdups_adj (said (bus_log s'))
      \<and> map_option lg_active (logind s') = Some (last (said (bus_log s'))))
    \<and> (pauses B n \<longrightarrow> (\<exists>s'. dispatch_times E B L ts s0 = Some s'))"
proof -
  note run = dispatch_times_in_step [OF assms(1) open_in_step [OF assms(2-4)], of E B ts]
  have "rev (map fst (heard s')) = remdups_adj (said (bus_log s')) \<and> map_option lg_active (logind s') = Some (last (said (bus_log s')))"
    if "dispatch_times E B L ts s0 = Some s'" for s'
    using run [of s'] that assms(5) by (auto simp: set_up_def in_step_def)
  with run show ?thesis by blast
qed

theorem application_in_step_witness:
  "\<exists>s0 s'. logind_open_seat sample_env sample_bus note_call (sample_app None []) = Some (Some Logind_impl, s0)
    \<and> dispatch_times sample_env sample_bus note_call [0, 5] s0 = Some s' \<and> rev (map fst (heard s')) = remdups_adj (said (bus_log s'))"
proof -
  obtain s0 where "logind_open_seat sample_env sample_bus note_call (sample_app None []) = Some (Some Logind_impl, s0)"
    using sample_open by blast
  with application_in_step [OF sample_listens _ _ this, of "[0, 5]" 2] sample_pauses show ?thesis by (auto simp: sample_app_def)
qed

text \<open>C14: a message about changed properties tells the listener exactly the changes of \<open>Active\<close>, in their order: the values
  in the message, and then, for each time the name is among the invalidated ones, the answer to a question, unless that
  failed. Other properties have no effect.\<close>

theorem active_takes_effect:
  assumes "listens L" and "logind s = Some b"
  shows "\<exists>s' h. handle_properties_changed B L (properties_message SESSION cs ns) s = Some s' \<and> bus_log s' = h @ bus_log s
    \<and> questions h = replicate (count_list ns ''Active'') (Bus_get_property (lg_path b) SESSION ''Active'') \<and> processed h = []
    \<and> (let vs = lg_active b # map snd (filter (\<lambda>e. fst e = ''Active'') cs) @ said h in
        map fst (heard s') = rev (tl (remdups_adj vs)) @ map fst (heard s) \<and> logind s' = Some (b\<lparr>lg_active := last vs\<rparr>))"
proof -
  let ?vs = "map snd (filter (\<lambda>e. fst e = ''Active'') cs)"
  let ?m = "map (\<lambda>n. item\<lparr>d_str := n\<rparr>) ns @ [no_data 0, item]"
  obtain t g where t: "set_actives L ?vs s = Some t" "tells ?vs g s t" "calm g" using set_actives_tells [OF assms] by blast
  then have l: "logind t = Some (b\<lparr>lg_active := last (lg_active b # ?vs)\<rparr>)" using assms(2) by (auto simp: tells_def)
  obtain ok m' u h where u: "invalidated_loop B L ?m t = Some (ok, m', u)" "handles [] [] t u h"
      "questions h = replicate (count_list ns ''Active'') (Bus_get_property (lg_path b) SESSION ''Active'')"
    using invalidated_loop_handles [OF assms(1) l, of B ?m] invalidated_names_items [of ns "[item]"] by auto
  have "handle_properties_changed B L (properties_message SESSION cs ns) s = Some u"
    using t(1) u(1) changed_values_entries [of cs "item # item # ?m"]
    by (simp add: handle_properties_changed_def properties_message_def changed_loop_eq item_def no_data_def)
  with handles_then [OF t(2,3) u(2)] u(3) calm_Nil2 [OF t(3)] assms(2) show ?thesis
    by (auto simp: handles_def tells_def Let_def intro!: exI [of _ "h @ g"])
qed

theorem active_takes_effect_witness:
  "\<exists>s' h. handle_properties_changed sample_bus note_call
      (properties_message SESSION [(''Active'', True), (''IdleHint'', True), (''Active'', False), (''Active'', False)] [''State'', ''Active''])
      (sample_app (Some sample_logind) [(True, 0)]) = Some s' \<and> bus_log s' = h
    \<and> questions h = [Bus_get_property (Some ''/session'') SESSION ''Active'']
    \<and> map fst (heard s') = rev (tl (remdups_adj ([True, True, False, False] @ said h))) @ [True]"
  using active_takes_effect [OF sample_listens, of "sample_app (Some sample_logind) [(True, 0)]" sample_logind sample_bus
      "[(''Active'', True), (''IdleHint'', True), (''Active'', False), (''Active'', False)]" "[''State'', ''Active'']"]
  by (auto simp: sample_app_def sample_logind_def)

text \<open>C12: in a run of dispatches the devices that are acknowledged as given up are exactly those that logind asked for, in that order;
  one that is gone or was taken by force is not acknowledged. At the time of every acknowledgement the last thing the listener had been told,
  and had returned from, is that the seat is disabled. This is for a listener that returns and neither closes the seat nor dispatches.\<close>

theorem pause_acknowledged_last:
  assumes "listens L" and "bus_log s = []" and "heard s = []" and "logind_open_seat E B L s = Some (Some i, s0)"
    and "dispatch_times E B L ts s0 = Some s'"
  shows "acked (bus_log s') = asked (bus_log s')
    \<and> (\<forall>h1 e h2. bus_log s' = h1 @ e # h2 \<and> acked_in e \<noteq> [] \<longrightarrow> told_at (heard s') (length h2) = Some False)"
proof -
  have s: "in_step s'" using dispatch_times_in_step [OF assms(1) open_in_step [OF assms(2-4)]] assms(5) by blast
  have "told_at (heard s') (length h2) = Some False" if h: "bus_log s' = h1 @ e # h2" "acked_in e \<noteq> []" for h1 e h2
  proof -
    have "acked (bus_log s') \<noteq> []" using h by simp
    then have "mindful s'" using s by (auto simp: in_step_def split: if_splits)
    then show ?thesis using h unfolding mindful_def by blast
  qed
  with s show ?thesis by (auto simp: in_step_def simp del: split_paired_All)
qed

theorem pause_acknowledged_last_witness:
  "\<exists>s0 s' h1 e h2. logind_open_seat sample_env sample_bus note_call (sample_app None []) = Some (Some Logind_impl, s0)
    \<and> dispatch_times sample_env sample_bus note_call [0] s0 = Some s' \<and> acked (bus_log s') = [[Arg_u 226, Arg_u 0]]
    \<and> bus_log s' = h1 @ e # h2 \<and> acked_in e \<noteq> [] \<and> told_at (heard s') (length h2) = Some False"
proof -
  obtain s0 s' where o: "logind_open_seat sample_env sample_bus note_call (sample_app None []) = Some (Some Logind_impl, s0)"
    and r: "dispatch_times sample_env sample_bus note_call [0] s0 = Some s'" "acked (bus_log s') = [[Arg_u 226, Arg_u 0]]"
    using sample_run by blast
  have "\<exists>e \<in> set (bus_log s'). acked_in e \<noteq> []" using r(2) by (metis acked_Nil list.distinct(1))
  then obtain e where "e \<in> set (bus_log s')" "acked_in e \<noteq> []" by blast
  then obtain h1 h2 where h: "bus_log s' = h1 @ e # h2" by (meson split_list)
  with pause_acknowledged_last [OF sample_listens _ _ o r(1)] \<open>acked_in e \<noteq> []\<close>
  have "told_at (heard s') (length h2) = Some False" by (auto simp: sample_app_def simp del: split_paired_All)
  with o r h \<open>acked_in e \<noteq> []\<close> show ?thesis by blast
qed

text \<open>C13: opening a seat takes hold of everything or of nothing: on success one reference to the bus and the control of the
  session, on failure neither, whichever step failed; and closing the seat gives both back.\<close>

theorem seat_held_or_not:
  assumes "logind_open_seat E B L s = Some (h, s')"
  shows "held (bus_log s') = (fst (held (bus_log s)) + of_bool (h \<noteq> None), snd (held (bus_log s)) + of_bool (h \<noteq> None))
    \<and> (h \<noteq> None \<longrightarrow> (\<exists>s''. logind_close_seat B s' = Some (0, s'') \<and> held (bus_log s'') = held (bus_log s) \<and> logind s'' = None))"
proof -
  note o = logind_open_held [OF assms]
  have "\<exists>s''. logind_close_seat B s' = Some (0, s'') \<and> held (bus_log s'') = held (bus_log s) \<and> logind s'' = None" if "h \<noteq> None"
  proof -
    obtain b where "logind s' = Some b" "lg_bus b" using o \<open>h \<noteq> None\<close> by auto
    from logind_close_held [OF this] o \<open>h \<noteq> None\<close> show ?thesis by (auto simp: prod_eq_iff)
  qed
  with o show ?thesis by blast
qed

theorem seat_held_or_not_witness:
  "\<exists>s' s''. logind_open_seat sample_env sample_bus note_call (sample_app None []) = Some (Some Logind_impl, s')
    \<and> held (bus_log s') = (1, 1) \<and> logind_close_seat sample_bus s' = Some (0, s'') \<and> held (bus_log s'') = (0, 0)"
proof -
  obtain s' where s': "logind_open_seat sample_env sample_bus note_call (sample_app None []) = Some (Some Logind_impl, s')"
    using sample_open by blast
  from s' seat_held_or_not [OF s'] show ?thesis by (auto simp: sample_app_def held_def)
qed

text \<open>C29: a failure of the bus is not reported: when \<open>sd_bus_process\<close> fails, dispatching without a timeout returns 0, as if there
  had been nothing to do, and leaves \<open>errno\<close> alone.\<close>

theorem bus_failure_not_reported:
  assumes "logind s = Some b" and "\<not> lg_initial_setup b" and "\<And>h tr. ret (B h tr Bus_process) < 0 \<and> d_incoming (B h tr Bus_process) = None"
  shows "\<exists>s'. dispatch_and_execute E B L 0 s = Some (0, s') \<and> errno s' = errno s"
proof -
  obtain a s1 where 1: "bus_do B Bus_process s = (a, s1)" by force
  have "ret a < 0" "d_incoming a = None" "errno s1 = errno s" "logind s1 = Some b" using assms(1,3) 1 by (auto simp: bus_do_def Let_def)
  moreover have "errno (logind_check_pending_events B s1) = errno s1"
    by (simp add: logind_check_pending_events_def logind_send_ping_def bus_do_def Let_def)
  ultimately show ?thesis using assms(1,2)
    by (simp add: dispatch_and_execute_def bus_process_def process_loop.simps [of B L 0 s] 1)
qed

theorem bus_failure_not_reported_witness:
  "\<exists>s'. dispatch_and_execute sample_env (\<lambda>_ _ _. sample_answer\<lparr>ret := - ENOTCONN\<rparr>) note_call 0 (sample_app (Some sample_logind) [(True, 0)])
    = Some (0, s')"
  using bus_failure_not_reported [of "sample_app (Some sample_logind) [(True, 0)]" sample_logind "\<lambda>_ _ _. sample_answer\<lparr>ret := - ENOTCONN\<rparr>"
      sample_env note_call]
  by (auto simp: sample_app_def sample_logind_def sample_answer_def errno_defs)

end
