(* ===== verification/Simpletest.thy ===== *)
theory Simpletest
  imports Logind_Inv
begin

text \<open>
  The example program \<open>examples/simpletest/main.c\<close>, a client of the library through its front end: it waits until
  the seat is active, opens a device and closes everything. It is run here on two of the backends.
\<close>

section \<open>The program\<close>

record app = lgs +
  app_active :: int

text \<open>The backend passes the seat on whose behalf it calls.\<close>

definition calling_seat :: "'z lgs_scheme \<Rightarrow> seat_impl_id option" where
  "calling_seat s = Some (if logind s \<noteq> None then Logind_impl else if noop s \<noteq> None then Noop_impl else Seatd_impl)"

definition handle_enable :: "'z app_scheme \<Rightarrow> 'z app_scheme option" where
  "handle_enable s = Some (s\<lparr>app_active := app_active s + 1\<rparr>)"

definition handle_disable :: "(seat_impl_id \<Rightarrow> 'z app_ext lgs_ext seat_impl) \<Rightarrow> 'z app_scheme \<Rightarrow> 'z app_scheme option" where
  "handle_disable I s = do {
     let s = s\<lparr>app_active := app_active s - 1\<rparr>;
     (_, s) \<leftarrow> libseat_disable_seat I (calling_seat s) s;
     Some s }"

definition simpletest_listener :: "(seat_impl_id \<Rightarrow> 'z app_ext lgs_ext seat_impl) \<Rightarrow> 'z app_ext logind_listener" where
  "simpletest_listener I on s = (if on then handle_enable s else handle_disable I s)"

text \<open>Whether the seat became active; if not, it has been closed.\<close>

partial_function (option) wait_active ::
    "(seat_impl_id \<Rightarrow> 'z app_ext lgs_ext seat_impl) \<Rightarrow> seat_impl_id option \<Rightarrow> 'z app_scheme \<Rightarrow> (bool \<times> 'z app_scheme) option" where
  [code]: "wait_active I seat s =
     (if app_active s \<noteq> 0 then Some (True, s)
      else do {
        (r, s) \<leftarrow> libseat_dispatch I (simpletest_listener I) seat (- 1) s;
        if r = - 1 then do {
          (_, s) \<leftarrow> libseat_close_seat I (simpletest_listener I) seat s;
          Some (False, s) }
        else wait_active I seat s })"

text \<open>What is written to the standard error stream is left out.\<close>

definition simpletest_main ::
    "env \<Rightarrow> build \<Rightarrow> (seat_impl_id \<Rightarrow> 'z app_ext lgs_ext seat_impl) \<Rightarrow> string list \<Rightarrow> 'z app_scheme \<Rightarrow> (int \<times> 'z app_scheme) option" where
  "simpletest_main E B I argv s =
     (if length argv < 2 then Some (- 1, s)
      else do {
        let s = s\<lparr>app_active := 0, lib_log := libseat_set_log_level LIBSEAT_LOG_LEVEL_DEBUG (lib_log s)\<rparr>;
        (seat, s) \<leftarrow> libseat_open_seat E B I (Some (simpletest_listener I)) s;
        if seat = None then Some (- 1, s)
        else do {
          (ok, s) \<leftarrow> wait_active I seat s;
          if \<not> ok then Some (- 1, s)
          else do {
            (device, fd, s) \<leftarrow> libseat_open_device I seat (argv ! 1) s;
            if device = - 1 then do {
              (_, s) \<leftarrow> libseat_close_seat I (simpletest_listener I) seat s;
              Some (1, s) }
            else do {
              (_, s) \<leftarrow> libseat_close_device I seat device s;
              fd \<leftarrow> fd;
              let s = sys_close E fd s;
              (_, s) \<leftarrow> libseat_close_seat I (simpletest_listener I) seat s;
              Some (0, s) } } } })"

section \<open>With the backend that does nothing\<close>

text \<open>How many more times a descriptor was handed out than closed.\<close>

fun fd_change :: "int \<Rightarrow> event \<Rightarrow> int" where
  "fd_change fd (E_open p fl (Inr n)) = of_bool (n = fd)"
| "fd_change fd (E_socketpair (Inr (a, b))) = of_bool (a = fd) + of_bool (b = fd)"
| "fd_change fd (E_close n r) = - of_bool (n = fd)"
| "fd_change fd ev = 0"

definition fd_balance :: "trace \<Rightarrow> int \<Rightarrow> int" where
  "fd_balance tr fd = sum_list (map (fd_change fd) tr)"

lemma fd_balance_Cons [simp]: "fd_balance (ev # tr) fd = fd_change fd ev + fd_balance tr fd"
  by (simp add: fd_balance_def)

lemma log_init_trace: "log_init E lg s = (lg', s') \<Longrightarrow> fd_balance (trace s') fd = fd_balance (trace s) fd"
  by (auto simp: log_init_def sys_clock_def sys_call_def Let_def split: if_splits)

lemma noop_returns:
  "\<exists>h s'. noop_open_seat E L s = Some (h, s')" "\<exists>d fd s'. noop_open_device E path s = Some (d, fd, s')"
  by (auto simp: noop_open_seat_def noop_open_device_def split: prod.split sum.split)

lemma noop_open_balance:
  assumes "noop_open_seat E L s = Some (h, s')"
  shows "app_active s' = app_active s
    \<and> (h = None \<and> noop s' = noop s \<and> (\<forall>fd. fd_balance (trace s') fd = fd_balance (trace s) fd)
     \<or> (\<exists>a b. h = Some Noop_impl \<and> noop s' = Some \<lparr>initial_setup = True, sockets = (a, b)\<rparr>
          \<and> (\<forall>fd. fd_balance (trace s') fd = fd_balance (trace s) fd + of_bool (a = fd) + of_bool (b = fd))))"
  using assms
  by (auto simp: noop_open_seat_def sys_alloc_def sys_socketpair_def note_result_def Let_def split: sum.splits if_splits)

lemma noop_close_balance:
  assumes "noop s = Some bk" and "sockets bk = (a, b)"
  shows "\<exists>s'. noop_close_seat E s = Some (0, s') \<and> noop s' = None
    \<and> (\<forall>fd. fd_balance (trace s') fd = fd_balance (trace s) fd - of_bool (a = fd) - of_bool (b = fd))"
  using assms by (simp add: noop_close_seat_def noop_destroy_def sys_close_def Let_def)

lemma noop_dispatch_balance:
  assumes "noop s = Some \<lparr>initial_setup = True, sockets = (a, b)\<rparr>" and "app_active s = 0"
  shows "\<exists>r s' bk. dispatch_background E (simpletest_listener I) t s = Some (r, s') \<and> app_active s' = 1
    \<and> noop s' = Some bk \<and> sockets bk = (a, b) \<and> (\<forall>fd. fd_balance (trace s') fd = fd_balance (trace s) fd)"
  using assms
  by (cases "k_call E (trace s) (C_poll a t)")
    (simp_all add: dispatch_background_def simpletest_listener_def handle_enable_def sys_call_def note_result_def Let_def)

lemma noop_wait_balance:
  assumes "noop s = Some \<lparr>initial_setup = True, sockets = (a, b)\<rparr>" and "app_active s = 0" and "I Noop_impl = noop_impl E"
  shows "\<exists>ok s'. wait_active I (Some Noop_impl) s = Some (ok, s')
    \<and> (if ok then (\<exists>bk. noop s' = Some bk \<and> sockets bk = (a, b)) \<and> (\<forall>fd. fd_balance (trace s') fd = fd_balance (trace s) fd)
       else noop s' = None \<and> (\<forall>fd. fd_balance (trace s') fd = fd_balance (trace s) fd - of_bool (a = fd) - of_bool (b = fd)))"
proof -
  obtain r s1 bk where 1: "dispatch_background E (simpletest_listener I) (- 1) s = Some (r, s1)" "app_active s1 = 1"
    and bk: "noop s1 = Some bk" "sockets bk = (a, b)" and bal: "\<forall>fd. fd_balance (trace s1) fd = fd_balance (trace s) fd"
    using noop_dispatch_balance [OF assms(1,2), of E I "- 1"] by blast
  have go: "wait_active I (Some Noop_impl) s1 = Some (True, s1)" using 1(2) by (subst wait_active.simps) simp
  obtain s2 where "noop_close_seat E s1 = Some (0, s2)" "noop s2 = None"
    "\<forall>fd. fd_balance (trace s2) fd = fd_balance (trace s1) fd - of_bool (a = fd) - of_bool (b = fd)"
    using noop_close_balance [OF bk, of E] by blast
  with go 1 bk bal assms(2,3) show ?thesis
    by (subst wait_active.simps) (auto simp: libseat_dispatch_def libseat_close_seat_def noop_impl_def)
qed

lemma noop_finish_balance:
  assumes "noop s = Some bk" and "sockets bk = (a, b)" and "I Noop_impl = noop_impl E"
  shows "\<exists>s'. libseat_close_seat I L (Some Noop_impl) s = Some (0, s') \<and> noop s' = None
    \<and> (\<forall>fd. fd_balance (trace s') fd = fd_balance (trace s) fd - of_bool (a = fd) - of_bool (b = fd))"
  using noop_close_balance [OF assms(1,2), of E] assms(3) by (simp add: libseat_close_seat_def noop_impl_def)

lemma noop_device_balance:
  assumes "noop_open_device E path s = Some (d, fd, s')" and "fds_nonneg E"
  shows "noop s' = noop s \<and> (d = - 1 \<and> (\<forall>x. fd_balance (trace s') x = fd_balance (trace s) x)
    \<or> d \<noteq> - 1 \<and> fd = Some d \<and> (\<forall>x. fd_balance (trace s') x = fd_balance (trace s) x + of_bool (d = x)))"
proof (cases "k_open E (trace s) path [O_RDWR, O_NOCTTY, O_NOFOLLOW, O_CLOEXEC, O_NONBLOCK]")
  case (Inr n)
  then have "0 \<le> n" using assms(2) unfolding fds_nonneg_def by blast
  with Inr assms(1) show ?thesis by (auto simp: noop_open_device_def sys_open_def c_int_def note_result_def)
qed (use assms(1) in \<open>auto simp: noop_open_device_def sys_open_def c_int_def note_result_def\<close>)

lemma simpletest_after_open:
  assumes "noop s = Some \<lparr>initial_setup = True, sockets = (a, b)\<rparr>" and "app_active s = 0" and "I Noop_impl = noop_impl E" and "fds_nonneg E"
  shows "\<exists>r s'. do {
      (ok, s) \<leftarrow> wait_active I (Some Noop_impl) s;
      if \<not> ok then Some (- 1, s)
      else do {
        (device, fd, s) \<leftarrow> libseat_open_device I (Some Noop_impl) node s;
        if device = - 1 then do {
          (_, s) \<leftarrow> libseat_close_seat I (simpletest_listener I) (Some Noop_impl) s;
          Some (1, s) }
        else do {
          (_, s) \<leftarrow> libseat_close_device I (Some Noop_impl) device s;
          fd \<leftarrow> fd;
          let s = sys_close E fd s;
          (_, s) \<leftarrow> libseat_close_seat I (simpletest_listener I) (Some Noop_impl) s;
          Some (0, s) } } } = Some (r, s') \<and> r \<in> {- 1, 0, 1} \<and> noop s' = None
    \<and> (\<forall>fd. fd_balance (trace s') fd = fd_balance (trace s) fd - of_bool (a = fd) - of_bool (b = fd))"
proof -
  obtain ok s1 where 1: "wait_active I (Some Noop_impl) s = Some (ok, s1)"
    and ok: "if ok then (\<exists>bk. noop s1 = Some bk \<and> sockets bk = (a, b)) \<and> (\<forall>fd. fd_balance (trace s1) fd = fd_balance (trace s) fd)
       else noop s1 = None \<and> (\<forall>fd. fd_balance (trace s1) fd = fd_balance (trace s) fd - of_bool (a = fd) - of_bool (b = fd))"
    using noop_wait_balance [where I = I, OF assms(1-3)] by blast
  show ?thesis
  proof (cases ok)
    case True
    then obtain bk where bk: "noop s1 = Some bk" "sockets bk = (a, b)" using ok by auto
    obtain d fd s2 where 2: "noop_open_device E node s1 = Some (d, fd, s2)" using noop_returns(2) by blast
    note dev = noop_device_balance [OF 2 assms(4)]
    have "noop s2 = Some bk" "noop (sys_close E d s2) = Some bk" using dev bk(1) by (auto simp: sys_close_def note_result_def Let_def split: sum.splits)
    then obtain s3 s4 where "libseat_close_seat I (simpletest_listener I) (Some Noop_impl) s2 = Some (0, s3)" "noop s3 = None"
      "\<forall>fd. fd_balance (trace s3) fd = fd_balance (trace s2) fd - of_bool (a = fd) - of_bool (b = fd)"
      "libseat_close_seat I (simpletest_listener I) (Some Noop_impl) (sys_close E d s2) = Some (0, s4)" "noop s4 = None"
      "\<forall>fd. fd_balance (trace s4) fd = fd_balance (trace (sys_close E d s2)) fd - of_bool (a = fd) - of_bool (b = fd)"
      using noop_finish_balance [where I = I, OF _ bk(2) assms(3)] by metis
    moreover have "fd_balance (trace (sys_close E d s2)) x = fd_balance (trace s2) x - of_bool (d = x)" for x
      by (simp add: sys_close_def Let_def)
    ultimately show ?thesis using True 1 2 ok dev assms(3)
      by (auto simp: libseat_open_device_def libseat_close_device_def noop_impl_def noop_close_device_def)
  qed (use 1 ok in auto)
qed

text \<open>C21: the whole example program, run with \<open>LIBSEAT_BACKEND=noop\<close> on top of the library and of any kernel: it ends, with
  -1, 0 or 1, the seat is closed, and every descriptor that was opened on the way is closed as often, whichever call failed.\<close>

theorem simpletest_leaks_nothing:
  assumes "env_var E ''LIBSEAT_BACKEND'' = Some ''noop''" and "fds_nonneg E" and "noop s = None"
  shows "\<exists>r s'. simpletest_main E B (impl_of E path rounds (logind_impl E bus)) [prog, node] s = Some (r, s') \<and> r \<in> {- 1, 0, 1}
    \<and> noop s' = None \<and> fd_balance (trace s') = fd_balance (trace s)"
proof -
  let ?I = "impl_of E path rounds (logind_impl E bus)" and ?lg = "libseat_set_log_level LIBSEAT_LOG_LEVEL_DEBUG (lib_log s)"
  let ?s = "s\<lparr>app_active := 0, lib_log := ?lg\<rparr>"
  obtain lg s1 where 1: "log_init E ?lg ?s = (lg, s1)" by force
  have "os_frame ?s s1" using log_init_frame [of ?s E ?lg] 1 by simp
  then have s1: "s1 = ?s\<lparr>errno := errno s1, trace := trace s1\<rparr>" by (intro os.equality) (simp_all add: os_frame_def)
  have s1': "app_active s1 = 0" "noop s1 = None" using arg_cong [OF s1, of app_active] arg_cong [OF s1, of noop] assms(3) by simp_all
  have tr1: "fd_balance (trace s1) = fd_balance (trace s)" using log_init_trace [OF 1] by auto
  obtain h s2 where 2: "noop_open_seat E (simpletest_listener ?I) (s1\<lparr>lib_log := lg\<rparr>) = Some (h, s2)"
    using noop_returns(1) by blast
  have "find (\<lambda>(name, i). ''noop'' = name) (impls B) = Some (''noop'', Noop_impl)" by (simp add: impls_def)
  then have run: "libseat_open_seat E B ?I (Some (simpletest_listener ?I)) ?s = Some (h, s2)"
    using assms(1) 1 2 by (simp add: libseat_open_seat_def impl_of_def noop_impl_def)
  note bal = noop_open_balance [OF 2]
  show ?thesis
  proof (cases h)
    case None
    with bal run s1' tr1 show ?thesis by (auto simp: simpletest_main_def)
  next
    case (Some i)
    then obtain a b where h: "h = Some Noop_impl" and bk: "noop s2 = Some \<lparr>initial_setup = True, sockets = (a, b)\<rparr>" "app_active s2 = 0"
      and tr2: "\<forall>fd. fd_balance (trace s2) fd = fd_balance (trace s) fd + of_bool (a = fd) + of_bool (b = fd)"
      using bal s1' tr1 by auto
    have I: "?I Noop_impl = (noop_impl E :: 'a app_ext lgs_ext seat_impl)" by (simp add: impl_of_def)
    note after = simpletest_after_open [where I = ?I and node = "[prog, node] ! 1", OF bk I assms(2)]
    then obtain r s' where "simpletest_main E B ?I [prog, node] s = Some (r, s')" "r \<in> {- 1, 0, 1}" "noop s' = None"
      "\<forall>fd. fd_balance (trace s') fd = fd_balance (trace s2) fd - of_bool (a = fd) - of_bool (b = fd)"
      using run h by (auto simp: simpletest_main_def simp del: One_nat_def)
    with tr2 show ?thesis by (intro exI [of _ r] exI [of _ s']) auto
  qed
qed

theorem simpletest_leaks_nothing_witness:
  "\<exists>r s'. simpletest_main (sample_env\<lparr>env_var := [''LIBSEAT_BACKEND'' \<mapsto> ''noop'']\<rparr>)
      \<lparr>SEATD_ENABLED = True, LOGIND_ENABLED = True, BUILTIN_ENABLED = False\<rparr>
      (impl_of (sample_env\<lparr>env_var := [''LIBSEAT_BACKEND'' \<mapsto> ''noop'']\<rparr>) ''/run/seatd.sock'' []
        (logind_impl (sample_env\<lparr>env_var := [''LIBSEAT_BACKEND'' \<mapsto> ''noop'']\<rparr>) sample_bus)) [''simpletest'', ''/dev/null'']
      \<lparr>errno = 0, trace = [], backend = None, noop = None, lib_log = initial_log, logind = None, bus_log = [], app_active = 0\<rparr> = Some (r, s')
    \<and> fd_balance (trace s') = fd_balance []"
  using simpletest_leaks_nothing [of "sample_env\<lparr>env_var := [''LIBSEAT_BACKEND'' \<mapsto> ''noop'']\<rparr>"
      "\<lparr>errno = 0, trace = [], backend = None, noop = None, lib_log = initial_log, logind = None, bus_log = [], app_active = 0\<rparr>"]
  by (fastforce simp: sample_env_kernel)

section \<open>With logind\<close>

text \<open>A seat whose session is not active counts as active: the first dispatch calls \<open>handle_disable\<close>, and the counter
  is no longer 0.\<close>

lemma inactive_taken_for_active:
  assumes "I Logind_impl = logind_impl E B" and "logind s = Some b" and "lg_initial_setup b" and "\<not> lg_active b" and "app_active s = 0"
    and "\<And>h tr. ret (B h tr Bus_process) = 0 \<and> d_incoming (B h tr Bus_process) = None" and "\<And>tr fd. k_call E tr (C_poll fd (- 1)) = Inr 0"
  shows "\<exists>s'. wait_active I (Some Logind_impl) s = Some (True, s') \<and> app_active s' = - 1"
proof -
  let ?s = "s\<lparr>logind := Some (b\<lparr>lg_initial_setup := False\<rparr>), app_active := - 1\<rparr>"
  have init: "simpletest_listener I False (s\<lparr>logind := Some (b\<lparr>lg_initial_setup := False\<rparr>)\<rparr>) = Some ?s"
    using assms(1,5) by (simp add: simpletest_listener_def handle_disable_def libseat_disable_seat_def calling_seat_def logind_impl_def logind_disable_seat_def)
  let ?up = "\<lambda>t. app_active t = - 1 \<and> logind t = Some (b\<lparr>lg_initial_setup := False\<rparr>)"
  have idle: "process_loop B (simpletest_listener I) k t = Some (k, snd (bus_do B Bus_process t))" if "?up t" for k t
    using assms(6) that by (subst process_loop.simps) (simp add: bus_process_def bus_do_def Let_def)
  obtain s2 where 2: "snd (bus_do B Bus_process ?s) = s2" "?up s2" by (simp add: bus_do_def Let_def)
  obtain s3 where 3: "logind_poll_connection E B (- 1) s2 = (0, s3)" "?up s3"
    using assms(7) 2(2) by (simp add: logind_poll_connection_def bus_do_def sys_call_def note_result_def Let_def)
  obtain s4 where 4: "snd (bus_do B Bus_process s3) = s4" "?up s4" using 3(2) by (simp add: bus_do_def Let_def)
  obtain s5 where 5: "logind_check_pending_events B s4 = s5" "app_active s5 = - 1"
    using 4(2) by (simp add: logind_check_pending_events_def logind_send_ping_def bus_do_def Let_def)
  have "dispatch_and_execute E B (simpletest_listener I) (- 1) s = Some (0, s5)"
    using assms(2-4) init by (simp add: dispatch_and_execute_def idle 2 3 4 5)
  moreover have "wait_active I (Some Logind_impl) s5 = Some (True, s5)" using 5(2) by (subst wait_active.simps) simp
  ultimately show ?thesis using assms(1,5) 5(2)
    by (subst wait_active.simps) (simp add: libseat_dispatch_def logind_impl_def)
qed

end
