(* ===== verification/Spec2Isabelle.thy ===== *)
theory Spec2Isabelle
  imports Linked_List Lifecycle Main_Inv Seatd_Launch Simpletest
begin

text \<open>
  A verification of seatd, a seat management daemon, of libseat, the library its clients use, and of
  seatd-launch.

  \<^bold>\<open>The program.\<close> The server owns seats. Clients connect over a local socket, open a seat and
  ask for devices; at most one client of a seat is active, and only it has usable devices. A switch
  of sessions disables the active client, waits for its acknowledgement, and enables the next one; on a seat bound to
  virtual terminals the switch is driven by signals of the kernel. The server is one thread around \<open>poll\<close>: callbacks of event
  sources read requests from ring buffers, work on the seats and queue replies. The library hides three ways
  of getting a seat behind one interface: the server (over its socket, or forked and embedded), logind (over D-Bus), and a backend
  that grants everything. seatd-launch starts a server and then a command without privileges.

  \<^bold>\<open>How the code is modelled.\<close> A C function is a HOL function of the same name on explicit state. \<open>None\<close> of an option
  means that the call does not come back: a failed assertion, a use of freed memory, an endless loop, or the end of the process.
  Loops are structural recursion where the data gives out, and \<open>partial_function\<close> otherwise; theorems about the latter state that they
  return. Machine integers are words where wrap-around matters (the indices of the ring buffers, opcodes, sizes and device
  numbers of the protocol) and \<open>int\<close> elsewhere; pointers to objects are keys of a heap, and freeing removes the key. A key names
  one allocation and is not used again, where \<open>calloc\<close> may return an address once more. An intrusive list
  is the list of its elements; theory \<open>Linked_List\<close> shows on explicit pointers that the operations of
  \<open>common/linked_list.c\<close> justify this. The kernel is the parameter \<open>env\<close> of theory \<open>Kernel\<close>: each system call is answered by a
  function of the history of calls, and what theorems need of it (\<open>send_progress\<close>, \<open>recv_bounded\<close>, \<open>kernel_ok\<close>) is a named hypothesis that
  \<open>sample_env\<close> meets. The listener of an application and the D-Bus library are parameters too.

  \<^bold>\<open>The theories\<close>, in the order of their dependencies:
  \<^item> \<open>Prelude\<close>, \<open>Kernel\<close>: types, errno values, memory as byte lists; system calls.
  \<^item> \<open>Linked_List\<close> (\<open>common/linked_list.c\<close>), \<open>Connection\<close> (\<open>common/connection.c\<close>: the ring buffers, \<open>connection_read\<close>, \<open>connection_flush\<close>),
    \<open>Terminal\<close> (\<open>common/terminal.c\<close>), \<open>Device\<close> (\<open>drm.c\<close>, \<open>evdev.c\<close>, \<open>hidraw.c\<close>, \<open>wscons.c\<close>), \<open>Protocol\<close> (\<open>include/protocol.h\<close>).
  \<^item> \<open>Poller\<close> (\<open>seatd/poller.c\<close>): sources, the array for \<open>poll\<close>, rounds of callbacks. The callbacks are
    parameters; the locales \<open>fd_callbacks\<close> and \<open>signal_callbacks\<close> say what a round needs of them.
  \<^item> \<open>State\<close>, \<open>Seat\<close> (\<open>seatd/seat.c\<close>), \<open>Client\<close> (\<open>seatd/client.c\<close>), \<open>Server\<close> (\<open>seatd/server.c\<close>): the record \<open>sys\<close> holds the heaps of clients
    and seats, the list of clients without a seat and the poller. \<open>run_server\<close> is the loop of the programs under a schedule
    of signals, one list for each round; the schedule bounds the number of rounds and is arbitrary.
  \<^item> \<open>Graph\<close>, \<open>Seat_Inv\<close>, \<open>Client_Inv\<close>, \<open>Server_Inv\<close>: the invariant \<open>server_inv\<close> (who is in which list, who is active, which
    source belongs to whom, the devices of a client) and that every operation keeps it. The handlers of
    requests share the contract of the locale \<open>request\<close>. \<open>reachable\<close> is the set of states between the rounds of the loop.
  \<^item> \<open>Progress\<close>, \<open>Switching\<close>, \<open>Sample\<close>: that operations return, what a switch does, and a concrete server for witnesses. \<open>Lifecycle\<close>: the life of a
    client goes one way, from a state to every \<open>later\<close> one.
  \<^item> \<open>Libseat_Seatd\<close> (\<open>libseat/backend/seatd.c\<close>), \<open>Libseat_Inv\<close>, \<open>Libseat_Run\<close>: the client side of the protocol; \<open>Composition\<close> puts its
    requests into the input of the server.
  \<^item> \<open>Log\<close> (\<open>common/log.c\<close>), \<open>Libseat\<close> (\<open>libseat/libseat.c\<close>, \<open>noop.c\<close>, the embedded server), \<open>Libseat_Logind\<close> and \<open>Logind_Inv\<close>
    (\<open>libseat/backend/logind.c\<close>).
  \<^item> \<open>Options\<close>, \<open>Seatd_Main\<close> (\<open>seatd/seatd.c\<close>), \<open>Seatd_Launch\<close> (\<open>seatd-launch/seatd-launch.c\<close>), \<open>Main_Inv\<close>: the programs. \<open>getopt\<close> and
    \<open>atoi\<close> are defined as POSIX has them. \<open>Simpletest\<close> (\<open>examples/simpletest/main.c\<close>) runs the library from its front end.

  \<^bold>\<open>What is shown.\<close> For the server, in every reachable state: at most one client of a seat is active, each
  client is in exactly one list, callbacks refer to objects that exist, devices are well formed; a client that has closed its seat stays without one. Every request returns and
  consumes exactly its bytes; the loop over the input is the cutting of the input into frames. Disabling a client revokes
  its devices, a switch of sessions and a switch of terminals hand over, only recognised devices are opened, and the end of the server frees everything. For the
  parts below: the ring buffer is a queue of bytes across wrap-around, flushing and reading lose nothing,
  linked lists are sequences, a round of callbacks visits each source once. For the library: requests
  get their answers, \<open>dispatch\<close> returns, a queued event is never left without a wakeup, what \<open>open_device\<close> sends is what the
  server understands; through logind the application is told what the service says of the session, in order and without repetitions, devices are
  acknowledged only after that, and opening takes everything or nothing. For the
  programs: options, privileges, exit status; the example program leaves no descriptor open.

  Several theorems have conditions that the code does not check. Progress of the server needs the terminals of bound seats to be known
  (\<open>steady\<close>, \<open>vts_known\<close>: otherwise the server aborts, as one of the properties shows) and counters below \<open>INT_MAX\<close>. The theorems about logind are for a
  listener that returns and neither closes the seat nor dispatches (\<open>listens\<close>), and that dispatching returns needs a bus that does not
  deliver messages without end (\<open>pauses\<close>).

  Several properties of kind error record what the code does although it should not: the server aborts when a
  client leaves between the release of its terminal and the acknowledgement; opening an open device reports a failure; events reach the
  application newest first; error codes of the server are lost; long paths cost the connection; a descriptor is closed twice;
  seatd-launch can wait forever; a failing bus looks idle.

  \<^bold>\<open>Not modelled.\<close> The text of log messages: calls of the log are left out of all
  components but \<open>Log\<close> itself, which shows that logging changes nothing but the history and leaves \<open>errno\<close> alone; the expansion of format strings
  belongs to the C library. Signals arrive between the rounds of the loop, not within a callback, as the
  handler only writes to a pipe. The programs under \<open>tests\<close> drive single components and have no behaviour of
  their own. The shared default connection that the D-Bus library hands out is private to the backend in the model. The layout
  of messages is that of little-endian machines.
\<close>

unbundle bit_operations_syntax

text \<open>C1: at every point of a run at most one client of a seat is active or still giving the seat
  up, and it is the one that the seat records as its active client.\<close>

theorem one_active_client:
  assumes "reachable E s" and "send_progress E" and "recv_bounded E" and "seat_heap s st = Some x"
  shows "{c. \<exists>k. client_heap s c = Some k \<and> c_seat k = Some st \<and> c_state k \<in> {CLIENT_ACTIVE, CLIENT_PENDING_DISABLE}}
    = set_option (active_client x)"
proof -
  have g: "graph {} s" using reachable_server_inv [OF assms(1-3)] by (simp add: server_inv_def)
  have "active_client x = Some c \<Longrightarrow> c \<in> set (s_clients x)" for c using graph_seat_ok [OF g assms(4)] by (simp add: seat_ok_def)
  with graph_member [OF g assms(4)] graph_client_seat [OF g] assms(4) show ?thesis by (fastforce simp: active_state_def)
qed

theorem one_active_client_witness:
  "\<exists>s x. reachable sample_env s \<and> seat_heap s 0 = Some x \<and> client_heap s 1 \<noteq> None
    \<and> {c. \<exists>k. client_heap s c = Some k \<and> c_seat k = Some 0 \<and> c_state k \<in> {CLIENT_ACTIVE, CLIENT_PENDING_DISABLE}}
    = set_option (active_client x)"
  using sample_reachable one_active_client [of sample_env _ 0] by fastforce

text \<open>C3: at every point of a run each client that exists is in exactly one place: on the list of
  clients without a seat, or on the client list of its seat; and what the lists name exists.\<close>

theorem clients_in_one_place:
  assumes "reachable E s" and "send_progress E" and "recv_bounded E"
  shows "distinct (idle_clients s) \<and> set (idle_clients s) = {c. \<exists>k. client_heap s c = Some k \<and> c_seat k = None}
    \<and> (\<forall>st x. seat_heap s st = Some x \<longrightarrow> distinct (s_clients x)
        \<and> set (s_clients x) = {c. \<exists>k. client_heap s c = Some k \<and> c_seat k = Some st})"
proof -
  have g: "graph {} s" using reachable_server_inv [OF assms] by (simp add: server_inv_def)
  then have "distinct (idle_clients s)" by (simp add: graph_def shape_ok_def)
  moreover have "set (idle_clients s) = {c. \<exists>k. client_heap s c = Some k \<and> c_seat k = None}"
    using g by (auto simp: graph_def shape_ok_def view_def cview_def)
  moreover have "distinct (s_clients x) \<and> set (s_clients x) = {c. \<exists>k. client_heap s c = Some k \<and> c_seat k = Some st}"
    if x: "seat_heap s st = Some x" for st x
    using graph_seat_ok [OF g x] graph_member [OF g x] graph_client_seat [OF g] x by (fastforce simp: seat_ok_def)
  ultimately show ?thesis by blast
qed

theorem clients_in_one_place_witness:
  "\<exists>s. reachable sample_env s \<and> client_heap s 1 \<noteq> None
    \<and> set (idle_clients s) = {c. \<exists>k. client_heap s c = Some k \<and> c_seat k = None}"
  using sample_reachable clients_in_one_place [of sample_env] by fastforce

text \<open>C2: no callback outlives what it works on: at every point of a run a descriptor source that is not
  marked for removal and calls back for a client belongs to a client that exists, waits on the
  descriptor of its connection and is the source that the client knows as its own.\<close>

theorem callbacks_refer_to_live_clients:
  assumes "reachable E s" and "send_progress E" and "recv_bounded E"
    and "x \<in> set (p_fds (poller s))" and "\<not> es_killed x" and "es_handler x = Client_handle_connection c"
  shows "\<exists>k. client_heap s c = Some k \<and> event_source k = Some (es_id x) \<and> conn_fd (connection k) = es_fd x"
proof -
  have inv: "server_inv s" by (rule reachable_server_inv [OF assms(1-3)])
  with assms(4-6) obtain fd where "owners s c = Some (Some (es_id x), fd)"
    unfolding server_inv_def sources_ok_def callback_ok_def by fastforce
  then obtain k where k: "client_heap s c = Some k" "event_source k = Some (es_id x)" by (auto simp: owners_def)
  obtain y where y: "find_fd (es_id x) (poller s) = Some y" "es_fd y = conn_fd (connection k)"
    using server_inv_source [OF inv k(1)] k(2) by auto
  moreover have "find_fd (es_id x) (poller s) = Some x"
    using inv assms(4) by (subst find_fd_iff) (simp_all add: server_inv_def poller_ok_def)
  ultimately show ?thesis using k by auto
qed

theorem callbacks_refer_to_live_clients_witness:
  "\<exists>s x k. reachable sample_env s \<and> x \<in> set (p_fds (poller s)) \<and> \<not> es_killed x \<and> es_handler x = Client_handle_connection 1
    \<and> client_heap s 1 = Some k \<and> event_source k = Some (es_id x) \<and> conn_fd (connection k) = es_fd x"
proof -
  obtain s x where "reachable sample_env s" "x \<in> set (p_fds (poller s))" "\<not> es_killed x" "es_handler x = Client_handle_connection 1"
    using sample_reachable by blast
  with callbacks_refer_to_live_clients [of sample_env s x 1] show ?thesis by auto
qed

text \<open>C30: at every point of a run the devices of a client have different identifiers and paths, are
  held at least once, and are at most \<open>MAX_SEAT_DEVICES\<close>; a client without a seat has none.\<close>

theorem devices_well_formed:
  assumes "reachable E s" and "send_progress E" and "recv_bounded E" and "client_heap s c = Some k"
  shows "distinct (map device_id (c_devices k)) \<and> distinct (map dev_path (c_devices k)) \<and> length (c_devices k) \<le> 128
    \<and> (\<forall>d \<in> set (c_devices k). 1 \<le> device_id d \<and> 1 \<le> ref_cnt d \<and> dev_fd d \<noteq> - 1)
    \<and> (c_seat k = None \<longrightarrow> c_devices k = [])"
proof -
  have g: "graph {} s" using reachable_server_inv [OF assms(1-3)] by (simp add: server_inv_def)
  have "client_ok k" by (rule graph_client_ok [OF g assms(4)]) simp
  then show ?thesis by (auto simp: client_ok_def devices_ok_def device_ok_def MAX_SEAT_DEVICES_def)
qed


theorem devices_well_formed_witness:
  "\<exists>s k. reachable sample_env s \<and> client_heap s 1 = Some k \<and> distinct (map device_id (c_devices k))"
  using sample_reachable devices_well_formed [of sample_env _ 1] by fastforce

text \<open>C4: a request is always answered: in a state in which no counter (of sessions, devices and references) is at
  \<open>INT_MAX\<close> and the terminals of every seat that is bound to terminals, and of its clients, are known, \<open>client_handle_opcode\<close> returns for every opcode and length,
  with 0 or -1, keeps the invariant of the server, and on success has consumed exactly the
  announced payload.\<close>

theorem every_request_returns:
  assumes "server_inv s" and "kernel_ok E" and "steady s" and "client_heap s c = Some k"
  shows "\<exists>r s'. client_handle_opcode E c op len s = Some (r, s') \<and> server_inv s' \<and> (r = 0 \<or> r = - 1)
    \<and> (r = 0 \<longrightarrow> input s' c = drop len (input s c)) \<and> (\<exists>k'. client_heap s' c = Some k')"
proof -
  from client_handle_opcode_returns [OF assms] obtain r s' where h: "client_handle_opcode E c op len s = Some (r, s')" by blast
  have "served c len s (r, s')" by (rule client_handle_opcode_served [OF assms(1) kernel_okD(1) [OF assms(2)] assms(4) h])
  then show ?thesis using h serve_frame_client [OF _ assms(4), of s'] unfolding served_def fst_conv snd_conv by blast
qed

theorem every_request_returns_witness:
  "\<exists>r s'. client_handle_opcode sample_env 1 CLIENT_SWITCH_SESSION 4 (sample_sys (sample_seat True [2, 1])) = Some (r, s')
    \<and> server_inv s' \<and> (r = 0 \<or> r = - 1)"
  using every_request_returns [OF sample_inv sample_kernel_ok sample_steady sample_clients(1)] by blast

text \<open>C5: reading the input of a client byte by byte and handling its requests in between does what cutting the
  input into frames first and handling them in order would do; the rest of an incomplete frame
  stays where it is.\<close>

theorem message_loop_serves_frames:
  assumes "server_inv s" and "send_progress E" and "client_heap s c = Some k"
  shows "message_loop E c s = serve_frames E c (fst (frames (input s c))) s"
  by (rule message_loop_eq [OF assms])

theorem message_loop_serves_frames_witness:
  "message_loop sample_env 1 (sample_sys (sample_seat True [2, 1]))
    = serve_frames sample_env 1 (fst (frames (input (sample_sys (sample_seat True [2, 1])) 1))) (sample_sys (sample_seat True [2, 1]))"
  by (rule message_loop_serves_frames [OF sample_inv sample_env_meets(1) sample_clients(1)])

text \<open>C17: disabling a client takes its devices away: for each active one the revoking call for its kind
  is made, only a device for which the kernel refused stays marked active, and the client has to
  acknowledge.\<close>

theorem disable_revokes_devices:
  assumes "server_inv s" and "kernel_ok E" and "client_heap s c = Some k" and "c_state k = CLIENT_ACTIVE"
  shows "\<exists>r s' k'. seat_disable_client E c s = Some (r, s') \<and> client_heap s' c = Some k'
    \<and> c_state k' = CLIENT_PENDING_DISABLE \<and> list_all2 (revoked E (trace s')) (c_devices k) (c_devices k')"
  using seat_disable_client_effect [OF _ assms(2-4)] assms(1) by (fastforce simp: server_inv_def)

theorem disable_revokes_devices_witness:
  "\<exists>r s' k'. seat_disable_client sample_env 1 (sample_sys (sample_seat True [2, 1])) = Some (r, s') \<and> client_heap s' 1 = Some k'
    \<and> c_state k' = CLIENT_PENDING_DISABLE \<and> list_all2 (revoked sample_env (trace s')) [sample_device] (c_devices k')"
  using disable_revokes_devices [OF sample_inv sample_kernel_ok sample_clients(1), of True] by (simp add: sample_client_def)

text \<open>C15: a switch hands the seat over: when the active client of a seat that is not bound to terminals and has no switch queued asks
  for the session, with a positive number, of another client and then acknowledges that it has been disabled, the other client is active
  and the first is disabled.\<close>

theorem switch_hands_over:
  assumes "server_inv s" and "kernel_ok E" and "client_heap s c = Some k" and "c_state k = CLIENT_ACTIVE" and "c_seat k = Some st"
    and "seat_heap s st = Some x" and "\<not> vt_bound x" and "next_client x = None"
    and "t \<in> set (s_clients x)" and "t \<noteq> c" and "client_heap s t = Some kt" and "0 < c_session kt"
  shows "\<exists>s1 s2 k' kt'. seat_set_next_session E c (c_session kt) s = Some (0, s1) \<and> seat_ack_disable_client E c s1 = Some (0, s2)
    \<and> seat_heap s2 st = Some (x\<lparr>active_client := Some t\<rparr>) \<and> client_heap s2 c = Some k' \<and> c_state k' = CLIENT_DISABLED
    \<and> client_heap s2 t = Some kt' \<and> c_state kt' = CLIENT_ACTIVE"
  by (rule switch_then_ack) (use assms in \<open>auto simp: server_inv_def\<close>)

theorem switch_hands_over_witness:
  "\<exists>s1 s2 kt'. seat_set_next_session sample_env 1 1 (sample_sys (sample_seat False [2, 1])) = Some (0, s1)
    \<and> seat_ack_disable_client sample_env 1 s1 = Some (0, s2) \<and> client_heap s2 2 = Some kt' \<and> c_state kt' = CLIENT_ACTIVE"
  using switch_hands_over [OF sample_inv [of False] sample_kernel_ok sample_clients(1) _ _ sample_seats _ _ _ _ sample_clients(2)]
  by (auto simp: sample_client_def sample_seat_def)



text \<open>C31: a server that shuts down lets go of everything: it destroys its clients and seats in turn, which ends,
  and at the end no client, seat or event source is left. This is as long as the terminal of every seat that is bound to terminals and the
  session of every client on a seat are known; when they are not, an assertion can fail on the way (\<open>release_then_disconnect_aborts\<close>).\<close>

theorem shutdown_frees_everything:
  assumes "server_inv s" and "kernel_ok E" and "vts_known s"
  shows "\<exists>s'. server_finish E s = Some s' \<and> client_heap s' = Map.empty \<and> seat_heap s' = Map.empty \<and> seats s' = []
    \<and> idle_clients s' = [] \<and> p_fds (poller s') = [] \<and> p_signals (poller s') = []"
  using server_finish_returns [OF assms] server_finish_ok [OF assms(1) kernel_okD(1) [OF assms(2)]] by blast

theorem shutdown_frees_everything_witness:
  "\<exists>s'. server_finish sample_env (sample_sys (sample_seat True [2, 1])) = Some s' \<and> client_heap s' = Map.empty"
proof -
  have "vts_known (sample_sys (sample_seat True [2, 1]))"
    by (auto simp: vts_known_def vt_view_def sample_sys_def sample_seat_def sample_client_def split: if_splits)
  from shutdown_frees_everything [OF sample_inv sample_kernel_ok this] show ?thesis by blast
qed

text \<open>C18: a client cannot make the server open anything but a device: the only file that
  \<open>seat_open_device\<close> opens is the canonical path of what was asked for, once, if that is the
  path of an input, graphics, console or raw HID device and the client is active; when it opens
  nothing it returns no device.\<close>

theorem only_devices_are_opened:
  assumes "client_heap s c = Some k" and "c_seat k = Some st" and "server_inv s" and "roomy k"
  shows "\<exists>r s'. seat_open_device E c path s = Some (r, s')
    \<and> (opened_paths (trace s') = opened_paths (trace s) \<and> r = None
       \<or> (\<exists>p. k_realpath E (trace s) path = Inr p \<and> c_state k = CLIENT_ACTIVE
           \<and> (path_is_evdev E p \<or> path_is_drm E p \<or> path_is_wscons E p \<or> path_is_hidraw E p)
           \<and> opened_paths (trace s') = p # opened_paths (trace s)))"
proof -
  have g: "graph {} s" using assms(3) by (simp add: server_inv_def)
  from seat_open_device_returns [OF g assms(1) _ assms(2), of E path] assms(4) obtain r s' where
      call: "seat_open_device E c path s = Some (r, s')" by (auto simp: roomy_def)
  from seat_open_device_opens [OF assms(1) call] call show ?thesis
    by (auto simp: device_class_def split: if_splits)
qed

theorem only_devices_are_opened_witness:
  "\<exists>r s'. seat_open_device sample_env 1 ''/dev/dri/card0'' (sample_sys (sample_seat True [2, 1])) = Some (r, s')
    \<and> opened_paths (trace s') \<in> {[], [''/dev/dri/card0'']}"
proof -
  have "roomy (sample_client 1 11 0 CLIENT_ACTIVE [sample_device])" "c_seat (sample_client 1 11 0 CLIENT_ACTIVE [sample_device]) = Some 0"
    by (simp_all add: roomy_def sample_client_def sample_device_def INT_MAX_def)
  from only_devices_are_opened [OF sample_clients(1) this(2) sample_inv [of True] this(1), of sample_env "''/dev/dri/card0''"]
  show ?thesis by (simp add: sample_sys_def sample_env_def) blast
qed

text \<open>C23: opening a path twice fails the second time: the reference count of the device that is open goes up, but the
  call returns no device and leaves \<open>errno\<close> alone, so the client is told of an error and has to
  close the device once more than it opened it.\<close>

theorem reopening_reports_failure:
  assumes "server_inv s" and "client_heap s c = Some k" and "c_state k = CLIENT_ACTIVE" and "roomy k"
    and "k_realpath E (trace s) path = Inr p" and "device_class E p \<noteq> None" and "p \<in> dev_path ` set (c_devices k)"
  shows "\<exists>s' i. seat_open_device E c path s = Some (None, s') \<and> i < length (c_devices k) \<and> dev_path (c_devices k ! i) = p
    \<and> client_heap s' c = Some (k\<lparr>c_devices := (c_devices k)[i := (c_devices k ! i)\<lparr>ref_cnt := ref_cnt (c_devices k ! i) + 1\<rparr>]\<rparr>)
    \<and> errno s' = errno s"
  using seat_open_device_again [OF _ assms(2-7)] assms(1) by (simp add: server_inv_def)

theorem reopening_reports_failure_witness:
  "\<exists>s'. seat_open_device sample_env 1 ''/dev/input/event0'' (sample_sys (sample_seat True [2, 1])) = Some (None, s')
    \<and> client_heap s' 1 = Some (sample_client 1 11 0 CLIENT_ACTIVE [sample_device\<lparr>ref_cnt := 2\<rparr>])"
proof -
  let ?k = "sample_client 1 11 0 CLIENT_ACTIVE [sample_device]"
  have k: "roomy ?k" "c_state ?k = CLIENT_ACTIVE" "''/dev/input/event0'' \<in> dev_path ` set (c_devices ?k)" "c_devices ?k = [sample_device]"
    by (simp_all add: roomy_def sample_client_def sample_device_def INT_MAX_def)
  have E: "k_realpath sample_env tr ''/dev/input/event0'' = Inr ''/dev/input/event0''" "device_class sample_env ''/dev/input/event0'' \<noteq> None" for tr
    by (simp_all add: sample_env_def device_class_def path_is_evdev_def str_has_prefix_iff)
  from reopening_reports_failure [OF sample_inv sample_clients(1) k(2,1) E k(3)] k(4) show ?thesis
    by (auto simp: sample_client_def sample_device_def)
qed

text \<open>C22: when the terminal of a bound seat has been released while its only client was active, and the client then goes away
  without having acknowledged, the server aborts: the terminal it wants to restore is the
  number -1, which fails the assertion in \<open>get_tty_path\<close>.\<close>

theorem release_then_disconnect_aborts:
  assumes "server_inv s" and "kernel_ok E" and "seat_heap s st = Some x" and "vt_bound x" and "s_clients x = [c]"
    and "active_client x = Some c" and "seat_update_vt E st s = Some s1" and "seat_heap s1 st = Some x1" and "0 \<le> cur_vt x1"
  shows "\<exists>s'. seat_vt_release E st s = Some (0, s') \<and> seat_remove_client E c s' = None"
proof -
  have g: "graph {} s" using assms(1) by (simp add: server_inv_def)
  from seat_vt_release_returns [OF g assms(2-4,7-9)] obtain s' where rel: "seat_vt_release E st s = Some (0, s')" by blast
  with release_then_remove_aborts [OF g kernel_okD(1) [OF assms(2)] assms(3-6) rel] show ?thesis by blast
qed

theorem release_then_disconnect_aborts_witness:
  "\<exists>s'. seat_vt_release sample_env 0 lone_sys = Some (0, s') \<and> seat_remove_client sample_env 1 s' = None"
proof -
  have x: "seat_heap lone_sys 0 = Some (sample_seat True [1])" "vt_bound (sample_seat True [1])" "s_clients (sample_seat True [1]) = [1]"
      "active_client (sample_seat True [1]) = Some 1"
    by (simp_all add: lone_sys_def sample_sys_def sample_seat_def)
  have "\<exists>s1 x1. seat_update_vt sample_env 0 lone_sys = Some s1 \<and> seat_heap s1 0 = Some x1 \<and> 0 \<le> cur_vt x1"
    using x(1) by (simp add: seat_update_vt_def terminal_open_def get_tty_path_def terminal_current_vt_def sample_env_def call_defs
        dec_string.simps upd_seat_def)
  then obtain s1 x1 where "seat_update_vt sample_env 0 lone_sys = Some s1" "seat_heap s1 0 = Some x1" "0 \<le> cur_vt x1" by blast
  from release_then_disconnect_aborts [OF lone_inv sample_kernel_ok x this] show ?thesis .
qed

text \<open>When the array for \<open>poll\<close> is rebuilt it lists the signal pipe and then exactly the descriptor sources that are not
  marked for removal, in order, each of which knows its place in the array; the marked ones are gone. The rebuild returns, and
  when there is no memory for the array nothing changes.\<close>

lemma regenerate_lists_live_sources:
  assumes "poller_ok (poller s)"
  shows "\<exists>r s'. regenerate E s = Some (r, s') \<and> poller_ok (poller s')
    \<and> (r = 0 \<and> p_fds (poller s') = number_from 1 (live_fds (poller s))
          \<and> take (fd_event_sources (poller s')) (pollfds (poller s'))
            = \<lparr>pfd_fd = fst (signal_fds (poller s)), pfd_events = POLLIN, pfd_revents = 0\<rparr>
              # map pollfd_of (live_fds (poller s))
       \<or> r = - 1 \<and> poller s' = poller s)"
proof -
  from regenerate_returns [OF assms] obtain r s' where call: "regenerate E s = Some (r, s')" by blast
  from regenerate_ok [OF assms call] call show ?thesis by blast
qed

text \<open>C38: one round of callbacks visits the descriptor sources that were there when it began, each once and in
  order, although callbacks add and remove sources while it runs.\<close>

theorem dispatch_visits_each_source_once:
  assumes "server_inv s" and "send_progress E" and "recv_bounded E"
  shows "dispatch_fds (call_fd E) (first_elem es_id (p_fds (poller s))) s
    = dispatch_each (dispatch_fd (call_fd E)) (map es_id (p_fds (poller s))) s"
  using dispatch_eq(2) [of E s] assms by (simp add: server_ok_def)

theorem dispatch_visits_each_source_once_witness:
  "dispatch_fds (call_fd sample_env) (first_elem es_id (p_fds (poller (sample_sys (sample_seat True [2, 1])))))
      (sample_sys (sample_seat True [2, 1]))
    = dispatch_each (dispatch_fd (call_fd sample_env)) [2, 1, 0] (sample_sys (sample_seat True [2, 1]))"
proof -
  have "map es_id (p_fds (poller (sample_sys (sample_seat True [2, 1])))) = [2, 1, 0]" by (simp add: sample_sys_def sample_source_def)
  with dispatch_visits_each_source_once [OF sample_inv, of sample_env True] show ?thesis by simp
qed

text \<open>Releasing a client's devices ends and leaves none, however often each was opened.\<close>

lemma close_devices_terminates:
  assumes "server_inv s" and "client_heap s c = Some k" and "c_seat k = Some st"
  shows "\<exists>s'. close_devices E c s = Some s' \<and> client_heap s' = (client_heap s)(c \<mapsto> k\<lparr>c_devices := []\<rparr>)"
proof -
  have g: "graph {} s" using assms(1) by (simp add: server_inv_def)
  obtain x where x: "seat_heap s st = Some x" using graph_client_seat [OF g assms(2,3)] by auto
  have "devices_ok (c_devices k)" using graph_client_ok [OF g assms(2)] by (simp add: client_ok_def)
  from close_devices_ok [OF assms(2,3) x this, of E] show ?thesis by auto
qed

text \<open>A client whose connection breaks is gone: on an error or hangup event the callback returns -1, the client is freed
  and its source is no longer live, whatever else was pending, and the invariant of the server holds.\<close>

lemma hangup_ends_client:
  assumes "server_inv s" and "kernel_ok E" and "vts_known s" and "client_heap s c = Some k"
    and "m AND (EVENT_ERROR OR EVENT_HANGUP) \<noteq> 0"
  shows "\<exists>s'. client_handle_connection E m c s = Some (- 1, s') \<and> server_inv s' \<and> client_heap s' c = None
    \<and> (\<forall>x \<in> set (p_fds (poller s')). es_handler x = Client_handle_connection c \<longrightarrow> es_killed x)"
proof -
  from client_destroy_returns [OF assms(1-4)] obtain s' where d: "client_destroy E c s = Some s'" by blast
  have ds: "destroyed E c s s'" by (rule client_destroy_inv [OF assms(1) kernel_okD(1) [OF assms(2)] assms(4) d])
  then have inv: "server_inv s'" and gone: "owners s' c = None" by (auto simp: destroyed_def)
  have "es_killed x" if "x \<in> set (p_fds (poller s'))" "es_handler x = Client_handle_connection c" for x
    using inv that gone by (auto simp: server_inv_def sources_ok_def callback_ok_def)
  moreover have "client_heap s' c = None" using gone by (simp add: owners_def)
  moreover have "m AND EVENT_ERROR \<noteq> 0 \<or> m AND EVENT_HANGUP \<noteq> 0"
    using assms(5) by (auto simp: bit.conj_disj_distrib)
  then have "client_handle_connection E m c s = Some (- 1, s')"
    using d assms(4) by (auto simp: client_handle_connection_def)
  ultimately show ?thesis using inv by blast
qed

text \<open>C6: the two sides of the connection understand each other: the bytes that \<open>open_device\<close> of the client library puts
  for a path of fewer than 250 characters, arriving at the server in front of whatever follows, make
  it handle the opening of exactly that path, with exactly those bytes consumed.\<close>

theorem open_device_understood:
  assumes "server_inv s" and "client_heap s c = Some k" and "length path < 250" and "0 \<notin> set (string_bytes path)"
    and "input s c = concat (open_device_msgs path) @ rest"
  shows "\<exists>cn s1. s1 = s\<lparr>client_heap := (client_heap s)(c \<mapsto> k\<lparr>connection := cn\<rparr>)\<rparr> \<and> server_inv s1 \<and> input s1 c = rest
    \<and> message_loop E c s = do {
        (r, s) \<leftarrow> handle_open_device E c path s1;
        (r, s) \<leftarrow> (if r \<noteq> - 1 then client_flush E c s else Some (r, s));
        if r = - 1 then Some (False, s) else message_loop E c s }"
proof -
  define n where "n = length path + 1"
  then have n: "0 < n" "n \<le> 250" "length (string_bytes path @ [0]) = n" "length path = n - 1" using assms(3) by auto
  define m where "m = 2 + n"
  then have m: "m \<le> 252" "m - 2 = n" "\<not> m < 2" using n by auto
  let ?up = "\<lambda>cn. s\<lparr>client_heap := (client_heap s)(c \<mapsto> k\<lparr>connection := cn\<rparr>)\<rparr>"
  have inp: "input s c = header_bytes CLIENT_OPEN_DEVICE m @ encode_len_msg (of_nat n) @ (string_bytes path @ [0]) @ rest"
    using assms(5) by (simp add: open_device_msgs_def Let_def n_def m_def)
  from client_get_front [OF assms(1,2) inp, of 4] obtain c1 where
      g1: "client_get c 4 s = Some (Some (header_bytes CLIENT_OPEN_DEVICE m), ?up c1)" "server_inv (?up c1)"
        "contents (conn_in c1) = encode_len_msg (of_nat n) @ (string_bytes path @ [0]) @ rest" by auto
  from client_get_front [OF g1(2), of c "k\<lparr>connection := c1\<rparr>" "encode_len_msg (of_nat n)" "(string_bytes path @ [0]) @ rest" 2] g1(3) obtain c2 where
      g2: "client_get c 2 (?up c1) = Some (Some (encode_len_msg (of_nat n)), ?up c2)" "server_inv (?up c2)"
        "contents (conn_in c2) = (string_bytes path @ [0]) @ rest" by (auto simp: input_def)
  from client_get_front [OF g2(2), of c "k\<lparr>connection := c2\<rparr>" "string_bytes path @ [0]" rest n] g2(3) obtain c3 where
      g3: "client_get c n (?up c2) = Some (Some (string_bytes path @ [0]), ?up c3)" "server_inv (?up c3)"
        "contents (conn_in c3) = rest" using n(3) by (auto simp: input_def)
  have d: "decode_header (header_bytes CLIENT_OPEN_DEVICE m) = \<lparr>opcode = CLIENT_OPEN_DEVICE, msg_size = of_nat m\<rparr>"
      "unat (of_nat m :: u16) = m" "unat (of_nat n :: u16) = n"
    using n(2) m(1) by (simp_all only: header_bytes_def header.dec_enc) (simp_all only: unat_of_nat, simp_all)
  have tw: "takeWhile (\<lambda>b. b \<noteq> 0) (string_bytes path @ [0]) = string_bytes path"
    using assms(4) by (simp add: takeWhile_append takeWhile_eq_all_conv)
  have ne: "CLIENT_OPEN_DEVICE \<noteq> CLIENT_OPEN_SEAT" "CLIENT_OPEN_DEVICE \<noteq> CLIENT_CLOSE_SEAT" by (simp_all add: client_opcode_defs CLIENT_EVENT_def)
  have "handle_open_device_msg E c m (?up c1) = handle_open_device E c path (?up c3)"
    using n m by (simp add: handle_open_device_msg_def g2(1) g3(1) Let_def len_msg.dec_enc d(3) MAX_PATH_LEN_def strnlen_def tw)
  moreover have "\<not> connection_pending c1 < m" using n m_def by (simp add: connection_pending_def g1(3) flip: length_contents)
  ultimately have "message_loop E c s = do {
        (r, s) \<leftarrow> handle_open_device E c path (?up c3);
        (r, s) \<leftarrow> (if r \<noteq> - 1 then client_flush E c s else Some (r, s));
        if r = - 1 then Some (False, s) else message_loop E c s }"
    by (simp add: message_loop.simps [of E c s] g1(1) d client_handle_opcode_def switch_opcode_def ne Let_def split_def)
  with g3 show ?thesis by (auto simp: input_def)
qed


theorem open_device_understood_witness:
  "\<exists>s1. server_inv s1 \<and> input s1 1 = [] \<and> message_loop sample_env 1 (fed_sys (concat (open_device_msgs ''/dev/dri/card0''))) = do {
        (r, s) \<leftarrow> handle_open_device sample_env 1 ''/dev/dri/card0'' s1;
        (r, s) \<leftarrow> (if r \<noteq> - 1 then client_flush sample_env 1 s else Some (r, s));
        if r = - 1 then Some (False, s) else message_loop sample_env 1 s }"
  using open_device_understood [OF fed_sys_ok(1,2), of "concat (open_device_msgs ''/dev/dri/card0'')" "''/dev/dri/card0''" "[]" sample_env] fed_sys_ok(3)
  by (auto simp: string_bytes_def open_device_msgs_def Let_def)

text \<open>C26: a path of 250 to 255 characters passes the checks on both sides, but its request does not fit the buffer of
  the server: once that is full, the loop leaves the incomplete frame in it, and the next time
  there is something to read the client is disconnected.\<close>

theorem long_path_disconnects:
  assumes "server_inv s" and "send_progress E" and "client_heap s c = Some k" and "250 \<le> length path" and "length path + 1 \<le> MAX_PATH_LEN"
    and "input s c = take 256 (concat (open_device_msgs path))"
  shows "message_loop E c s = Some (True, s) \<and> (\<exists>s'. client_on_readable E c s = Some (False, s') \<and> errno s' = EOVERFLOW)"
proof -
  define m where "m = Suc (Suc (Suc (length path)))"
  then have m: "252 < m" "m < 65536" using assms(4,5) by (auto simp: MAX_PATH_LEN_def)
  have inp: "length (input s c) = 256" "take 4 (input s c) = header_bytes CLIENT_OPEN_DEVICE m"
    using assms(4,6) by (simp_all add: open_device_msgs_def Let_def min_def m_def)
  have "decode_header (header_bytes CLIENT_OPEN_DEVICE m) = \<lparr>opcode = CLIENT_OPEN_DEVICE, msg_size = of_nat m\<rparr>" "unat (of_nat m :: u16) = m"
    using m by (simp_all add: header_bytes_def header.dec_enc unat_of_nat)
  then have "fst (frames (input s c)) = []" using inp m by (simp add: frames.simps [of "input s c"])
  with message_loop_eq [OF assms(1-3)] inp(1) have "message_loop E c s = Some (True, s)" by simp
  moreover have "unat (connection_buffer_size (conn_in (connection k))) = 256" using inp(1) assms(3) by (simp add: input_def)
  then have "connection_read E (connection k) s = Some (- 1, connection k, s\<lparr>errno := EOVERFLOW\<rparr>)"
    by (simp add: connection_read_def CONNECTION_BUFFER_SIZE_def)
  then have "\<exists>s'. client_on_readable E c s = Some (False, s') \<and> errno s' = EOVERFLOW"
    using assms(3) by (simp add: client_on_readable_def upd_client_def errno_defs)
  ultimately show ?thesis by blast
qed

theorem long_path_disconnects_witness:
  "message_loop sample_env 1 (fed_sys (take 256 (concat (open_device_msgs (replicate 250 CHR ''x'')))))
    = Some (True, fed_sys (take 256 (concat (open_device_msgs (replicate 250 CHR ''x'')))))"
  using long_path_disconnects [OF fed_sys_ok(1) sample_env_meets(1) fed_sys_ok(2),
    of "take 256 (concat (open_device_msgs (replicate 250 CHR ''x'')))" "replicate 250 CHR ''x''"] fed_sys_ok(3)
  by (simp add: MAX_PATH_LEN_def)

end
